(* ===== verification/Prelude.thy ===== *)
theory Prelude
  imports Main "HOL-Library.Word" "HOL-Library.List_Lexorder" "HOL-Library.Sublist"
begin

text \<open>
  Shared material of the Sekas development.

  The theory fixes the machine types of the Rust sources (\<open>u8\<close>, \<open>u32\<close>, \<open>u64\<close> as words, byte
  vectors as lists of \<open>u8\<close>, compared lexicographically as Rust compares slices), the bind of
  Rust's \<open>?\<close> operator on \<open>Result\<close>, and the fixed-width byte representations of integers
  (\<open>to_be_bytes\<close>, \<open>to_le_bytes\<close>, \<open>from_be_bytes\<close>) with their round trip and the fact that
  big-endian bytes compare as the numbers do.
\<close>

type_synonym u8 = "8 word"
type_synonym u32 = "32 word"
type_synonym u64 = "64 word"
type_synonym i64 = "64 word"
type_synonym i32 = int
type_synonym bytes = "u8 list"

named_theorems lex_simps \<open>comparison of byte strings with a common prefix or a common length\<close>
named_theorems bind_simps \<open>evaluation and inversion of result binds\<close>

section \<open>Results\<close>

definition rbind :: "'e + 'a \<Rightarrow> ('a \<Rightarrow> 'e + 'b) \<Rightarrow> 'e + 'b" where
  "rbind r f = (case r of Inl e \<Rightarrow> Inl e | Inr x \<Rightarrow> f x)"

lemma rbind_Inl [simp, bind_simps]: "rbind (Inl e) f = Inl e"
  by (simp add: rbind_def)

lemma rbind_Inr [simp, bind_simps]: "rbind (Inr x) f = f x"
  by (simp add: rbind_def)

lemma rbind_eq_Inr [bind_simps]: "rbind r f = Inr y \<longleftrightarrow> (\<exists>x. r = Inr x \<and> f x = Inr y)"
  by (cases r) simp_all

lemma rbind_eq_Inl [bind_simps]:
  "rbind r f = Inl e \<longleftrightarrow> r = Inl e \<or> (\<exists>x. r = Inr x \<and> f x = Inl e)"
  by (cases r) simp_all

lemma rbind_assoc: "rbind (rbind r f) g = rbind r (\<lambda>x. rbind (f x) g)"
  by (cases r) simp_all

definition ok_or :: "'e \<Rightarrow> 'a option \<Rightarrow> 'e + 'a" where
  "ok_or e v = (case v of None \<Rightarrow> Inl e | Some x \<Rightarrow> Inr x)"

lemma ok_or_simps [simp]: "ok_or e None = Inl e" "ok_or e (Some x) = Inr x"
  by (simp_all add: ok_or_def)

lemma ok_or_eq_Inr [bind_simps]: "ok_or e v = Inr x \<longleftrightarrow> v = Some x"
  by (cases v) simp_all

section \<open>Lexicographic comparison\<close>

lemma append_less_append [lex_simps]:
  "(xs @ ys :: 'a :: linorder list) < xs @ zs \<longleftrightarrow> ys < zs"
  by (induction xs) simp_all

lemma append_le_append [lex_simps]:
  "(xs @ ys :: 'a :: linorder list) \<le> xs @ zs \<longleftrightarrow> ys \<le> zs"
  by (induction xs) simp_all

lemma append_le_self [simp]: "(xs @ ys :: 'a :: linorder list) \<le> xs \<longleftrightarrow> ys = []"
  using append_le_append [of xs ys "[]"] by simp

lemma same_length_less_append [lex_simps]:
  "length a = length b \<Longrightarrow>
    ((a :: 'a :: linorder list) @ x < b @ y) = (a < b \<or> a = b \<and> x < y)"
  by (induction a b rule: list_induct2) auto

lemma prefix_imp_le: "prefix p (s :: 'a :: linorder list) \<Longrightarrow> p \<le> s"
  by (auto simp: prefix_def append_le_append [of p "[]", simplified])

lemma le_append [simp]: "(xs :: 'a :: linorder list) \<le> xs @ ys"
  by (rule prefix_imp_le) simp

lemma take_le_take: "(xs :: 'a :: linorder list) \<le> ys \<Longrightarrow> take n xs \<le> take n ys"
proof (induction n arbitrary: xs ys)
  case (Suc n)
  then show ?case by (cases xs; cases ys) auto
qed simp

lemma takeWhile_eq_filter:
  "sorted_wrt (\<lambda>x y. P y \<longrightarrow> P x) xs \<Longrightarrow> takeWhile P xs = filter P xs"
proof (induction xs)
  case (Cons x xs)
  show ?case
  proof (cases "P x")
    case False
    with Cons.prems have "filter P xs = []" by (auto simp: filter_empty_conv)
    with False show ?thesis by simp
  qed (use Cons in simp)
qed simp

section \<open>Fixed-width integers as bytes\<close>

fun be_of :: "nat \<Rightarrow> nat \<Rightarrow> bytes" where
  "be_of 0 n = []"
| "be_of (Suc k) n = word_of_nat (n div 256 ^ k) # be_of k (n mod 256 ^ k)"

fun of_be :: "bytes \<Rightarrow> nat" where
  "of_be [] = 0"
| "of_be (b # bs) = unat b * 256 ^ length bs + of_be bs"

definition to_be_bytes :: "u64 \<Rightarrow> bytes" where
  "to_be_bytes w = be_of 8 (unat w)"

definition to_le_bytes :: "u64 \<Rightarrow> bytes" where
  "to_le_bytes w = rev (to_be_bytes w)"

definition from_be_bytes :: "bytes \<Rightarrow> u64" where
  "from_be_bytes bs = word_of_nat (of_be bs)"

lemma length_be_of [simp]: "length (be_of k n) = k"
  by (induction k arbitrary: n) simp_all

lemma length_to_be_bytes [simp]: "length (to_be_bytes w) = 8"
  by (simp add: to_be_bytes_def)

lemma length_to_le_bytes [simp]: "length (to_le_bytes w) = 8"
  by (simp add: to_le_bytes_def)

lemma unat_u8_of_nat: "n < 256 \<Longrightarrow> unat (word_of_nat n :: u8) = n"
  by (simp add: unat_of_nat)

lemma div_256_less: "n < 256 ^ Suc k \<Longrightarrow> n div 256 ^ k < (256 :: nat)"
  by (simp add: less_mult_imp_div_less)

lemma of_be_be_of: "n < 256 ^ k \<Longrightarrow> of_be (be_of k n) = n"
proof (induction k arbitrary: n)
  case 0
  then show ?case by simp
next
  case (Suc k)
  have "n div 256 ^ k < 256"
    using Suc.prems by (rule div_256_less)
  moreover have "of_be (be_of k (n mod 256 ^ k)) = n mod 256 ^ k"
    by (rule Suc.IH) simp
  ultimately show ?case
    using div_mult_mod_eq [of n "256 ^ k"] by (simp add: unat_u8_of_nat)
qed

lemma be_of_less:
  "m < 256 ^ k \<Longrightarrow> n < 256 ^ k \<Longrightarrow> be_of k m < be_of k n \<longleftrightarrow> m < n"
proof (induction k arbitrary: m n)
  case 0
  then show ?case by simp
next
  case (Suc k)
  let ?q = "256 ^ k :: nat"
  have b: "m div ?q < 256" "n div ?q < 256"
    using Suc.prems by (auto intro: div_256_less)
  have IH: "be_of k (m mod ?q) < be_of k (n mod ?q) \<longleftrightarrow> m mod ?q < n mod ?q"
    by (rule Suc.IH) simp_all
  have lt: "(word_of_nat (m div ?q) :: u8) < word_of_nat (n div ?q) \<longleftrightarrow> m div ?q < n div ?q"
    using b by (simp add: word_less_nat_alt unat_u8_of_nat)
  have eq: "(word_of_nat (m div ?q) :: u8) = word_of_nat (n div ?q) \<longleftrightarrow> m div ?q = n div ?q"
    using b by (metis unat_u8_of_nat)
  have "m < n \<longleftrightarrow> m div ?q < n div ?q \<or> m div ?q = n div ?q \<and> m mod ?q < n mod ?q"
  proof -
    have "m = m div ?q * ?q + m mod ?q" "n = n div ?q * ?q + n mod ?q"
      using div_mult_mod_eq [of m ?q] div_mult_mod_eq [of n ?q] by simp_all
    moreover have "m div ?q \<le> n div ?q" if "m < n"
      using that by (simp add: div_le_mono)
    moreover have "m < n" if "m div ?q < n div ?q"
      using that by (metis div_le_mono leD leI)
    ultimately show ?thesis
      by (metis le_neq_implies_less nat_add_left_cancel_less)
  qed
  with IH lt eq show ?case by simp
qed

lemma unat_u64_less: "unat (w :: u64) < 256 ^ 8"
  using unsigned_less [of w, where ?'a = nat] by simp

lemma from_be_to_be_bytes [simp]: "from_be_bytes (to_be_bytes w) = w"
  by (simp add: from_be_bytes_def to_be_bytes_def of_be_be_of [OF unat_u64_less])

lemma to_be_bytes_less [lex_simps]: "to_be_bytes a < to_be_bytes b \<longleftrightarrow> a < b"
  by (simp add: to_be_bytes_def be_of_less [OF unat_u64_less unat_u64_less] word_less_nat_alt)

lemma to_be_bytes_inject [simp]: "to_be_bytes a = to_be_bytes b \<longleftrightarrow> a = b"
  by (metis from_be_to_be_bytes)

lemma to_le_bytes_inject [simp]: "to_le_bytes a = to_le_bytes b \<longleftrightarrow> a = b"
  by (simp add: to_le_bytes_def)

end
