(* ===== verification/Api.thy ===== *)
theory Api
  imports Prelude
begin

text \<open>
  The data model: the messages of \<open>src/api/sekas/server/v1/*.proto\<close> and
  \<open>src/server/proto/v1/metadata.proto\<close> that the modelled code handles, the helpers of
  \<open>src/api/src\<close> and \<open>src/server/src/serverpb.rs\<close> on them, and the server's error type
  (\<open>src/server/src/error.rs\<close>).

  Protobuf enums travel as \<open>i32\<close>; a field of such a type is an \<^typ>\<open>i32\<close> here and
  \<open>from_i32\<close> of the generated code is the partial reading of it. An absent message is
  \<^const>\<open>None\<close>.
\<close>

section \<open>Descriptors\<close>

record range_partition =
  rp_start :: bytes
  rp_end :: bytes

record shard_desc =
  sd_id :: u64
  sd_table_id :: u64
  sd_range :: "range_partition option"

datatype replica_role = Voter | Learner | IncomingVoter | DemotingVoter

fun replica_role_i32 :: "replica_role \<Rightarrow> i32" where
  "replica_role_i32 Voter = 0"
| "replica_role_i32 Learner = 1"
| "replica_role_i32 IncomingVoter = 2"
| "replica_role_i32 DemotingVoter = 3"

definition replica_role_from_i32 :: "i32 \<Rightarrow> replica_role option" where
  "replica_role_from_i32 n =
     (if n = 0 then Some Voter else if n = 1 then Some Learner
      else if n = 2 then Some IncomingVoter else if n = 3 then Some DemotingVoter else None)"

record replica_desc =
  rd_id :: u64
  rd_node_id :: u64
  rd_role :: i32

record group_desc =
  gd_id :: u64
  gd_epoch :: u64
  gd_shards :: "shard_desc list"
  gd_replicas :: "replica_desc list"

datatype raft_role = Follower | Candidate | Leader | PreCandidate

fun raft_role_i32 :: "raft_role \<Rightarrow> i32" where
  "raft_role_i32 Follower = 0"
| "raft_role_i32 Candidate = 1"
| "raft_role_i32 Leader = 2"
| "raft_role_i32 PreCandidate = 3"

record replica_state =
  rs_replica_id :: u64
  rs_group_id :: u64
  rs_term :: u64
  rs_voted_for :: u64
  rs_role :: i32
  rs_node_id :: u64

record move_shard_desc =
  msd_shard_desc :: "shard_desc option"
  msd_src_group_id :: u64
  msd_src_group_epoch :: u64
  msd_dest_group_id :: u64
  msd_dest_group_epoch :: u64

record schedule_state =
  ss_group_id :: u64
  ss_epoch :: u64
  ss_incoming_replicas :: "replica_desc list"
  ss_outgoing_replicas :: "replica_desc list"

section \<open>Values, writes and transactions\<close>

record shard_key =
  sk_shard_id :: u64
  sk_user_key :: bytes

record kv_value =
  v_content :: "bytes option"
  v_version :: u64

record value_set =
  vs_user_key :: bytes
  vs_values :: "kv_value list"

definition value_tombstone :: "u64 \<Rightarrow> kv_value" where
  "value_tombstone version = \<lparr>v_content = None, v_version = version\<rparr>"

definition value_with_value :: "bytes \<Rightarrow> u64 \<Rightarrow> kv_value" where
  "value_with_value content version = \<lparr>v_content = Some content, v_version = version\<rparr>"

datatype put_type = PutNone | AddI64 | Nop

definition put_type_from_i32 :: "i32 \<Rightarrow> put_type option" where
  "put_type_from_i32 n =
     (if n = 0 then Some PutNone else if n = 1 then Some AddI64
      else if n = 2 then Some Nop else None)"

fun put_type_i32 :: "put_type \<Rightarrow> i32" where
  "put_type_i32 PutNone = 0"
| "put_type_i32 AddI64 = 1"
| "put_type_i32 Nop = 2"

datatype write_condition_type =
    ExpectExists | ExpectNotExists | ExpectValue
  | ExpectVersion | ExpectVersionLt | ExpectVersionLe | ExpectVersionGt | ExpectVersionGe
  | ExpectStartsWith | ExpectEndsWith | ExpectSlice | ExpectContains

definition write_condition_type_from_i32 :: "i32 \<Rightarrow> write_condition_type option" where
  "write_condition_type_from_i32 n =
     (if 0 \<le> n \<and> n \<le> 11
      then Some ([ExpectExists, ExpectNotExists, ExpectValue, ExpectVersion, ExpectVersionLt,
                  ExpectVersionLe, ExpectVersionGt, ExpectVersionGe, ExpectStartsWith,
                  ExpectEndsWith, ExpectSlice, ExpectContains] ! nat n)
      else None)"

record write_condition =
  wc_type :: i32
  wc_value :: bytes
  wc_version :: u64
  wc_begin :: u64

record put_request =
  put_put_type :: i32
  put_key :: bytes
  put_value :: bytes
  put_ttl :: u64
  put_conditions :: "write_condition list"
  put_take_prev_value :: bool

record delete_request =
  del_key :: bytes
  del_conditions :: "write_condition list"
  del_take_prev_value :: bool

record write_response =
  wr_prev_value :: "kv_value option"

datatype write_request = Delete delete_request | Put put_request

fun user_key :: "write_request \<Rightarrow> bytes" where
  "user_key (Put put) = put_key put"
| "user_key (Delete del) = del_key del"

datatype txn_state = Running | Aborted | Committed

record txn_intent =
  ti_start_version :: u64
  ti_is_delete :: bool
  ti_value :: "bytes option"

definition intent_tombstone :: "u64 \<Rightarrow> txn_intent" where
  "intent_tombstone start_version =
     \<lparr>ti_start_version = start_version, ti_is_delete = True, ti_value = None\<rparr>"

definition intent_with_put :: "u64 \<Rightarrow> bytes option \<Rightarrow> txn_intent" where
  "intent_with_put start_version v =
     \<lparr>ti_start_version = start_version, ti_is_delete = False, ti_value = v\<rparr>"

section \<open>Errors\<close>

record forward_ctx =
  fc_shard_id :: u64
  fc_dest_group_id :: u64
  fc_payloads :: "value_set list"

datatype busy_reason =
    Transfering | Moving | AclGuard | PendingConfigChange | RequestChannelFulled | ProposalDropped

text \<open>
  The variants of \<open>Error\<close> that the modelled code produces or inspects. Messages keep their fixed
  text without the interpolated values, and an error of a third-party crate carries an opaque
  text. \<open>Panic\<close> stands for an abort of the thread (\<open>panic!\<close>, \<open>todo!\<close>, \<open>assert!\<close>, \<open>unwrap\<close> or
  \<open>expect\<close> of a missing value, a slice index out of range).
\<close>

datatype error =
    InvalidArgument string
  | CasFailed u64 u64 "kv_value option"
  | ShardNotFound u64
  | InvalidData string
  | RaftStore string
  | RaftEngine string
  | RocksDb string
  | DecodeError string
  | GroupNotReady u64
  | ServiceIsBusy busy_reason
  | Forward forward_ctx
  | EpochNotMatch group_desc
  | GroupNotFound u64
  | NotLeader u64 u64 "replica_desc option"
  | AbortScheduleTask string
  | TxnConflict
  | Panic string

type_synonym 'a result = "error + 'a"

section \<open>Epochs\<close>

definition SHARD_UPDATE_DELTA :: u64 where
  "SHARD_UPDATE_DELTA = push_bit 32 1"

definition CONFIG_CHANGE_DELTA :: u64 where
  "CONFIG_CHANGE_DELTA = 1"

definition shard_epoch :: "u64 \<Rightarrow> u32" where
  "shard_epoch e = ucast (drop_bit 32 e)"

definition config_epoch :: "u64 \<Rightarrow> u32" where
  "config_epoch e = ucast e"

definition apply_config_delta :: "u64 \<Rightarrow> u64" where
  "apply_config_delta epoch = epoch + CONFIG_CHANGE_DELTA"

definition apply_shard_delta :: "u64 \<Rightarrow> u64" where
  "apply_shard_delta epoch = epoch + SHARD_UPDATE_DELTA"

section \<open>Helpers on descriptors\<close>

definition shard_whole :: "u64 \<Rightarrow> u64 \<Rightarrow> shard_desc" where
  "shard_whole shard_id table_id =
     \<lparr>sd_id = shard_id, sd_table_id = table_id,
      sd_range = Some \<lparr>rp_start = [], rp_end = []\<rparr>\<rparr>"

definition shard_with_range :: "u64 \<Rightarrow> u64 \<Rightarrow> bytes \<Rightarrow> bytes \<Rightarrow> shard_desc" where
  "shard_with_range shard_id table_id start stop =
     \<lparr>sd_id = shard_id, sd_table_id = table_id,
      sd_range = Some \<lparr>rp_start = start, rp_end = stop\<rparr>\<rparr>"

definition group_shard :: "group_desc \<Rightarrow> u64 \<Rightarrow> shard_desc option" where
  "group_shard gd shard_id = find (\<lambda>shard. sd_id shard = shard_id) (gd_shards gd)"

definition drop_shard :: "group_desc \<Rightarrow> u64 \<Rightarrow> group_desc" where
  "drop_shard gd shard_id =
     gd\<lparr>gd_shards := filter (\<lambda>shard. sd_id shard \<noteq> shard_id) (gd_shards gd)\<rparr>"

text \<open>
  \<open>shard_mut\<close> hands out a reference to the first shard of that id; the assignment through it is
  an update of that element.
\<close>

fun update_first :: "('a \<Rightarrow> bool) \<Rightarrow> ('a \<Rightarrow> 'a) \<Rightarrow> 'a list \<Rightarrow> 'a list" where
  "update_first p f [] = []"
| "update_first p f (x # xs) = (if p x then f x # xs else x # update_first p f xs)"

definition shard_mut :: "group_desc \<Rightarrow> u64 \<Rightarrow> (shard_desc \<Rightarrow> shard_desc) \<Rightarrow> group_desc" where
  "shard_mut gd shard_id f =
     gd\<lparr>gd_shards := update_first (\<lambda>shard. sd_id shard = shard_id) f (gd_shards gd)\<rparr>"

definition get_shard_desc :: "move_shard_desc \<Rightarrow> shard_desc result" where
  "get_shard_desc d =
     ok_or (Panic ''MoveShardDesc::shard_desc is not None'') (msd_shard_desc d)"

definition get_shard_id :: "move_shard_desc \<Rightarrow> u64 result" where
  "get_shard_id d = rbind (get_shard_desc d) (\<lambda>s. Inr (sd_id s))"

section \<open>The replicated operations\<close>

datatype move_shard_step = Prepare | StepMoving | Moved | Finished | StepAborted

fun move_shard_step_i32 :: "move_shard_step \<Rightarrow> i32" where
  "move_shard_step_i32 Prepare = 0"
| "move_shard_step_i32 StepMoving = 1"
| "move_shard_step_i32 Moved = 2"
| "move_shard_step_i32 Finished = 3"
| "move_shard_step_i32 StepAborted = 4"

record move_shard_state =
  mss_move_shard :: "move_shard_desc option"
  mss_last_moved_key :: "bytes option"
  mss_step :: i32

definition get_move_shard_desc :: "move_shard_state \<Rightarrow> move_shard_desc result" where
  "get_move_shard_desc m =
     ok_or (Panic ''MoveShardState::move_shard is not None'') (mss_move_shard m)"

definition state_shard_desc :: "move_shard_state \<Rightarrow> shard_desc result" where
  "state_shard_desc m = rbind (get_move_shard_desc m) get_shard_desc"

definition state_shard_id :: "move_shard_state \<Rightarrow> u64 result" where
  "state_shard_id m = rbind (state_shard_desc m) (\<lambda>s. Inr (sd_id s))"

datatype move_shard_event = Setup | Ingest | Commit | Abort | Apply

fun move_shard_event_i32 :: "move_shard_event \<Rightarrow> i32" where
  "move_shard_event_i32 Setup = 0"
| "move_shard_event_i32 Ingest = 1"
| "move_shard_event_i32 Commit = 2"
| "move_shard_event_i32 Abort = 3"
| "move_shard_event_i32 Apply = 4"

definition move_shard_event_from_i32 :: "i32 \<Rightarrow> move_shard_event option" where
  "move_shard_event_from_i32 n =
     (if n = 0 then Some Setup else if n = 1 then Some Ingest else if n = 2 then Some Commit
      else if n = 3 then Some Abort else if n = 4 then Some Apply else None)"

record entry_id =
  ei_index :: u64
  ei_term :: u64

type_synonym apply_state = entry_id

record move_shard =
  ms_event :: i32
  ms_desc :: "move_shard_desc option"
  ms_last_ingested_key :: bytes

record split_shard =
  sps_old_shard_id :: u64
  sps_new_shard_id :: u64
  sps_split_key :: bytes

record merge_shard =
  mgs_left_shard_id :: u64
  mgs_right_shard_id :: u64

text \<open>\<open>add_shard\<close> is the message \<open>AddShard\<close>, whose only field is an optional descriptor.\<close>

record sync_op =
  so_add_shard :: "shard_desc option option"
  so_purge_replica :: "u64 option"
  so_move_shard :: "move_shard option"
  so_split_shard :: "split_shard option"
  so_merge_shard :: "merge_shard option"

definition sync_op_default :: sync_op where
  "sync_op_default =
     \<lparr>so_add_shard = None, so_purge_replica = None, so_move_shard = None,
      so_split_shard = None, so_merge_shard = None\<rparr>"

text \<open>
  A write batch is the sequence of its operations. \<open>EvalResult\<close> carries its serialised form
  (\<open>WriteBatch::data\<close>), which \<open>WriteBatch::new\<close> reads back; both are RocksDB's own
  representation of the sequence, so the model carries the sequence.
\<close>

datatype wb_op = WbPut bytes bytes | WbDelete bytes

type_synonym write_batch = "wb_op list"

record eval_result =
  er_batch :: "write_batch option"
  er_op :: "sync_op option"

definition with_batch :: "write_batch \<Rightarrow> eval_result" where
  "with_batch data = \<lparr>er_batch = Some data, er_op = None\<rparr>"

definition sync_op_add_shard :: "shard_desc \<Rightarrow> sync_op" where
  "sync_op_add_shard shard = sync_op_default\<lparr>so_add_shard := Some (Some shard)\<rparr>"

definition sync_op_purge_replica :: "u64 \<Rightarrow> sync_op" where
  "sync_op_purge_replica orphan_replica_id =
     sync_op_default\<lparr>so_purge_replica := Some orphan_replica_id\<rparr>"

definition sync_op_move_shard :: "move_shard_event \<Rightarrow> move_shard_desc \<Rightarrow> sync_op" where
  "sync_op_move_shard event desc =
     sync_op_default\<lparr>so_move_shard :=
       Some \<lparr>ms_event = move_shard_event_i32 event, ms_desc = Some desc,
             ms_last_ingested_key = []\<rparr>\<rparr>"

definition sync_op_ingest :: "bytes \<Rightarrow> sync_op" where
  "sync_op_ingest key =
     sync_op_default\<lparr>so_move_shard :=
       Some \<lparr>ms_event = move_shard_event_i32 Ingest, ms_desc = None,
             ms_last_ingested_key = key\<rparr>\<rparr>"

section \<open>Requests\<close>

record shard_get_request =
  sg_shard_id :: u64
  sg_start_version :: u64
  sg_user_key :: bytes

record shard_scan_request =
  sc_shard_id :: u64
  sc_start_version :: u64
  sc_limit :: u64
  sc_limit_bytes :: u64
  sc_exclude_start_key :: bool
  sc_exclude_end_key :: bool
  sc_prefix :: "bytes option"
  sc_start_key :: "bytes option"
  sc_end_key :: "bytes option"
  sc_include_raw_data :: bool
  sc_ignore_txn_intent :: bool
  sc_allow_scan_moving_shard :: bool

record shard_scan_response =
  sr_data :: "value_set list"
  sr_has_more :: bool

record shard_write_request =
  sw_shard_id :: u64
  sw_deletes :: "delete_request list"
  sw_puts :: "put_request list"

record shard_write_response =
  swr_deletes :: "write_response list"
  swr_puts :: "write_response list"

record watch_key_request =
  wk_shard_id :: u64
  wk_group_id :: u64
  wk_key :: bytes
  wk_version :: u64

record write_intent_request =
  wi_shard_id :: u64
  wi_start_version :: u64
  wi_write :: "write_request option"

record commit_intent_request =
  ci_shard_id :: u64
  ci_start_version :: u64
  ci_commit_version :: u64
  ci_user_key :: bytes

record clear_intent_request =
  cl_shard_id :: u64
  cl_start_version :: u64
  cl_user_key :: bytes

datatype change_replica_type = Add | Remove | AddLearner

fun change_replica_type_i32 :: "change_replica_type \<Rightarrow> i32" where
  "change_replica_type_i32 Add = 0"
| "change_replica_type_i32 Remove = 1"
| "change_replica_type_i32 AddLearner = 2"

definition change_replica_type_from_i32 :: "i32 \<Rightarrow> change_replica_type option" where
  "change_replica_type_from_i32 n =
     (if n = 0 then Some Add else if n = 1 then Some Remove
      else if n = 2 then Some AddLearner else None)"

record change_replica =
  cr_change_type :: i32
  cr_replica_id :: u64
  cr_node_id :: u64

type_synonym change_replicas = "change_replica list"

record accept_shard_request =
  as_src_group_id :: u64
  as_src_group_epoch :: u64
  as_shard_desc :: "shard_desc option"

record move_replicas_request =
  mr_incoming_voters :: "replica_desc list"
  mr_outgoing_voters :: "replica_desc list"

record split_shard_request =
  sq_old_shard_id :: u64
  sq_new_shard_id :: u64
  sq_split_key :: "bytes option"

record merge_shard_request =
  mq_left_shard_id :: u64
  mq_right_shard_id :: u64

datatype request =
    ReqGet shard_get_request
  | ReqScan shard_scan_request
  | ReqWrite shard_write_request
  | ReqWatchKey watch_key_request
  | ReqWriteIntent write_intent_request
  | ReqCommitIntent commit_intent_request
  | ReqClearIntent clear_intent_request
  | ReqCreateShard "shard_desc option"
  | ReqChangeReplicas "change_replicas option"
  | ReqAcceptShard accept_shard_request
  | ReqTransfer u64
  | ReqMoveReplicas move_replicas_request
  | ReqSplitShard split_shard_request
  | ReqMergeShard merge_shard_request

section \<open>Facts on the helpers\<close>

lemma map_update_first:
  "(\<And>x. p x \<Longrightarrow> g (f x) = g x) \<Longrightarrow> map g (update_first p f xs) = map g xs"
  by (induction xs) auto

lemma set_update_first_subset: "set (update_first p f xs) \<subseteq> set xs \<union> f ` set xs"
  by (induction xs) auto

lemma find_update_first:
  "(\<And>x. p x \<Longrightarrow> p (f x)) \<Longrightarrow> find p (update_first p f xs) = map_option f (find p xs)"
  by (induction xs) auto

lemma find_SomeD: "find p xs = Some x \<Longrightarrow> x \<in> set xs \<and> p x"
  by (metis find_Some_iff nth_mem)

lemma group_shard_SomeD:
  "group_shard gd i = Some s \<Longrightarrow> s \<in> set (gd_shards gd) \<and> sd_id s = i"
  unfolding group_shard_def by (rule find_SomeD)

lemma group_shard_unique:
  assumes "distinct (map sd_id (gd_shards gd))" "s \<in> set (gd_shards gd)"
  shows "group_shard gd (sd_id s) = Some s"
proof (cases "group_shard gd (sd_id s)")
  case None
  with assms show ?thesis
    by (auto simp: group_shard_def find_None_iff)
next
  case (Some t)
  with assms show ?thesis
    by (metis distinct_map group_shard_SomeD inj_onD)
qed

lemma drop_shard_simps [simp]:
  "gd_id (drop_shard gd i) = gd_id gd"
  "gd_epoch (drop_shard gd i) = gd_epoch gd"
  "gd_replicas (drop_shard gd i) = gd_replicas gd"
  "gd_shards (drop_shard gd i) = filter (\<lambda>s. sd_id s \<noteq> i) (gd_shards gd)"
  by (simp_all add: drop_shard_def)

lemma shard_mut_simps [simp]:
  "gd_id (shard_mut gd i f) = gd_id gd"
  "gd_epoch (shard_mut gd i f) = gd_epoch gd"
  "gd_replicas (shard_mut gd i f) = gd_replicas gd"
  "gd_shards (shard_mut gd i f) = update_first (\<lambda>s. sd_id s = i) f (gd_shards gd)"
  by (simp_all add: shard_mut_def)

lemma unat_u32_ucast: "unat (ucast (w :: u64) :: u32) = unat w mod 2 ^ 32"
  by (simp add: unsigned_ucast_eq take_bit_eq_mod)

lemma unat_drop_32: "unat (drop_bit 32 (w :: u64)) = unat w div 2 ^ 32"
  by (rule trans [OF unat_drop_bit_eq]) (simp add: drop_bit_eq_div)

lemma unat_apply_shard_delta:
  "unat (apply_shard_delta e) = (unat e + 2 ^ 32) mod (2 ^ 32 * 2 ^ 32)"
  by (simp add: apply_shard_delta_def SHARD_UPDATE_DELTA_def unat_word_ariths)

lemma add_mod_square:
  fixes a m :: nat
  assumes "0 < m"
  shows "(a + m) mod (m * m) mod m = a mod m"
    and "(a + m) mod (m * m) div m = (a div m + 1) mod m"
  using assms by (simp_all add: mod_mod_cancel mod_mult2_eq div_add_self2)

lemma apply_shard_delta_config: "config_epoch (apply_shard_delta e) = config_epoch e"
proof -
  have "unat (ucast (apply_shard_delta e) :: u32) = unat (ucast e :: u32)"
    unfolding unat_u32_ucast unat_apply_shard_delta by (rule add_mod_square(1)) simp
  then show ?thesis
    by (simp add: config_epoch_def word_unat_eq_iff)
qed

lemma apply_shard_delta_shard: "shard_epoch (apply_shard_delta e) = shard_epoch e + 1"
proof -
  have "unat (ucast (drop_bit 32 (apply_shard_delta e)) :: u32)
      = (unat e div 2 ^ 32 + 1) mod 2 ^ 32"
    unfolding unat_u32_ucast unat_apply_shard_delta unat_drop_32
    by (subst add_mod_square(2)) simp_all
  also have "\<dots> = unat (ucast (drop_bit 32 e) + 1 :: u32)"
    by (simp add: unat_word_ariths unat_u32_ucast unat_drop_32 mod_Suc_eq)
  finally show ?thesis
    by (simp add: shard_epoch_def word_unat_eq_iff)
qed

end
