(* ===== verification/Rock.thy ===== *)
theory Rock
  imports Prelude
begin

text \<open>
  The helper crate \<open>src/rock\<close>: boundaries in the lexicographic key space (\<open>lexical.rs\<close>) and the
  decoding of fixed-width integers (\<open>num.rs\<close>).
\<close>

definition lexical_next_boundary :: "bytes \<Rightarrow> bytes" where
  "lexical_next_boundary bs =
     (let r = rev (dropWhile (\<lambda>last. last = 0xFF) (rev bs))
      in if r = [] then r else butlast r @ [last r + 1])"

definition lexical_next :: "bytes \<Rightarrow> bytes" where
  "lexical_next bs = bs @ [0]"

definition decode_u64 :: "bytes \<Rightarrow> u64 option" where
  "decode_u64 bs = (if length bs \<noteq> 8 then None else Some (from_be_bytes bs))"

definition decode_i64 :: "bytes \<Rightarrow> i64 option" where
  "decode_i64 bs = (if length bs \<noteq> 8 then None else Some (from_be_bytes bs))"

lemma decode_i64_to_be_bytes [simp]: "decode_i64 (to_be_bytes w) = Some w"
  by (simp add: decode_i64_def)

lemma decode_u64_to_be_bytes [simp]: "decode_u64 (to_be_bytes w) = Some w"
  by (simp add: decode_u64_def)

lemma u8_max: "(b :: u8) \<le> 255"
  using unsigned_less [of b, where ?'a = nat] by (simp add: word_le_nat_alt)

lemma u8_succ_le: "(c :: u8) \<noteq> 255 \<Longrightarrow> x < c + 1 \<longleftrightarrow> x \<le> c"
proof -
  assume "c \<noteq> 255"
  then have "c < 255"
    using u8_max [of c] by simp
  then have "unat c < 255"
    by (simp add: word_less_nat_alt)
  then have "unat (c + 1) = unat c + 1"
    by (simp add: unat_word_ariths)
  then show ?thesis
    by (simp add: word_less_nat_alt word_le_nat_alt less_Suc_eq_le)
qed

lemma trailing_ff:
  assumes "\<exists>b\<in>set p. b \<noteq> (255 :: u8)"
  obtains q c n where "p = q @ c # replicate n 255" "c \<noteq> 255"
    "lexical_next_boundary p = q @ [c + 1]"
proof -
  let ?ff = "\<lambda>b. b = (255 :: u8)"
  have ne: "dropWhile ?ff (rev p) \<noteq> []"
    using assms by (simp add: dropWhile_eq_Nil_conv)
  then obtain c r where cr: "dropWhile ?ff (rev p) = c # r"
    by (cases "dropWhile ?ff (rev p)") auto
  have c: "c \<noteq> 255"
    using hd_dropWhile [OF ne] cr by simp
  let ?n = "length (takeWhile ?ff (rev p))"
  have "takeWhile ?ff (rev p) = replicate ?n 255"
    by (rule replicate_length_same [symmetric]) (auto dest: set_takeWhileD)
  then have "rev p = replicate ?n 255 @ c # r"
    using cr takeWhile_dropWhile_id [of ?ff "rev p"] by simp
  then have "rev (rev p) = rev (replicate ?n 255 @ c # r)"
    by (rule arg_cong)
  then have "p = rev r @ c # replicate ?n 255"
    by simp
  moreover have "lexical_next_boundary p = rev r @ [c + 1]"
    using cr by (simp add: lexical_next_boundary_def Let_def)
  ultimately show ?thesis
    using that c by blast
qed

lemma replicate_ff_le: "replicate n (255 :: u8) \<le> s \<longleftrightarrow> prefix (replicate n 255) s"
proof (induction n arbitrary: s)
  case 0
  then show ?case by simp
next
  case (Suc n)
  show ?case
  proof (cases s)
    case Nil
    then show ?thesis by simp
  next
    case (Cons b t)
    have "\<not> 255 < b"
      using u8_max [of b] by (simp add: not_less)
    with Cons Suc.IH show ?thesis
      by (auto simp: eq_commute)
  qed
qed

lemma less_snoc_iff:
  "(s :: bytes) < q @ [d] \<longleftrightarrow> s < q \<or> (\<exists>t. s = q @ t \<and> (t = [] \<or> hd t < d))"
proof (induction q arbitrary: s)
  case Nil
  then show ?case by (cases s) auto
next
  case (Cons a q)
  show ?case
  proof (cases s)
    case Nil
    then show ?thesis by simp
  next
    case (Cons b t)
    with Cons.IH show ?thesis by auto
  qed
qed

text \<open>The boundary of a prefix is the least upper bound of the keys that carry it.\<close>

lemma lexical_next_boundary_prefix:
  assumes "\<exists>b\<in>set p. b \<noteq> 255"
  shows "p \<le> s \<and> s < lexical_next_boundary p \<longleftrightarrow> prefix p s"
proof -
  obtain q c n where p: "p = q @ c # replicate n 255" and c: "c \<noteq> 255"
    and nb: "lexical_next_boundary p = q @ [c + 1]"
    using trailing_ff [OF assms] by blast
  have "p \<le> s \<and> s < q @ [c + 1] \<longleftrightarrow>
      (\<exists>t. s = q @ t \<and> c # replicate n 255 \<le> t \<and> (t = [] \<or> hd t \<le> c))"
  proof -
    have "q \<le> s" if "p \<le> s"
      using that p le_append [of q] order_trans by blast
    then show ?thesis
      by (auto simp: less_snoc_iff u8_succ_le [OF c] p lex_simps)
  qed
  also have "\<dots> \<longleftrightarrow> (\<exists>t. s = q @ c # t \<and> replicate n 255 \<le> t)"
  proof -
    have "c # replicate n 255 \<le> t \<and> (t = [] \<or> hd t \<le> c) \<longleftrightarrow>
        (\<exists>t'. t = c # t' \<and> replicate n 255 \<le> t')" for t
      by (cases t) auto
    then show ?thesis by blast
  qed
  also have "\<dots> \<longleftrightarrow> prefix p s"
    by (auto simp: replicate_ff_le p prefix_def)
  finally show ?thesis
    by (simp add: nb)
qed

lemma lexical_next_succ: "s < t \<longleftrightarrow> lexical_next s \<le> t"
proof (induction s arbitrary: t)
  case Nil
  then show ?case
    by (cases t) (auto simp: lexical_next_def less_le)
next
  case (Cons b s)
  then show ?case
    by (cases t) (auto simp: lexical_next_def)
qed

end
