(* ===== verification/Schema.thy ===== *)
theory Schema
  imports Api Rock
begin

text \<open>
  The crate \<open>src/schema\<close>: the range a shard serves (\<open>shard.rs\<close>), the keys of a transaction
  record (\<open>system/keys.rs\<close>), the reserved versions (\<open>system/txn.rs\<close>) and the built-in tables and
  groups (\<open>system.rs\<close>, \<open>system/table.rs\<close>). The FNV hasher of \<open>hash_tag\<close> belongs to the \<open>fnv\<close>
  crate and is a parameter.
\<close>

section \<open>Constants\<close>

definition LOCAL_TABLE_ID :: u64 where "LOCAL_TABLE_ID = 0"
definition FIRST_USER_TABLE_ID :: u64 where "FIRST_USER_TABLE_ID = 1024"
definition FIRST_TXN_SHARD_ID :: u64 where "FIRST_TXN_SHARD_ID = 256"
definition FIRST_USER_SHARD_ID :: u64 where "FIRST_USER_SHARD_ID = 1024"
definition ROOT_GROUP_ID :: u64 where "ROOT_GROUP_ID = 0"
definition FIRST_GROUP_ID :: u64 where "FIRST_GROUP_ID = ROOT_GROUP_ID + 1"
definition STATE_REPLICA_ID :: u64 where "STATE_REPLICA_ID = 0"
definition FIRST_REPLICA_ID :: u64 where "FIRST_REPLICA_ID = 1"
definition INIT_USER_REPLICA_ID :: u64 where "INIT_USER_REPLICA_ID = FIRST_REPLICA_ID + 1"
definition FIRST_NODE_ID :: u64 where "FIRST_NODE_ID = 0"
definition INITIAL_EPOCH :: u64 where "INITIAL_EPOCH = 1"
definition INITIAL_JOB_ID :: u64 where "INITIAL_JOB_ID = 0"

definition TXN_INTENT_VERSION :: u64 where "TXN_INTENT_VERSION = - 1"
definition TXN_MAX_VERSION :: u64 where "TXN_MAX_VERSION = - 2"

section \<open>Shard ranges\<close>

definition SHARD_MIN :: bytes where "SHARD_MIN = []"
definition SHARD_MAX :: bytes where "SHARD_MAX = []"

definition in_range :: "bytes \<Rightarrow> bytes \<Rightarrow> bytes \<Rightarrow> bool" where
  "in_range start stop use_key \<longleftrightarrow> start \<le> use_key \<and> (use_key < stop \<or> stop = [])"

definition belong_to :: "shard_desc \<Rightarrow> bytes \<Rightarrow> bool" where
  "belong_to shard uk =
     (case sd_range shard of None \<Rightarrow> False | Some r \<Rightarrow> in_range (rp_start r) (rp_end r) uk)"

definition start_key :: "shard_desc \<Rightarrow> bytes" where
  "start_key shard = (case sd_range shard of None \<Rightarrow> [] | Some r \<Rightarrow> rp_start r)"

definition end_key :: "shard_desc \<Rightarrow> bytes" where
  "end_key shard = (case sd_range shard of None \<Rightarrow> [] | Some r \<Rightarrow> rp_end r)"

section \<open>Keys of a transaction record\<close>

definition ascii :: "string \<Rightarrow> bytes" where
  "ascii s = map of_char s"

definition TXN_PREFIX :: bytes where "TXN_PREFIX = ascii ''txn_''"
definition TXN_SUFFIX_STATE :: bytes where "TXN_SUFFIX_STATE = ascii ''state''"
definition TXN_SUFFIX_HEARTBEAT :: bytes where "TXN_SUFFIX_HEARTBEAT = ascii ''hb''"
definition TXN_SUFFIX_COMMIT :: bytes where "TXN_SUFFIX_COMMIT = ascii ''commit''"

definition txn_lower_key :: "u8 \<Rightarrow> bytes" where
  "txn_lower_key tag = TXN_PREFIX @ [tag]"

definition txn_prefix :: "u8 \<Rightarrow> u64 \<Rightarrow> bytes" where
  "txn_prefix tag txn_id = txn_lower_key tag @ to_be_bytes txn_id"

definition txn_state_key :: "u8 \<Rightarrow> u64 \<Rightarrow> bytes" where
  "txn_state_key tag txn_id = txn_prefix tag txn_id @ TXN_SUFFIX_STATE"

definition txn_heartbeat_key :: "u8 \<Rightarrow> u64 \<Rightarrow> bytes" where
  "txn_heartbeat_key tag txn_id = txn_prefix tag txn_id @ TXN_SUFFIX_HEARTBEAT"

definition txn_commit_key :: "u8 \<Rightarrow> u64 \<Rightarrow> bytes" where
  "txn_commit_key tag txn_id = txn_prefix tag txn_id @ TXN_SUFFIX_COMMIT"

definition hash_tag :: "(bytes \<Rightarrow> u64) \<Rightarrow> u64 \<Rightarrow> u8" where
  "hash_tag fnv txn_id = ucast (fnv (to_le_bytes txn_id))"

section \<open>The built-in tables and groups\<close>

record table_desc =
  td_id :: u64
  td_name :: string
  td_db :: u64
  td_properties :: "string \<rightharpoonup> string"

definition system_db_id :: u64 where "system_db_id = 1"

definition default_system_properties :: "string \<rightharpoonup> string" where
  "default_system_properties =
     [''replicas_per_group'' \<mapsto> ''1'', ''replication'' \<mapsto> ''majority'',
      ''table_type'' \<mapsto> ''system'']"

definition default_user_properties :: "string \<rightharpoonup> string" where
  "default_user_properties =
     [''replicas_per_group'' \<mapsto> ''1'', ''replication'' \<mapsto> ''majority'',
      ''table_type'' \<mapsto> ''user'']"

text \<open>One line per use of \<open>decl_unity_range_table!\<close>: the name and the id of the table.\<close>

definition system_tables :: "(string \<times> u64) list" where
  "system_tables =
     [(''database'', 1), (''table'', 2), (''meta'', 3), (''node'', 4), (''group'', 5),
      (''replica_state'', 6), (''job'', 7), (''job_history'', 8), (''txn'', FIRST_TXN_SHARD_ID)]"

definition END_UNITY_TABLE_ID :: u64 where "END_UNITY_TABLE_ID = 100"

definition unity_table_desc :: "string \<times> u64 \<Rightarrow> table_desc" where
  "unity_table_desc t =
     \<lparr>td_id = snd t, td_name = fst t, td_db = system_db_id,
      td_properties = default_system_properties\<rparr>"

definition unity_shard_desc :: "string \<times> u64 \<Rightarrow> shard_desc" where
  "unity_shard_desc t =
     \<lparr>sd_id = snd t, sd_table_id = snd t,
      sd_range = Some \<lparr>rp_start = SHARD_MIN, rp_end = SHARD_MAX\<rparr>\<rparr>"

definition unity_table_shards :: "shard_desc list" where
  "unity_table_shards = map unity_shard_desc system_tables"

definition tables :: "table_desc list" where
  "tables = map unity_table_desc system_tables"

definition is_unity_table :: "u64 \<Rightarrow> bool" where
  "is_unity_table table_id \<longleftrightarrow> LOCAL_TABLE_ID < table_id \<and> table_id < END_UNITY_TABLE_ID"

definition unity_shard_id :: "u64 \<Rightarrow> u64 result" where
  "unity_shard_id table_id =
     (if is_unity_table table_id then Inr table_id else Inl (Panic ''is_unity_table''))"

definition root_group :: group_desc where
  "root_group =
     \<lparr>gd_id = ROOT_GROUP_ID, gd_epoch = INITIAL_EPOCH, gd_shards = unity_table_shards,
      gd_replicas = [\<lparr>rd_id = FIRST_REPLICA_ID, rd_node_id = FIRST_NODE_ID,
                      rd_role = replica_role_i32 Voter\<rparr>]\<rparr>"

definition init_group :: group_desc where
  "init_group =
     \<lparr>gd_id = FIRST_GROUP_ID, gd_epoch = INITIAL_EPOCH, gd_shards = [],
      gd_replicas = [\<lparr>rd_id = INIT_USER_REPLICA_ID, rd_node_id = FIRST_NODE_ID,
                      rd_role = replica_role_i32 Voter\<rparr>]\<rparr>"

section \<open>Facts\<close>

lemma belong_to_whole [simp]: "belong_to (shard_whole i t) k"
  by (simp add: belong_to_def shard_whole_def in_range_def)

lemma belong_to_range [simp]: "belong_to (shard_with_range i t a b) k = in_range a b k"
  by (simp add: belong_to_def shard_with_range_def)

lemma in_range_split:
  assumes "in_range a b m" "m \<noteq> []"
  shows "in_range a b k \<longleftrightarrow> in_range a m k \<or> in_range m b k"
    and "\<not> (in_range a m k \<and> in_range m b k)"
  using assms by (auto simp: in_range_def)

lemma intent_version_max [simp]: "v \<le> TXN_INTENT_VERSION"
  unfolding TXN_INTENT_VERSION_def by (rule word_order.extremum)

lemma less_intent_version [simp]: "v < TXN_INTENT_VERSION \<longleftrightarrow> v \<noteq> TXN_INTENT_VERSION"
  using intent_version_max [of v] by (auto simp: order_less_le)

lemma intent_le_iff [simp]: "TXN_INTENT_VERSION \<le> v \<longleftrightarrow> v = TXN_INTENT_VERSION"
  using intent_version_max [of v] by (auto intro: antisym)

lemma length_txn_lower_key [simp]: "length (txn_lower_key tag) = 5"
  by (simp add: txn_lower_key_def TXN_PREFIX_def ascii_def)

lemma length_txn_prefix [simp]: "length (txn_prefix tag i) = 13"
  by (simp add: txn_prefix_def)

lemma txn_prefix_less:
  "txn_prefix tag i < txn_prefix tag' j \<longleftrightarrow> tag < tag' \<or> tag = tag' \<and> i < j"
  by (simp add: txn_prefix_def txn_lower_key_def lex_simps)

lemma txn_prefix_inject: "txn_prefix tag i = txn_prefix tag' j \<longleftrightarrow> tag = tag' \<and> i = j"
  by (simp add: txn_prefix_def txn_lower_key_def)

lemma txn_suffixes_distinct:
  "TXN_SUFFIX_STATE \<noteq> TXN_SUFFIX_HEARTBEAT" "TXN_SUFFIX_STATE \<noteq> TXN_SUFFIX_COMMIT"
  "TXN_SUFFIX_HEARTBEAT \<noteq> TXN_SUFFIX_COMMIT"
  by (simp_all add: TXN_SUFFIX_STATE_def TXN_SUFFIX_HEARTBEAT_def TXN_SUFFIX_COMMIT_def ascii_def)

text \<open>The three keys of a record are keys of that record only.\<close>

lemma txn_key_inject:
  assumes "s \<in> {TXN_SUFFIX_STATE, TXN_SUFFIX_HEARTBEAT, TXN_SUFFIX_COMMIT}"
    and "s' \<in> {TXN_SUFFIX_STATE, TXN_SUFFIX_HEARTBEAT, TXN_SUFFIX_COMMIT}"
  shows "txn_prefix tag i @ s = txn_prefix tag' j @ s' \<longleftrightarrow> tag = tag' \<and> i = j \<and> s = s'"
  by (simp add: append_eq_append_conv txn_prefix_inject)

lemma distinct_system_shards: "distinct (map sd_id unity_table_shards)"
  by (simp add: unity_table_shards_def unity_shard_desc_def system_tables_def
      FIRST_TXN_SHARD_ID_def)

lemma unity_shard_belongs: "s \<in> set unity_table_shards \<Longrightarrow> belong_to s k"
  by (auto simp: unity_table_shards_def unity_shard_desc_def belong_to_def in_range_def
      SHARD_MIN_def SHARD_MAX_def)

end
