(* ===== verification/Mvcc_Keys.thy ===== *)
theory Mvcc_Keys
  imports Schema
begin

unbundle bit_operations_syntax

text \<open>
  The representation of a multi-version row in RocksDB (\<open>src/server/src/engine/group.rs\<close>, modules
  \<open>keys\<close> and \<open>values\<close>, and \<open>MvccEntry\<close>).

  A row version is stored under the table id, the user key in a memcomparable format (groups of
  eight bytes, each followed by a length mark) and the complemented version. The lemmas show that
  the format can be read back and that the byte order of the encoded keys is the order of the user
  keys, newest version first.
\<close>

section \<open>Keys\<close>

function encode_groups :: "bytes \<Rightarrow> bytes" where
  "encode_groups key =
     (if key = [] then []
      else let chunk = take 8 key; rest = drop 8 key;
               group = chunk @ replicate (8 - length chunk) 0;
               size = length chunk;
               size = (if size = 8 \<and> rest \<noteq> [] then size + 1 else size)
           in group @ [48 + word_of_nat size] @ encode_groups rest)"
  by pat_completeness auto
termination
  by (relation "measure length") auto

declare encode_groups.simps [simp del]

definition mvcc_key_bytes :: "u64 \<Rightarrow> bytes \<Rightarrow> u64 \<Rightarrow> bytes" where
  "mvcc_key_bytes table_id key version =
     to_le_bytes table_id @ encode_groups key @ to_be_bytes (NOT version)"

text \<open>
  The buffer size \<open>(key.len() - 1) / 8 + 1\<close> underflows for an empty key, and the allocation of
  the resulting size aborts.
\<close>

definition mvcc_key :: "u64 \<Rightarrow> bytes \<Rightarrow> u64 \<Rightarrow> bytes result" where
  "mvcc_key table_id key version =
     (if key = [] then Inl (Panic ''mvcc_key of an empty key'')
      else Inr (mvcc_key_bytes table_id key version))"

definition raw :: "u64 \<Rightarrow> bytes \<Rightarrow> bytes" where
  "raw table_id key =
     (if key = [] then to_le_bytes table_id else mvcc_key_bytes table_id key (- 1))"

function decode_groups :: "bytes \<Rightarrow> bytes" where
  "decode_groups enc =
     (if enc = [] then []
      else let chunk = take 9 enc; rest = drop 9 enc;
               group = chunk @ replicate (9 - length chunk) 0;
               num_element = min (unat (group ! 8 - 48)) 8
           in take num_element group @ decode_groups rest)"
  by pat_completeness auto
termination
  by (relation "measure length") auto

declare decode_groups.simps [simp del]

definition revert_mvcc_key :: "bytes \<Rightarrow> bytes result" where
  "revert_mvcc_key key =
     (let len = length key
      in if len < 16 then Inl (Panic ''range end index out of range for slice'')
         else Inr (decode_groups (drop 8 (take (len - 8) key))))"

definition may_revert_mvcc_key :: "bytes \<Rightarrow> bytes option result" where
  "may_revert_mvcc_key key =
     (if length key \<le> 16 then Inr None
      else rbind (revert_mvcc_key key) (\<lambda>k. Inr (Some k)))"

definition apply_state_key :: bytes where
  "apply_state_key = to_le_bytes LOCAL_TABLE_ID @ ascii ''APPLY_STATE''"

definition descriptor_key :: bytes where
  "descriptor_key = to_le_bytes LOCAL_TABLE_ID @ ascii ''DESCRIPTOR''"

definition move_shard_state_key :: bytes where
  "move_shard_state_key = to_le_bytes LOCAL_TABLE_ID @ ascii ''MIGRATE_STATE''"

section \<open>Values\<close>

definition DATA :: u8 where "DATA = 0"
definition TOMBSTONE :: u8 where "TOMBSTONE = 1"

definition values_tombstone :: bytes where
  "values_tombstone = [TOMBSTONE]"

definition values_data :: "bytes \<Rightarrow> bytes" where
  "values_data v = DATA # v"

section \<open>Entries\<close>

record mvcc_entry =
  me_key :: bytes
  me_user_key :: bytes
  me_value :: bytes

definition mvcc_entry_new :: "bytes \<Rightarrow> bytes \<Rightarrow> mvcc_entry result" where
  "mvcc_entry_new key v =
     rbind (revert_mvcc_key key) (\<lambda>uk. Inr \<lparr>me_key = key, me_user_key = uk, me_value = v\<rparr>)"

text \<open>
  \<open>MvccEntry::new\<close> has already aborted on a key of less than sixteen bytes, so the slice of the
  last eight bytes is in range.
\<close>

definition entry_version :: "mvcc_entry \<Rightarrow> u64" where
  "entry_version e = NOT (from_be_bytes (drop (length (me_key e) - 8) (me_key e)))"

definition entry_value :: "mvcc_entry \<Rightarrow> bytes option result" where
  "entry_value e =
     (case me_value e of [] \<Rightarrow> Inl (Panic ''index out of bounds'')
      | tag # content \<Rightarrow> if tag = TOMBSTONE then Inr None else Inr (Some content))"

definition is_tombstone :: "mvcc_entry \<Rightarrow> bool result" where
  "is_tombstone e =
     (case me_value e of [] \<Rightarrow> Inl (Panic ''index out of bounds'')
      | tag # content \<Rightarrow> Inr (tag = TOMBSTONE))"

definition is_data :: "mvcc_entry \<Rightarrow> bool result" where
  "is_data e =
     (case me_value e of [] \<Rightarrow> Inl (Panic ''index out of bounds'')
      | tag # content \<Rightarrow> Inr (tag = DATA))"

definition entry_into :: "mvcc_entry \<Rightarrow> kv_value result" where
  "entry_into e =
     rbind (entry_value e) (\<lambda>c. Inr \<lparr>v_content = c, v_version = entry_version e\<rparr>)"

section \<open>The memcomparable format\<close>

text \<open>
  A padded group and its mark, for any group size; the code uses groups of eight. The
  comparison of two groups decides the comparison of the keys unless both keys go on.
\<close>

definition pad :: "nat \<Rightarrow> bytes \<Rightarrow> bytes" where
  "pad k xs = take k xs @ replicate (k - length xs) 0"

definition mark :: "nat \<Rightarrow> bytes \<Rightarrow> nat" where
  "mark k xs = (if k < length xs then Suc k else length xs)"

lemma pad_simps [simp]:
  "pad 0 xs = []" "pad (Suc k) [] = 0 # pad k []" "pad (Suc k) (x # xs) = x # pad k xs"
  by (simp_all add: pad_def)

lemma mark_simps [simp]:
  "mark k [] = 0" "mark (Suc k) (x # xs) = Suc (mark k xs)" "mark 0 (x # xs) = 1"
  by (simp_all add: mark_def)

lemma length_pad [simp]: "length (pad k xs) = k"
  by (simp add: pad_def)

lemma mark_le: "mark k xs \<le> Suc k"
  by (simp add: mark_def)

lemma pad_mark_less:
  "pad k a < pad k b \<or> pad k a = pad k b \<and> mark k a < mark k b \<Longrightarrow> a < b"
proof (induction k arbitrary: a b)
  case 0
  then show ?case by (cases a; cases b) simp_all
next
  case (Suc k)
  show ?case
  proof (cases a)
    case Nil
    with Suc.prems show ?thesis by (cases b) auto
  next
    case a: (Cons x xs)
    show ?thesis
    proof (cases b)
      case Nil
      with a Suc.prems have "pad k xs < pad k []" by simp
      then have "xs < []" by (intro Suc.IH) simp
      then show ?thesis by simp
    next
      case (Cons y ys)
      with a Suc show ?thesis by auto
    qed
  qed
qed

lemma pad_mark_eq:
  "pad k a = pad k b \<Longrightarrow> mark k a = mark k b \<Longrightarrow>
    a = b \<or> k < length a \<and> k < length b \<and> take k a = take k b"
proof (induction k arbitrary: a b)
  case 0
  then show ?case by (cases a; cases b) simp_all
next
  case (Suc k)
  then show ?case by (cases a; cases b) auto
qed

lemma encode_groups_Nil [simp]: "encode_groups [] = []"
  by (simp add: encode_groups.simps)

lemma encode_groups_step:
  "key \<noteq> [] \<Longrightarrow>
    encode_groups key = pad 8 key @ [48 + word_of_nat (mark 8 key)] @ encode_groups (drop 8 key)"
  by (subst encode_groups.simps) (auto simp: pad_def mark_def Let_def min_def)

lemma mark_byte_less:
  "(48 + word_of_nat (mark 8 a) :: u8) < 48 + word_of_nat (mark 8 b) \<longleftrightarrow> mark 8 a < mark 8 b"
proof -
  have "unat (48 + word_of_nat n :: u8) = 48 + n" if "n \<le> 9" for n
    using that by (simp add: unat_word_ariths unat_u8_of_nat)
  then show ?thesis
    using mark_le [of 8 a] mark_le [of 8 b] by (simp add: word_less_nat_alt)
qed

lemma mark_byte_eq:
  "(word_of_nat (mark 8 a) :: u8) = word_of_nat (mark 8 b) \<longleftrightarrow> mark 8 a = mark 8 b"
  using mark_byte_less [of a b] mark_byte_less [of b a]
  by (metis less_irrefl linorder_neqE)

text \<open>The encoding decides a comparison whatever follows it.\<close>

lemma encode_groups_less:
  "a \<noteq> [] \<Longrightarrow> b \<noteq> [] \<Longrightarrow>
    encode_groups a @ x < encode_groups b @ y \<longleftrightarrow> a < b \<or> a = b \<and> x < y"
proof (induction a arbitrary: b rule: encode_groups.induct)
  case (1 a)
  let ?m = "\<lambda>k. 48 + word_of_nat (mark 8 k) :: u8"
  let ?less = "\<lambda>a b. pad 8 a < pad 8 b \<or> pad 8 a = pad 8 b \<and> mark 8 a < mark 8 b"
  have step: "encode_groups a @ x < encode_groups b @ y \<longleftrightarrow>
      ?less a b \<or> (pad 8 a = pad 8 b \<and> mark 8 a = mark 8 b \<and>
        encode_groups (drop 8 a) @ x < encode_groups (drop 8 b) @ y)"
    by (simp add: encode_groups_step 1(2,3) same_length_less_append mark_byte_less mark_byte_eq)
      auto
  consider (lt) "?less a b" | (gt) "?less b a"
    | (eq) "pad 8 a = pad 8 b" "mark 8 a = mark 8 b"
    by (metis linorder_neqE)
  then show ?case
  proof cases
    case lt
    with pad_mark_less [of 8 a b] step show ?thesis by blast
  next
    case gt
    then have "b < a" by (rule pad_mark_less)
    moreover have "\<not> ?less a b" "\<not> (pad 8 a = pad 8 b \<and> mark 8 a = mark 8 b)"
      using gt by auto
    ultimately show ?thesis
      using step by auto
  next
    case eq
    have "?thesis" if "a = b"
      using that by (simp add: append_less_append)
    moreover have "?thesis" if *: "8 < length a" "8 < length b" "take 8 a = take 8 b"
    proof -
      have "drop 8 a \<noteq> []" "drop 8 b \<noteq> []"
        using * by auto
      then have IH: "encode_groups (drop 8 a) @ x < encode_groups (drop 8 b) @ y \<longleftrightarrow>
          drop 8 a < drop 8 b \<or> drop 8 a = drop 8 b \<and> x < y"
        using "1.IH" "1.prems" by simp
      have "a < b \<longleftrightarrow> take 8 a @ drop 8 a < take 8 a @ drop 8 b"
        using *(3) by (metis append_take_drop_id)
      then have "a < b \<longleftrightarrow> drop 8 a < drop 8 b"
        by (simp only: append_less_append)
      moreover have "a = b \<longleftrightarrow> drop 8 a = drop 8 b"
        using *(3) by (metis append_take_drop_id)
      ultimately show ?thesis
        using IH step eq by auto
    qed
    ultimately show ?thesis
      using pad_mark_eq [OF eq] by blast
  qed
qed

lemma decode_groups_Nil [simp]: "decode_groups [] = []"
  by (simp add: decode_groups.simps)

lemma decode_groups_step:
  assumes "length g = 8" "n \<le> 9"
  shows "decode_groups (g @ (48 + word_of_nat n) # rest) = take (min n 8) g @ decode_groups rest"
  using assms by (subst decode_groups.simps) (simp add: Let_def nth_append unat_u8_of_nat min_def)

lemma decode_encode_groups [simp]: "decode_groups (encode_groups key) = key"
proof (induction key rule: encode_groups.induct)
  case (1 key)
  show ?case
  proof (cases "key = []")
    case False
    have "decode_groups (encode_groups key)
        = take (min (mark 8 key) 8) (pad 8 key) @ decode_groups (encode_groups (drop 8 key))"
      using mark_le [of 8 key] by (simp add: encode_groups_step [OF False] decode_groups_step)
    also have "take (min (mark 8 key) 8) (pad 8 key) = take 8 key"
      by (auto simp: mark_def pad_def min_def)
    also have "decode_groups (encode_groups (drop 8 key)) = drop 8 key"
      using False by (intro "1.IH") simp_all
    finally show ?thesis by simp
  qed simp
qed

lemma encode_groups_inject: "encode_groups a = encode_groups b \<longleftrightarrow> a = b"
  by (metis decode_encode_groups)

lemma length_encode_groups: "key \<noteq> [] \<Longrightarrow> 9 \<le> length (encode_groups key)"
  by (simp add: encode_groups_step)

section \<open>Facts on keys and entries\<close>

lemma not_u64_less: "NOT (a :: u64) < NOT b \<longleftrightarrow> b < a"
proof -
  have "unat (NOT w) = 2 ^ 64 - 1 - unat w" for w :: u64
  proof -
    have "NOT w = - 1 - w"
      by (simp add: not_eq_complement)
    then show ?thesis
      by (simp add: unat_sub word_order.extremum unsigned_minus_1_eq_mask mask_eq_exp_minus_1)
  qed
  then show ?thesis
    using unsigned_less [of a, where ?'a = nat] unsigned_less [of b, where ?'a = nat]
    by (simp add: word_less_nat_alt) linarith
qed

lemma mvcc_key_bytes_less:
  assumes "a \<noteq> []" "b \<noteq> []"
  shows "mvcc_key_bytes t a v < mvcc_key_bytes t b w \<longleftrightarrow> a < b \<or> a = b \<and> w < v"
  by (simp add: mvcc_key_bytes_def append_less_append encode_groups_less [OF assms]
      to_be_bytes_less not_u64_less)

lemma mvcc_key_bytes_inject:
  "mvcc_key_bytes t a v = mvcc_key_bytes t' b w \<longleftrightarrow> t = t' \<and> a = b \<and> v = w"
proof
  assume eq: "mvcc_key_bytes t a v = mvcc_key_bytes t' b w"
  then have t: "t = t'"
    by (simp add: mvcc_key_bytes_def)
  with eq have e: "encode_groups a @ to_be_bytes (NOT v) = encode_groups b @ to_be_bytes (NOT w)"
    by (simp add: mvcc_key_bytes_def)
  then have "length (encode_groups a) = length (encode_groups b)"
    by (metis add_right_cancel length_append length_to_be_bytes)
  with e have "encode_groups a = encode_groups b" "NOT v = NOT w"
    by simp_all
  with t show "t = t' \<and> a = b \<and> v = w"
    by (simp add: encode_groups_inject)
qed simp

lemma revert_mvcc_key_bytes [simp]: "revert_mvcc_key (mvcc_key_bytes t key v) = Inr key"
  by (simp add: revert_mvcc_key_def mvcc_key_bytes_def Let_def)

lemma take_mvcc_key_bytes [simp]: "take 8 (mvcc_key_bytes t key v) = to_le_bytes t"
  by (simp add: mvcc_key_bytes_def)

lemma length_mvcc_key_bytes: "16 \<le> length (mvcc_key_bytes t key v)"
  by (simp add: mvcc_key_bytes_def)

lemma mvcc_entry_new_bytes [simp]:
  "mvcc_entry_new (mvcc_key_bytes t key v) b =
     Inr \<lparr>me_key = mvcc_key_bytes t key v, me_user_key = key, me_value = b\<rparr>"
  by (simp add: mvcc_entry_new_def)

lemma entry_version_bytes [simp]:
  "me_key e = mvcc_key_bytes t key v \<Longrightarrow> entry_version e = v"
  by (simp add: entry_version_def mvcc_key_bytes_def)

lemma entry_value_data [simp]:
  "entry_value \<lparr>me_key = k, me_user_key = u, me_value = values_data v\<rparr> = Inr (Some v)"
  by (simp add: entry_value_def values_data_def DATA_def TOMBSTONE_def)

lemma entry_value_tombstone [simp]:
  "entry_value \<lparr>me_key = k, me_user_key = u, me_value = values_tombstone\<rparr> = Inr None"
  by (simp add: entry_value_def values_tombstone_def)

end
