(* ===== verification/Externals.thy ===== *)
theory Externals
  imports Mvcc_Keys "HOL-Library.RBT"
begin

text \<open>
  The code the storage engine calls and the repository does not contain: RocksDB (one column
  family of it, whose state is of type \<open>'db\<close>) and the protobuf codecs that \<open>prost\<close> generates.

  They are fields of the record \<open>ext\<close>, an argument of every definition that uses them. What the
  engine relies on is stated in locales: a column family is an ordered map from byte strings to
  byte strings, an iterator delivers its entries in key order, a write batch is applied in order
  and as a whole (\<open>ordered_store\<close>), and a decoded message is the encoded one (\<open>intent_codec\<close>).
  The laws speak of runs in which the store reports no I/O error; what the code does with such an
  error is a branch of the definitions.
\<close>

record 'db ext =
  x_get :: "'db \<Rightarrow> bytes \<Rightarrow> bytes option result"
  x_get_persisted :: "'db \<Rightarrow> bytes \<Rightarrow> bytes option result"
  x_write :: "'db \<Rightarrow> write_batch \<Rightarrow> 'db result"
  x_iter :: "'db \<Rightarrow> bytes \<Rightarrow> (bytes \<times> bytes) result list"
  x_create_cf :: "'db result"
  x_flush :: "'db \<Rightarrow> 'db result"
  x_split_properties :: "'db \<Rightarrow> (bytes \<times> bytes) option \<Rightarrow> bytes option list result"
  x_dec_split_keys :: "bytes \<Rightarrow> bytes list option"
  x_enc_intent :: "txn_intent \<Rightarrow> bytes"
  x_dec_intent :: "bytes \<Rightarrow> txn_intent result"
  x_enc_apply_state :: "apply_state \<Rightarrow> bytes"
  x_dec_apply_state :: "bytes \<Rightarrow> apply_state result"
  x_enc_group_desc :: "group_desc \<Rightarrow> bytes"
  x_dec_group_desc :: "bytes \<Rightarrow> group_desc result"
  x_enc_move_state :: "move_shard_state \<Rightarrow> bytes"
  x_dec_move_state :: "bytes \<Rightarrow> move_shard_state result"

section \<open>The effect of a write batch\<close>

fun apply_wb_op :: "wb_op \<Rightarrow> (bytes \<rightharpoonup> bytes) \<Rightarrow> (bytes \<rightharpoonup> bytes)" where
  "apply_wb_op (WbPut k v) m = m(k \<mapsto> v)"
| "apply_wb_op (WbDelete k) m = m(k := None)"

fun apply_wb :: "write_batch \<Rightarrow> (bytes \<rightharpoonup> bytes) \<Rightarrow> (bytes \<rightharpoonup> bytes)" where
  "apply_wb [] m = m"
| "apply_wb (op # ops) m = apply_wb ops (apply_wb_op op m)"

fun wb_op_key :: "wb_op \<Rightarrow> bytes" where
  "wb_op_key (WbPut k v) = k"
| "wb_op_key (WbDelete k) = k"

lemma apply_wb_append: "apply_wb (a @ b) m = apply_wb b (apply_wb a m)"
  by (induction a arbitrary: m) simp_all

lemma apply_wb_other: "k \<notin> wb_op_key ` set ops \<Longrightarrow> apply_wb ops m k = m k"
proof (induction ops arbitrary: m)
  case (Cons op ops)
  then show ?case by (cases op) auto
qed simp

section \<open>Contracts\<close>

locale ordered_store =
  fixes X :: "'db ext" and cont :: "'db \<Rightarrow> bytes \<rightharpoonup> bytes"
  assumes store_get: "x_get X d k = Inr (cont d k)"
    and store_write: "\<exists>d'. x_write X d ops = Inr d' \<and> cont d' = apply_wb ops (cont d)"
    and store_iter: "\<exists>xs. x_iter X d k = map Inr xs \<and> sorted_wrt (<) (map fst xs) \<and>
          (\<forall>a b. (a, b) \<in> set xs \<longleftrightarrow> cont d a = Some b \<and> k \<le> a)"
begin

lemma store_write_Inr: "x_write X d ops = Inr d' \<Longrightarrow> cont d' = apply_wb ops (cont d)"
  using store_write [of d ops] by auto

lemma store_iterE:
  obtains xs where "x_iter X d k = map Inr xs" "sorted_wrt (<) (map fst xs)"
    "\<And>a b. (a, b) \<in> set xs \<longleftrightarrow> cont d a = Some b \<and> k \<le> a"
  using store_iter [of d k] by blast

end

locale intent_codec =
  fixes X :: "'db ext"
  assumes dec_enc_intent: "x_dec_intent X (x_enc_intent X i) = Inr i"

section \<open>An ordered in-memory store\<close>

text \<open>
  A column family held in a red-black tree, as RocksDB holds a memtable, with a byte format for
  intents. It meets the contracts, so the laws can hold together.
\<close>

fun rbt_apply :: "wb_op \<Rightarrow> (bytes, bytes) rbt \<Rightarrow> (bytes, bytes) rbt" where
  "rbt_apply (WbPut k v) t = RBT.insert k v t"
| "rbt_apply (WbDelete k) t = RBT.delete k t"

definition mem_enc_intent :: "txn_intent \<Rightarrow> bytes" where
  "mem_enc_intent i =
     to_be_bytes (ti_start_version i) @ [of_bool (ti_is_delete i)] @
     (case ti_value i of None \<Rightarrow> [0] | Some v \<Rightarrow> 1 # v)"

definition mem_dec_intent :: "bytes \<Rightarrow> txn_intent result" where
  "mem_dec_intent bs =
     (case drop 8 bs of
        f # g # v \<Rightarrow> Inr \<lparr>ti_start_version = from_be_bytes (take 8 bs), ti_is_delete = (f = 1),
                        ti_value = (if g = 1 then Some v else None)\<rparr>
      | _ \<Rightarrow> Inl (DecodeError ''buffer underflow''))"

definition mem_ext :: "(bytes, bytes) rbt ext" where
  "mem_ext =
     \<lparr>x_get = \<lambda>t k. Inr (RBT.lookup t k),
      x_get_persisted = \<lambda>t k. Inr (RBT.lookup t k),
      x_write = \<lambda>t ops. Inr (fold rbt_apply ops t),
      x_iter = \<lambda>t k. map Inr (filter (\<lambda>(a, b). k \<le> a) (RBT.entries t)),
      x_create_cf = Inr RBT.empty,
      x_flush = Inr,
      x_split_properties = \<lambda>t r. Inr [],
      x_dec_split_keys = \<lambda>bs. None,
      x_enc_intent = mem_enc_intent,
      x_dec_intent = mem_dec_intent,
      x_enc_apply_state = \<lambda>a. to_be_bytes (ei_index a) @ to_be_bytes (ei_term a),
      x_dec_apply_state = \<lambda>bs. Inr \<lparr>ei_index = from_be_bytes (take 8 bs),
                                    ei_term = from_be_bytes (drop 8 bs)\<rparr>,
      x_enc_group_desc = \<lambda>d. [],
      x_dec_group_desc = \<lambda>bs. Inl (DecodeError ''group descriptor''),
      x_enc_move_state = \<lambda>m. [],
      x_dec_move_state = \<lambda>bs. Inl (DecodeError ''move shard state'')\<rparr>"

lemma lookup_fold_rbt_apply:
  "RBT.lookup (fold rbt_apply ops t) = apply_wb ops (RBT.lookup t)"
proof (induction ops arbitrary: t)
  case (Cons op ops)
  have "RBT.lookup (rbt_apply op t) = apply_wb_op op (RBT.lookup t)"
    by (cases op) (auto simp: fun_eq_iff)
  with Cons show ?case by simp
qed simp

interpretation mem: ordered_store mem_ext RBT.lookup
proof unfold_locales
  fix d :: "(bytes, bytes) rbt" and k
  let ?xs = "filter (\<lambda>(a, b). k \<le> a) (RBT.entries d)"
  have sd: "sorted (map fst (RBT.entries d))" "distinct (map fst (RBT.entries d))"
    by (rule RBT.sorted_entries, rule RBT.distinct_entries)
  then have "sorted_wrt (<) (map fst (RBT.entries d))"
    by (simp add: strict_sorted_iff)
  then have "sorted_wrt (<) (map fst ?xs)"
    by (simp add: sorted_wrt_map sorted_wrt_filter)
  moreover have "(a, b) \<in> set ?xs \<longleftrightarrow> RBT.lookup d a = Some b \<and> k \<le> a" for a b
    using sd(2) by (auto simp flip: RBT.map_of_entries)
  ultimately show "\<exists>xs. x_iter mem_ext d k = map Inr xs \<and> sorted_wrt (<) (map fst xs) \<and>
      (\<forall>a b. (a, b) \<in> set xs \<longleftrightarrow> RBT.lookup d a = Some b \<and> k \<le> a)"
    by (intro exI [of _ ?xs]) (simp add: mem_ext_def)
qed (simp_all add: mem_ext_def lookup_fold_rbt_apply)

interpretation mem: intent_codec mem_ext
proof unfold_locales
  show "x_dec_intent mem_ext (x_enc_intent mem_ext i) = Inr i" for i
    by (cases i)
      (auto simp: mem_ext_def mem_dec_intent_def mem_enc_intent_def split: option.splits)
qed

end
