(* ===== verification/Group_Engine.thy ===== *)
theory Group_Engine
  imports Externals
begin

text \<open>
  The storage of a replication group (\<open>src/server/src/engine/group.rs\<close> and the parts of
  \<open>engine/mod.rs\<close> it uses): the column family of the group together with the descriptors the
  engine keeps in memory, the operations that fill a write batch, the commit of a batch with the
  group states, and the snapshots that readers iterate.

  An iterator of RocksDB is the list of the results it will deliver; a \<open>Snapshot\<close> is the state
  of the Rust struct and every \<open>next\<close> returns the new state.
\<close>

section \<open>State\<close>

record write_states =
  ws_apply_state :: "apply_state option"
  ws_descriptor :: "group_desc option"
  ws_move_shard_state :: "move_shard_state option"

definition write_states_default :: write_states where
  "write_states_default =
     \<lparr>ws_apply_state = None, ws_descriptor = None, ws_move_shard_state = None\<rparr>"

record 'db group_engine =
  ge_db :: 'db
  ge_group_desc :: group_desc
  ge_shard_descs :: "u64 \<rightharpoonup> shard_desc"
  ge_move_shard_state :: "move_shard_state option"

datatype snapshot_mode = StartMode "bytes option" | KeyMode bytes | PrefixMode bytes

datatype snapshot_range = TargetRange bytes | PrefixRange bytes | KeyRange bytes bytes

record snapshot_core =
  core_db_iter :: "(bytes \<times> bytes) result list"
  core_current_key :: "bytes option"
  core_cached_entry :: "mvcc_entry option"

record snapshot =
  sn_table_id :: u64
  sn_range :: "snapshot_range option"
  sn_core :: snapshot_core

section \<open>Group states\<close>

definition step_closed :: "i32 \<Rightarrow> bool" where
  "step_closed step \<longleftrightarrow>
     step = move_shard_step_i32 Finished \<or> step = move_shard_step_i32 StepAborted"

definition states_write :: "'db ext \<Rightarrow> write_states \<Rightarrow> write_batch" where
  "states_write X st =
     (case ws_apply_state st of None \<Rightarrow> []
      | Some a \<Rightarrow> [WbPut apply_state_key (x_enc_apply_state X a)]) @
     (case ws_descriptor st of None \<Rightarrow> []
      | Some desc \<Rightarrow> [WbPut descriptor_key (x_enc_group_desc X desc)]) @
     (case ws_move_shard_state st of None \<Rightarrow> []
      | Some m \<Rightarrow>
          if \<not> step_closed (mss_step m)
          then [WbPut move_shard_state_key (x_enc_move_state X m)]
          else [WbDelete move_shard_state_key])"

definition internal_shard_descs :: "group_desc \<Rightarrow> (u64 \<rightharpoonup> shard_desc)" where
  "internal_shard_descs gd = map_of (rev (map (\<lambda>shard. (sd_id shard, shard)) (gd_shards gd)))"

definition or_insert :: "('k \<rightharpoonup> 'v) \<Rightarrow> 'k \<Rightarrow> 'v \<Rightarrow> ('k \<rightharpoonup> 'v)" where
  "or_insert m k v = (case m k of None \<Rightarrow> m(k \<mapsto> v) | Some _ \<Rightarrow> m)"

definition with_moving_shard ::
    "move_shard_state option \<Rightarrow> (u64 \<rightharpoonup> shard_desc) \<Rightarrow> (u64 \<rightharpoonup> shard_desc) result" where
  "with_moving_shard ms descs =
     (case ms of None \<Rightarrow> Inr descs
      | Some m \<Rightarrow> rbind (state_shard_desc m) (\<lambda>d. Inr (or_insert descs (sd_id d) d)))"

definition apply_core_states ::
    "'db group_engine \<Rightarrow> group_desc option \<Rightarrow> move_shard_state option \<Rightarrow>
     'db group_engine result" where
  "apply_core_states e desc ms =
     (let e = (case desc of None \<Rightarrow> e | Some d \<Rightarrow> e\<lparr>ge_group_desc := d\<rparr>);
          e = (case ms of None \<Rightarrow> e
               | Some m \<Rightarrow> if step_closed (mss_step m)
                          then e\<lparr>ge_move_shard_state := None\<rparr>
                          else e\<lparr>ge_move_shard_state := Some m\<rparr>)
      in rbind (with_moving_shard (ge_move_shard_state e) (internal_shard_descs (ge_group_desc e)))
           (\<lambda>descs. Inr (e\<lparr>ge_shard_descs := descs\<rparr>)))"

definition group_commit ::
    "'db ext \<Rightarrow> 'db group_engine \<Rightarrow> write_batch list \<Rightarrow> write_states \<Rightarrow>
     'db group_engine result" where
  "group_commit X e wbs st =
     rbind (x_write X (ge_db e) (concat wbs @ states_write X st)) (\<lambda>db.
       let e = e\<lparr>ge_db := db\<rparr>
       in if ws_descriptor st \<noteq> None \<or> ws_move_shard_state st \<noteq> None
          then apply_core_states e (ws_descriptor st) (ws_move_shard_state st)
          else Inr e)"

definition commit ::
    "'db ext \<Rightarrow> 'db group_engine \<Rightarrow> write_batch \<Rightarrow> write_states \<Rightarrow> 'db group_engine result" where
  "commit X e wb st = group_commit X e [wb] st"

definition internal_descriptor :: "'db ext \<Rightarrow> 'db \<Rightarrow> group_desc result" where
  "internal_descriptor X db =
     rbind (x_get X db descriptor_key) (\<lambda>v.
     rbind (ok_or (Panic ''group descriptor will persisted when creating group'') v)
       (x_dec_group_desc X))"

definition internal_move_shard_state :: "'db ext \<Rightarrow> 'db \<Rightarrow> move_shard_state option result" where
  "internal_move_shard_state X db =
     rbind (x_get X db move_shard_state_key) (\<lambda>v.
       case v of None \<Rightarrow> Inr None
       | Some bs \<Rightarrow> rbind (x_dec_move_state X bs) (\<lambda>m. Inr (Some m)))"

definition flushed_apply_state :: "'db ext \<Rightarrow> 'db group_engine \<Rightarrow> apply_state result" where
  "flushed_apply_state X e =
     rbind (x_get_persisted X (ge_db e) apply_state_key) (\<lambda>v.
     rbind (ok_or (Panic ''apply state will persisted when creating group'') v)
       (x_dec_apply_state X))"

definition engine_create :: "'db ext \<Rightarrow> u64 \<Rightarrow> 'db group_engine result" where
  "engine_create X group_id =
     rbind (x_create_cf X) (\<lambda>db.
       let desc = \<lparr>gd_id = group_id, gd_epoch = INITIAL_EPOCH, gd_shards = [], gd_replicas = []\<rparr>;
           e = \<lparr>ge_db = db, ge_group_desc = desc, ge_shard_descs = Map.empty,
                ge_move_shard_state = None\<rparr>;
           st = write_states_default
                  \<lparr>ws_apply_state := Some \<lparr>ei_index = 0, ei_term = 0\<rparr>,
                   ws_descriptor := Some desc\<rparr>
       in rbind (commit X e [] st) (\<lambda>e.
          rbind (x_flush X (ge_db e)) (\<lambda>db. Inr (e\<lparr>ge_db := db\<rparr>))))"

text \<open>\<open>open\<close> is given the column family of that group and replica, if there is one.\<close>

definition engine_open :: "'db ext \<Rightarrow> 'db option \<Rightarrow> 'db group_engine option result" where
  "engine_open X cf =
     (case cf of None \<Rightarrow> Inr None
      | Some db \<Rightarrow>
          rbind (internal_descriptor X db) (\<lambda>desc.
          rbind (internal_move_shard_state X db) (\<lambda>ms.
          rbind (with_moving_shard ms (internal_shard_descs desc)) (\<lambda>descs.
            Inr (Some \<lparr>ge_db = db, ge_group_desc = desc, ge_shard_descs = descs,
                       ge_move_shard_state = ms\<rparr>)))))"

text \<open>
  \<open>ingest\<close> drops the column family and creates it again from the files; \<open>files\<close> is the new
  family or the error of RocksDB.
\<close>

definition engine_ingest ::
    "'db ext \<Rightarrow> 'db group_engine \<Rightarrow> 'db result \<Rightarrow> 'db group_engine result" where
  "engine_ingest X e files =
     rbind files (\<lambda>db.
       let e = e\<lparr>ge_db := db\<rparr>
       in rbind (internal_descriptor X db) (\<lambda>desc.
          rbind (internal_move_shard_state X db) (\<lambda>ms.
            apply_core_states e (Some desc) ms)))"

section \<open>Filling a write batch\<close>

definition engine_shard_desc :: "'db group_engine \<Rightarrow> u64 \<Rightarrow> shard_desc result" where
  "engine_shard_desc e shard_id = ok_or (ShardNotFound shard_id) (ge_shard_descs e shard_id)"

definition engine_put ::
    "'db group_engine \<Rightarrow> write_batch \<Rightarrow> u64 \<Rightarrow> bytes \<Rightarrow> bytes \<Rightarrow> u64 \<Rightarrow> write_batch result" where
  "engine_put e wb shard_id key v version =
     rbind (engine_shard_desc e shard_id) (\<lambda>desc.
     rbind (mvcc_key (sd_table_id desc) key version) (\<lambda>k.
       Inr (wb @ [WbPut k (values_data v)])))"

definition engine_tombstone ::
    "'db group_engine \<Rightarrow> write_batch \<Rightarrow> u64 \<Rightarrow> bytes \<Rightarrow> u64 \<Rightarrow> write_batch result" where
  "engine_tombstone e wb shard_id key version =
     rbind (engine_shard_desc e shard_id) (\<lambda>desc.
     rbind (mvcc_key (sd_table_id desc) key version) (\<lambda>k.
       Inr (wb @ [WbPut k values_tombstone])))"

definition engine_delete ::
    "'db group_engine \<Rightarrow> write_batch \<Rightarrow> u64 \<Rightarrow> bytes \<Rightarrow> u64 \<Rightarrow> write_batch result" where
  "engine_delete e wb shard_id key version =
     rbind (engine_shard_desc e shard_id) (\<lambda>desc.
     rbind (mvcc_key (sd_table_id desc) key version) (\<lambda>k.
       Inr (wb @ [WbDelete k])))"

section \<open>Snapshots\<close>

definition snapshot_start_key :: "shard_desc \<Rightarrow> snapshot_mode \<Rightarrow> bytes" where
  "snapshot_start_key desc mode =
     (case mode of
        StartMode (Some k) \<Rightarrow> raw (sd_table_id desc) k
      | StartMode None \<Rightarrow> raw (sd_table_id desc) (start_key desc)
      | KeyMode k \<Rightarrow> raw (sd_table_id desc) k
      | PrefixMode k \<Rightarrow> raw (sd_table_id desc) k)"

definition snapshot_new ::
    "u64 \<Rightarrow> (bytes \<times> bytes) result list \<Rightarrow> snapshot_mode \<Rightarrow> shard_desc \<Rightarrow> snapshot" where
  "snapshot_new table_id db_iter mode desc =
     (let rng = (case mode of
            KeyMode k \<Rightarrow> TargetRange k
          | PrefixMode k \<Rightarrow> PrefixRange k
          | StartMode k \<Rightarrow> KeyRange (case k of None \<Rightarrow> start_key desc | Some s \<Rightarrow> s) (end_key desc))
      in \<lparr>sn_table_id = table_id, sn_range = Some rng,
          sn_core = \<lparr>core_db_iter = db_iter, core_current_key = None,
                     core_cached_entry = None\<rparr>\<rparr>)"

definition engine_snapshot ::
    "'db ext \<Rightarrow> 'db group_engine \<Rightarrow> u64 \<Rightarrow> snapshot_mode \<Rightarrow> snapshot result" where
  "engine_snapshot X e shard_id mode =
     rbind (engine_shard_desc e shard_id) (\<lambda>desc.
       Inr (snapshot_new (sd_table_id desc)
              (x_iter X (ge_db e) (snapshot_start_key desc mode)) mode desc))"

fun is_valid_key :: "snapshot_range \<Rightarrow> bytes \<Rightarrow> bool" where
  "is_valid_key (TargetRange target_key) key = (target_key = key)"
| "is_valid_key (PrefixRange p) key = prefix p key"
| "is_valid_key (KeyRange start stop) key = in_range start stop key"

definition is_current_key :: "snapshot_core \<Rightarrow> bytes \<Rightarrow> bool" where
  "is_current_key core target_key =
     (case core_current_key core of None \<Rightarrow> False | Some k \<Rightarrow> k = target_key)"

definition next_entry :: "u64 \<Rightarrow> snapshot_core \<Rightarrow> unit result option \<times> snapshot_core" where
  "next_entry table_id core =
     (case core_db_iter core of
        [] \<Rightarrow> (None, core)
      | item # rest \<Rightarrow>
          let core = core\<lparr>core_db_iter := rest\<rparr>
          in case item of
               Inl err \<Rightarrow> (Some (Inl err), core)
             | Inr (key, v) \<Rightarrow>
                 if length key < 8 then (Some (Inl (Panic ''range end index out of range'')), core)
                 else if take 8 key \<noteq> to_le_bytes table_id then (None, core)
                 else case mvcc_entry_new key v of
                        Inl err \<Rightarrow> (Some (Inl err), core)
                      | Inr entry \<Rightarrow>
                          (Some (Inr ()), core\<lparr>core_cached_entry := Some entry\<rparr>))"

lemma next_entry_shrinks:
  "next_entry t core = (Some (Inr u), core') \<Longrightarrow>
    length (core_db_iter core') < length (core_db_iter core)"
  by (auto simp: next_entry_def Let_def split: list.splits sum.splits prod.splits if_splits)

definition out_of_range :: "snapshot \<Rightarrow> mvcc_entry \<Rightarrow> bool" where
  "out_of_range s entry =
     (case sn_range s of None \<Rightarrow> False | Some rng \<Rightarrow> \<not> is_valid_key rng (me_user_key entry))"

text \<open>
  The \<open>MvccIterator\<close> that \<open>next\<close> hands out borrows the snapshot, so the model returns the
  snapshot and a unit.
\<close>

function next_mvcc_iterator :: "snapshot \<Rightarrow> unit result option \<times> snapshot" where
  "next_mvcc_iterator s =
     (let advance = (case next_entry (sn_table_id s) (sn_core s) of
            (None, core) \<Rightarrow> (None, s\<lparr>sn_core := core\<rparr>)
          | (Some (Inl err), core) \<Rightarrow> (Some (Inl err), s\<lparr>sn_core := core\<rparr>)
          | (Some (Inr _), core) \<Rightarrow> next_mvcc_iterator (s\<lparr>sn_core := core\<rparr>))
      in case core_cached_entry (sn_core s) of
           None \<Rightarrow> advance
         | Some entry \<Rightarrow>
             if out_of_range s entry then (None, s)
             else if \<not> is_current_key (sn_core s) (me_user_key entry)
             then (Some (Inr ()),
                   s\<lparr>sn_core := (sn_core s)\<lparr>core_current_key := Some (me_user_key entry)\<rparr>\<rparr>)
             else advance)"
  by pat_completeness auto
termination
  by (relation "measure (\<lambda>s. length (core_db_iter (sn_core s)))")
    (auto simp: next_entry_shrinks)

declare next_mvcc_iterator.simps [simp del]

function next_mvcc_entry :: "snapshot \<Rightarrow> mvcc_entry result option \<times> snapshot" where
  "next_mvcc_entry s =
     (case core_cached_entry (sn_core s) of
        Some entry \<Rightarrow>
          if is_current_key (sn_core s) (me_user_key entry)
          then (Some (Inr entry), s\<lparr>sn_core := (sn_core s)\<lparr>core_cached_entry := None\<rparr>\<rparr>)
          else (None, s)
      | None \<Rightarrow>
          (case next_entry (sn_table_id s) (sn_core s) of
             (None, core) \<Rightarrow> (None, s\<lparr>sn_core := core\<rparr>)
           | (Some (Inl err), core) \<Rightarrow> (Some (Inl err), s\<lparr>sn_core := core\<rparr>)
           | (Some (Inr _), core) \<Rightarrow> next_mvcc_entry (s\<lparr>sn_core := core\<rparr>)))"
  by pat_completeness auto
termination
  by (relation "measure (\<lambda>s. length (core_db_iter (sn_core s)))")
    (auto simp: next_entry_shrinks)

declare next_mvcc_entry.simps [simp del]

text \<open>What is left to read: the entry in the cache and the items of the iterator.\<close>

definition snap_size :: "snapshot \<Rightarrow> nat" where
  "snap_size s = length (core_db_iter (sn_core s)) +
     (case core_cached_entry (sn_core s) of None \<Rightarrow> 0 | Some _ \<Rightarrow> 1)"

lemma next_mvcc_entry_cached:
  "core_cached_entry (sn_core s) = Some entry \<Longrightarrow>
    next_mvcc_entry s =
      (if is_current_key (sn_core s) (me_user_key entry)
       then (Some (Inr entry), s\<lparr>sn_core := (sn_core s)\<lparr>core_cached_entry := None\<rparr>\<rparr>)
       else (None, s))"
  by (simp add: next_mvcc_entry.simps [of s])

lemma next_mvcc_entry_empty:
  "core_cached_entry (sn_core s) = None \<Longrightarrow>
    next_mvcc_entry s =
      (case next_entry (sn_table_id s) (sn_core s) of
         (None, core) \<Rightarrow> (None, s\<lparr>sn_core := core\<rparr>)
       | (Some (Inl err), core) \<Rightarrow> (Some (Inl err), s\<lparr>sn_core := core\<rparr>)
       | (Some (Inr _), core) \<Rightarrow> next_mvcc_entry (s\<lparr>sn_core := core\<rparr>))"
  by (simp add: next_mvcc_entry.simps [of s])

lemma next_entry_cached:
  "next_entry t core = (Some (Inr u), core') \<Longrightarrow> core_cached_entry core' \<noteq> None"
  by (auto simp: next_entry_def Let_def split: list.splits sum.splits prod.splits if_splits)

lemma next_mvcc_entry_cached_shrinks:
  assumes "core_cached_entry (sn_core s) = Some e" "next_mvcc_entry s = (Some (Inr entry), s')"
  shows "snap_size s' < snap_size s"
  using assms by (auto simp: next_mvcc_entry_cached snap_size_def split: if_splits)

lemma next_mvcc_entry_shrinks:
  assumes "next_mvcc_entry s = (Some (Inr entry), s')"
  shows "snap_size s' < snap_size s"
proof (cases "core_cached_entry (sn_core s)")
  case (Some e)
  then show ?thesis
    using assms by (rule next_mvcc_entry_cached_shrinks)
next
  case None
  obtain r core where step: "next_entry (sn_table_id s) (sn_core s) = (r, core)"
    by fastforce
  with assms have r: "r = Some (Inr ())"
    and rest: "next_mvcc_entry (s\<lparr>sn_core := core\<rparr>) = (Some (Inr entry), s')"
    by (simp_all add: next_mvcc_entry_empty [OF None] split: option.splits sum.splits)
  obtain e where "core_cached_entry core = Some e"
    using next_entry_cached step r by blast
  then have "snap_size s' < snap_size (s\<lparr>sn_core := core\<rparr>)"
    using next_mvcc_entry_cached_shrinks [OF _ rest] by simp
  moreover have "snap_size (s\<lparr>sn_core := core\<rparr>) \<le> snap_size s"
    using next_entry_shrinks [OF step [unfolded r]] None
    by (simp add: snap_size_def split: option.splits)
  ultimately show ?thesis by simp
qed

section \<open>Point reads\<close>

definition engine_get :: "'db ext \<Rightarrow> 'db group_engine \<Rightarrow> u64 \<Rightarrow> bytes \<Rightarrow> kv_value option result" where
  "engine_get X e shard_id key =
     rbind (engine_snapshot X e shard_id (KeyMode key)) (\<lambda>s.
       case next_mvcc_iterator s of
         (None, s) \<Rightarrow> Inr None
       | (Some (Inl err), s) \<Rightarrow> Inl err
       | (Some (Inr _), s) \<Rightarrow>
           (case next_mvcc_entry s of
              (None, s) \<Rightarrow> Inr None
            | (Some (Inl err), s) \<Rightarrow> Inl err
            | (Some (Inr entry), s) \<Rightarrow> rbind (entry_into entry) (\<lambda>v. Inr (Some v))))"

function collect_values :: "snapshot \<Rightarrow> kv_value list \<Rightarrow> kv_value list result" where
  "collect_values s values =
     (case next_mvcc_entry s of
        (None, s) \<Rightarrow> Inr values
      | (Some (Inl err), s) \<Rightarrow> Inl err
      | (Some (Inr entry), s) \<Rightarrow>
          (case entry_into entry of Inl err \<Rightarrow> Inl err
           | Inr v \<Rightarrow> collect_values s (values @ [v])))"
  by pat_completeness auto
termination
  by (relation "measure (\<lambda>(s, values). snap_size s)") (auto dest: next_mvcc_entry_shrinks [OF sym])

declare collect_values.simps [simp del]

definition get_all_versions :: "'db ext \<Rightarrow> 'db group_engine \<Rightarrow> u64 \<Rightarrow> bytes \<Rightarrow> value_set result" where
  "get_all_versions X e shard_id key =
     rbind (engine_snapshot X e shard_id (KeyMode key)) (\<lambda>s.
       case next_mvcc_iterator s of
         (None, s) \<Rightarrow> Inr \<lparr>vs_user_key = key, vs_values = []\<rparr>
       | (Some (Inl err), s) \<Rightarrow> Inl err
       | (Some (Inr _), s) \<Rightarrow>
           rbind (collect_values s []) (\<lambda>vs. Inr \<lparr>vs_user_key = key, vs_values = vs\<rparr>))"

section \<open>Split keys\<close>

definition shard_raw_boundary :: "'db group_engine \<Rightarrow> u64 \<Rightarrow> (bytes \<times> bytes) result" where
  "shard_raw_boundary e shard_id =
     rbind (engine_shard_desc e shard_id) (\<lambda>desc.
     rbind (ok_or (InvalidData ''the range field of shard is not set'') (sd_range desc)) (\<lambda>rng.
       let start = raw (sd_table_id desc) (rp_start rng);
           stop = (if rp_end rng = []
                   then lexical_next_boundary (raw (sd_table_id desc) (rp_end rng))
                   else raw (sd_table_id desc) (rp_end rng))
       in Inr (start, stop)))"

fun decode_properties :: "'db ext \<Rightarrow> bytes option list \<Rightarrow> bytes list result" where
  "decode_properties X [] = Inr []"
| "decode_properties X (None # ps) = decode_properties X ps"
| "decode_properties X (Some v # ps) =
     (case x_dec_split_keys X v of
        None \<Rightarrow> Inl (InvalidData ''deserialize EstimatedSplitKeys'')
      | Some keys \<Rightarrow> rbind (decode_properties X ps) (\<lambda>rest. Inr (keys @ rest)))"

definition estimate_split_keys_in_range ::
    "'db ext \<Rightarrow> 'db \<Rightarrow> bytes \<Rightarrow> bytes \<Rightarrow> bytes list result" where
  "estimate_split_keys_in_range X db start stop =
     rbind (x_split_properties X db (if stop = [] then None else Some (start, stop))) (\<lambda>ps.
     rbind (decode_properties X ps) (\<lambda>keys.
       Inr (sort (remdups (filter (\<lambda>key. start < key \<and> (key < stop \<or> stop = [])) keys)))))"

definition estimate_split_key :: "'db ext \<Rightarrow> 'db group_engine \<Rightarrow> u64 \<Rightarrow> bytes option result" where
  "estimate_split_key X e shard_id =
     rbind (shard_raw_boundary e shard_id) (\<lambda>(start, stop).
     rbind (estimate_split_keys_in_range X (ge_db e) start stop) (\<lambda>keys.
       if keys = [] then Inr None
       else may_revert_mvcc_key (keys ! (length keys div 2))))"

end
