(* ===== verification/Mvcc_View.thy ===== *)
theory Mvcc_View
  imports Group_Engine
begin

text \<open>
  What a snapshot shows. The first part gives the list view of the snapshot state machine: which
  entries it still holds, which of them \<open>next\<close> skips, and which the iterator of one key delivers.
  The second part is the abstract contents of the store: a row maps versions to contents or
  tombstones, and its history lists them newest first. The refinement lemmas of the last part say
  that point reads of the engine return that history.
\<close>

section \<open>The list view of a snapshot\<close>

definition mvcc_item :: "u64 \<Rightarrow> bytes \<Rightarrow> u64 \<Rightarrow> bytes \<Rightarrow> mvcc_entry" where
  "mvcc_item t uk v b = \<lparr>me_key = mvcc_key_bytes t uk v, me_user_key = uk, me_value = b\<rparr>"

lemma mvcc_item_simps [simp]:
  "me_key (mvcc_item t uk v b) = mvcc_key_bytes t uk v"
  "me_user_key (mvcc_item t uk v b) = uk"
  "me_value (mvcc_item t uk v b) = b"
  "entry_version (mvcc_item t uk v b) = v"
  by (simp_all add: mvcc_item_def)

definition is_item :: "u64 \<Rightarrow> mvcc_entry \<Rightarrow> bool" where
  "is_item t e \<longleftrightarrow> (\<exists>uk v b. uk \<noteq> [] \<and> e = mvcc_item t uk v b)"

definition raw_item :: "mvcc_entry \<Rightarrow> bytes \<times> bytes" where
  "raw_item e = (me_key e, me_value e)"

definition cached_list :: "snapshot_core \<Rightarrow> mvcc_entry list" where
  "cached_list core = (case core_cached_entry core of None \<Rightarrow> [] | Some e \<Rightarrow> [e])"

definition viewed :: "snapshot \<Rightarrow> mvcc_entry list \<Rightarrow> bool" where
  "viewed s es \<longleftrightarrow>
     (\<exists>ms ns. core_db_iter (sn_core s) = map (Inr \<circ> raw_item) ms @ map Inr ns \<and>
        (\<forall>e\<in>set ms. is_item (sn_table_id s) e) \<and>
        (\<forall>p\<in>set ns. 8 \<le> length (fst p) \<and> take 8 (fst p) \<noteq> to_le_bytes (sn_table_id s)) \<and>
        es = cached_list (sn_core s) @ ms)"

abbreviation current :: "snapshot \<Rightarrow> bytes option" where
  "current s \<equiv> core_current_key (sn_core s)"

abbreviation cached :: "snapshot \<Rightarrow> mvcc_entry option" where
  "cached s \<equiv> core_cached_entry (sn_core s)"

definition key_valid :: "snapshot \<Rightarrow> bytes \<Rightarrow> bool" where
  "key_valid s k = (case sn_range s of None \<Rightarrow> True | Some rng \<Rightarrow> is_valid_key rng k)"

lemma key_valid_core [simp]: "key_valid (s\<lparr>sn_core := c\<rparr>) k = key_valid s k"
  by (simp add: key_valid_def)

lemma out_of_range_iff: "out_of_range s e \<longleftrightarrow> \<not> key_valid s (me_user_key e)"
  by (simp add: out_of_range_def key_valid_def split: option.splits)

definition same_scope :: "snapshot \<Rightarrow> snapshot \<Rightarrow> bool" where
  "same_scope s s' \<longleftrightarrow> sn_table_id s' = sn_table_id s \<and> sn_range s' = sn_range s"

lemma same_scope_simps [simp]:
  "same_scope s s" "same_scope s (s\<lparr>sn_core := c\<rparr>)"
  by (simp_all add: same_scope_def)

lemma same_scope_trans: "same_scope a b \<Longrightarrow> same_scope b c \<Longrightarrow> same_scope a c"
  by (simp add: same_scope_def)

lemma same_scope_key_valid: "same_scope s s' \<Longrightarrow> key_valid s' k = key_valid s k"
  by (simp add: same_scope_def key_valid_def)

lemma next_entry_item:
  assumes "is_item t e" "core_db_iter core = Inr (raw_item e) # rest"
  shows "next_entry t core =
    (Some (Inr ()), core\<lparr>core_db_iter := rest, core_cached_entry := Some e\<rparr>)"
proof -
  obtain uk v b where e: "e = mvcc_item t uk v b"
    using assms(1) by (auto simp: is_item_def)
  have "\<not> length (mvcc_key_bytes t uk v) < 8"
    using length_mvcc_key_bytes [of t uk v] by simp
  then show ?thesis
    using assms(2) by (simp add: e next_entry_def raw_item_def Let_def mvcc_item_def)
qed

text \<open>One more entry, or the end of the table.\<close>

lemma next_entry_viewed:
  assumes "viewed s (cached_list (sn_core s) @ es)"
  shows "case es of
     [] \<Rightarrow> \<exists>core. next_entry (sn_table_id s) (sn_core s) = (None, core) \<and>
             core_cached_entry core = cached s \<and> core_current_key core = current s \<and>
             viewed (s\<lparr>sn_core := core\<rparr>) (cached_list (sn_core s))
   | e # es' \<Rightarrow> \<exists>core. next_entry (sn_table_id s) (sn_core s) = (Some (Inr ()), core) \<and>
             core_cached_entry core = Some e \<and> core_current_key core = current s \<and>
             viewed (s\<lparr>sn_core := core\<rparr>) (e # es')"
proof -
  let ?t = "sn_table_id s"
  obtain ns where it: "core_db_iter (sn_core s) = map (Inr \<circ> raw_item) es @ map Inr ns"
    and ms: "\<forall>e\<in>set es. is_item ?t e"
    and ns: "\<forall>p\<in>set ns. 8 \<le> length (fst p) \<and> take 8 (fst p) \<noteq> to_le_bytes ?t"
    using assms by (auto simp: viewed_def)
  show ?thesis
  proof (cases es)
    case (Cons e es')
    let ?core = "(sn_core s)\<lparr>core_db_iter := map (Inr \<circ> raw_item) es' @ map Inr ns,
                               core_cached_entry := Some e\<rparr>"
    have "next_entry ?t (sn_core s) = (Some (Inr ()), ?core)"
      using it ms Cons by (intro next_entry_item) simp_all
    moreover have "viewed (s\<lparr>sn_core := ?core\<rparr>) (e # es')"
      using ms ns Cons by (auto simp: viewed_def cached_list_def)
    ultimately show ?thesis
      using Cons by auto
  next
    case Nil
    show ?thesis
    proof (cases ns)
      case Nil
      with it \<open>es = []\<close> assms show ?thesis
        by (simp add: next_entry_def)
    next
      case (Cons p ns')
      let ?core = "(sn_core s)\<lparr>core_db_iter := map Inr ns'\<rparr>"
      have "next_entry ?t (sn_core s) = (None, ?core)"
        using it ns \<open>es = []\<close> Cons by (cases p) (auto simp: next_entry_def simp flip: not_le)
      moreover have "viewed (s\<lparr>sn_core := ?core\<rparr>) (cached_list (sn_core s))"
        using ns Cons by (auto simp: viewed_def cached_list_def)
      ultimately show ?thesis
        using \<open>es = []\<close> by auto
    qed
  qed
qed

text \<open>The iterator of the current key delivers the entries of that key and then stops.\<close>

lemma next_mvcc_entry_viewed:
  assumes "viewed s es" "current s = Some k"
  shows "case es of
     [] \<Rightarrow> fst (next_mvcc_entry s) = None \<and> viewed (snd (next_mvcc_entry s)) []
             \<and> current (snd (next_mvcc_entry s)) = Some k
             \<and> same_scope s (snd (next_mvcc_entry s))
   | e # es' \<Rightarrow>
       if me_user_key e = k
       then \<exists>s'. next_mvcc_entry s = (Some (Inr e), s') \<and> viewed s' es' \<and>
              current s' = Some k \<and> same_scope s s'
       else \<exists>s'. next_mvcc_entry s = (None, s') \<and> viewed s' es \<and>
              current s' = Some k \<and> same_scope s s'"
proof -
  have hit: "case es of [] \<Rightarrow> False | e # es' \<Rightarrow>
       if me_user_key e = k
       then \<exists>s'. next_mvcc_entry s = (Some (Inr e), s') \<and> viewed s' es' \<and>
              current s' = Some k \<and> same_scope s s'
       else \<exists>s'. next_mvcc_entry s = (None, s') \<and> viewed s' es \<and>
              current s' = Some k \<and> same_scope s s'"
    if vw: "viewed s es" and cur: "current s = Some k" and cch: "cached s = Some e" for s e
  proof -
    obtain es' where es: "es = e # es'"
      using vw cch by (auto simp: viewed_def cached_list_def)
    then have "viewed (s\<lparr>sn_core := (sn_core s)\<lparr>core_cached_entry := None\<rparr>\<rparr>) es'"
      using vw cch by (auto simp: viewed_def cached_list_def)
    with es vw cur cch show ?thesis
      by (simp add: next_mvcc_entry_cached is_current_key_def)
  qed
  show ?thesis
  proof (cases "cached s")
    case (Some e)
    with hit [OF assms Some] show ?thesis
      by (cases es) simp_all
  next
    case None
    note unf = next_mvcc_entry_empty [OF None]
    from assms(1) None have v: "viewed s (cached_list (sn_core s) @ es)"
      by (simp add: viewed_def cached_list_def)
    show ?thesis
    proof (cases es)
      case Nil
      with next_entry_viewed [OF v] None assms(2) show ?thesis
        by (auto simp: unf cached_list_def)
    next
      case (Cons e es')
      then obtain core where step: "next_entry (sn_table_id s) (sn_core s) = (Some (Inr ()), core)"
        and core: "core_cached_entry core = Some e" "core_current_key core = current s"
          "viewed (s\<lparr>sn_core := core\<rparr>) es"
        using next_entry_viewed [OF v] by auto
      have "next_mvcc_entry s = next_mvcc_entry (s\<lparr>sn_core := core\<rparr>)"
        by (simp add: unf step)
      with hit [OF core(3), of e] core(1,2) assms(2) Cons show ?thesis
        by (auto simp: same_scope_def split: if_splits)
    qed
  qed
qed

section \<open>Skipping to the next key\<close>

text \<open>
  \<open>next\<close> skips the rest of the current key; the snapshot ends at the first entry out of its
  range.
\<close>

definition rest_keys :: "snapshot \<Rightarrow> mvcc_entry list \<Rightarrow> mvcc_entry list" where
  "rest_keys s es = dropWhile (\<lambda>e. Some (me_user_key e) = current s) es"

definition iterator_spec :: "snapshot \<Rightarrow> mvcc_entry list \<Rightarrow> bool" where
  "iterator_spec s es \<longleftrightarrow>
     (case rest_keys s es of
        [] \<Rightarrow> fst (next_mvcc_iterator s) = None
      | e # es' \<Rightarrow>
          if key_valid s (me_user_key e)
          then \<exists>s'. next_mvcc_iterator s = (Some (Inr ()), s') \<and> viewed s' (e # es') \<and>
                 cached s' = Some e \<and> current s' = Some (me_user_key e) \<and> same_scope s s'
          else fst (next_mvcc_iterator s) = None)"

lemma iterator_spec_advance:
  assumes "next_entry (sn_table_id s) (sn_core s) = (Some (Inr ()), core)"
    and "next_mvcc_iterator s = next_mvcc_iterator (s\<lparr>sn_core := core\<rparr>)"
    and "core_current_key core = current s"
    and "rest_keys s es' = rest_keys s es"
    and "iterator_spec (s\<lparr>sn_core := core\<rparr>) es'"
  shows "iterator_spec s es"
proof -
  have r: "rest_keys (s\<lparr>sn_core := core\<rparr>) es' = rest_keys s es"
    using assms(3,4) by (simp add: rest_keys_def)
  have k: "key_valid (s\<lparr>sn_core := core\<rparr>) = key_valid s"
    and sc: "same_scope (s\<lparr>sn_core := core\<rparr>) = same_scope s"
    by (simp_all add: fun_eq_iff key_valid_def same_scope_def)
  show ?thesis
    using assms(5) unfolding iterator_spec_def assms(2) r k sc .
qed

lemma iterator_out:
  assumes "cached s = Some e" "\<not> key_valid s (me_user_key e)"
    and "\<And>k. current s = Some k \<Longrightarrow> key_valid s k"
  shows "iterator_spec s (e # es)"
proof -
  have "next_mvcc_iterator s = (None, s)"
    using assms(1,2) by (simp add: next_mvcc_iterator.simps [of s] out_of_range_iff)
  moreover have "rest_keys s (e # es) = e # es"
    using assms(2,3) by (auto simp: rest_keys_def)
  ultimately show ?thesis
    using assms(2) by (simp add: iterator_spec_def)
qed

lemma iterator_hit:
  assumes "viewed s (e # es)" "cached s = Some e" "key_valid s (me_user_key e)"
    and "current s \<noteq> Some (me_user_key e)"
  shows "iterator_spec s (e # es)"
proof -
  let ?s = "s\<lparr>sn_core := (sn_core s)\<lparr>core_current_key := Some (me_user_key e)\<rparr>\<rparr>"
  have "\<not> is_current_key (sn_core s) (me_user_key e)"
    using assms(4) by (auto simp: is_current_key_def split: option.splits)
  then have "next_mvcc_iterator s = (Some (Inr ()), ?s)"
    using assms(2,3) by (simp add: next_mvcc_iterator.simps [of s] out_of_range_iff)
  moreover have "rest_keys s (e # es) = e # es"
    using assms(4) by (auto simp: rest_keys_def)
  moreover have "viewed ?s (e # es)"
    using assms(1) by (simp add: viewed_def cached_list_def)
  ultimately show ?thesis
    using assms(2,3) by (simp add: iterator_spec_def)
qed

lemma iterator_cached:
  assumes "viewed s (e # es)" "cached s = Some e" "\<And>k. current s = Some k \<Longrightarrow> key_valid s k"
  shows "iterator_spec s (e # es)"
  using assms
proof (induction es arbitrary: s e)
  case Nil
  show ?case
  proof (cases "key_valid s (me_user_key e) \<and> current s = Some (me_user_key e)")
    case True
    have v: "viewed s (cached_list (sn_core s) @ [])"
      using Nil.prems(1,2) by (simp add: cached_list_def)
    obtain core where "next_entry (sn_table_id s) (sn_core s) = (None, core)"
      using next_entry_viewed [OF v] by auto
    with True Nil.prems(2) show ?thesis
      by (simp add: iterator_spec_def rest_keys_def next_mvcc_iterator.simps [of s]
          out_of_range_iff is_current_key_def)
  next
    case False
    then consider "\<not> key_valid s (me_user_key e)"
      | "key_valid s (me_user_key e)" "current s \<noteq> Some (me_user_key e)"
      by blast
    then show ?thesis
      using iterator_out [OF Nil.prems(2) _ Nil.prems(3)] iterator_hit [OF Nil.prems(1,2)]
      by cases
  qed
next
  case (Cons e' es)
  show ?case
  proof (cases "key_valid s (me_user_key e) \<and> current s = Some (me_user_key e)")
    case True
    have v: "viewed s (cached_list (sn_core s) @ e' # es)"
      using Cons.prems(1,2) by (simp add: cached_list_def)
    obtain core where step: "next_entry (sn_table_id s) (sn_core s) = (Some (Inr ()), core)"
      and core: "core_cached_entry core = Some e'" "core_current_key core = current s"
        "viewed (s\<lparr>sn_core := core\<rparr>) (e' # es)"
      using next_entry_viewed [OF v] by auto
    have "next_mvcc_iterator s = next_mvcc_iterator (s\<lparr>sn_core := core\<rparr>)"
      using True Cons.prems(2)
      by (simp add: next_mvcc_iterator.simps [of s] out_of_range_iff is_current_key_def step)
    moreover have "iterator_spec (s\<lparr>sn_core := core\<rparr>) (e' # es)"
    proof (rule Cons.IH)
      show "viewed (s\<lparr>sn_core := core\<rparr>) (e' # es)" by (rule core(3))
      show "cached (s\<lparr>sn_core := core\<rparr>) = Some e'" using core(1) by simp
      show "key_valid (s\<lparr>sn_core := core\<rparr>) k" if "current (s\<lparr>sn_core := core\<rparr>) = Some k" for k
        using that core(2) Cons.prems(3) [of k] by simp
    qed
    moreover have "rest_keys s (e' # es) = rest_keys s (e # e' # es)"
      using True by (simp add: rest_keys_def)
    ultimately show ?thesis
      using step core(2) by - (rule iterator_spec_advance)
  next
    case False
    then consider "\<not> key_valid s (me_user_key e)"
      | "key_valid s (me_user_key e)" "current s \<noteq> Some (me_user_key e)"
      by blast
    then show ?thesis
      using iterator_out [OF Cons.prems(2) _ Cons.prems(3)] iterator_hit [OF Cons.prems(1,2)]
      by cases
  qed
qed

lemma next_mvcc_iterator_viewed:
  assumes "viewed s es" "\<And>k. current s = Some k \<Longrightarrow> key_valid s k"
  shows "iterator_spec s es"
proof (cases "cached s")
  case (Some e)
  then obtain es' where "es = e # es'"
    using assms(1) by (auto simp: viewed_def cached_list_def)
  with assms Some show ?thesis
    by (auto intro: iterator_cached)
next
  case None
  note unf = next_mvcc_iterator.simps [of s]
  from assms(1) None have v: "viewed s (cached_list (sn_core s) @ es)"
    by (simp add: viewed_def cached_list_def)
  show ?thesis
  proof (cases es)
    case Nil
    with next_entry_viewed [OF v] None show ?thesis
      by (auto simp: iterator_spec_def rest_keys_def unf)
  next
    case (Cons e es')
    then obtain core where step: "next_entry (sn_table_id s) (sn_core s) = (Some (Inr ()), core)"
      and core: "core_cached_entry core = Some e" "core_current_key core = current s"
        "viewed (s\<lparr>sn_core := core\<rparr>) es"
      using next_entry_viewed [OF v] by auto
    have "iterator_spec (s\<lparr>sn_core := core\<rparr>) es"
      using core assms(2) unfolding Cons by (intro iterator_cached) simp_all
    moreover have "next_mvcc_iterator s = next_mvcc_iterator (s\<lparr>sn_core := core\<rparr>)"
      using None by (simp add: unf step)
    ultimately show ?thesis
      using step core(2) by - (rule iterator_spec_advance, simp_all)
  qed
qed

section \<open>The abstract contents\<close>

definition content_of :: "bytes \<Rightarrow> bytes option" where
  "content_of b = (case b of [] \<Rightarrow> None | tag # c \<Rightarrow> if tag = TOMBSTONE then None else Some c)"

text \<open>A row maps the versions of a key to a content, or to \<^const>\<open>None\<close> for a tombstone.\<close>

definition row :: "(bytes \<rightharpoonup> bytes) \<Rightarrow> u64 \<Rightarrow> bytes \<Rightarrow> u64 \<rightharpoonup> bytes option" where
  "row m t uk v = map_option content_of (m (mvcc_key_bytes t uk v))"

definition is_history :: "(bytes \<rightharpoonup> bytes) \<Rightarrow> u64 \<Rightarrow> bytes \<Rightarrow> kv_value list \<Rightarrow> bool" where
  "is_history m t uk vs \<longleftrightarrow>
     sorted_wrt (\<lambda>x y. v_version y < v_version x) vs \<and>
     (\<forall>x. x \<in> set vs \<longleftrightarrow> row m t uk (v_version x) = Some (v_content x))"

text \<open>
  Every key of the column family belongs to the local table or is an encoded row version with a
  tagged value.
\<close>

definition wf_store :: "(bytes \<rightharpoonup> bytes) \<Rightarrow> bool" where
  "wf_store m \<longleftrightarrow>
     (\<forall>a b. m a = Some b \<longrightarrow> 8 \<le> length a \<and>
        (take 8 a \<noteq> to_le_bytes LOCAL_TABLE_ID \<longrightarrow>
           b \<noteq> [] \<and> (\<exists>t uk v. uk \<noteq> [] \<and> a = mvcc_key_bytes t uk v)))"

lemma wf_storeD:
  assumes "wf_store m" "m a = Some b" "t \<noteq> LOCAL_TABLE_ID" "take 8 a = to_le_bytes t"
  obtains uk v where "uk \<noteq> []" "a = mvcc_key_bytes t uk v" "b \<noteq> []"
proof -
  have "b \<noteq> [] \<and> (\<exists>t uk v. uk \<noteq> [] \<and> a = mvcc_key_bytes t uk v)"
    using assms by (simp add: wf_store_def)
  then obtain t' uk v where "b \<noteq> []" "uk \<noteq> []" "a = mvcc_key_bytes t' uk v"
    by blast
  moreover from this assms(4) have "t' = t"
    by simp
  ultimately show ?thesis
    using that by blast
qed

definition entry_before :: "mvcc_entry \<Rightarrow> mvcc_entry \<Rightarrow> bool" where
  "entry_before a b \<longleftrightarrow>
     me_user_key a < me_user_key b \<or>
     me_user_key a = me_user_key b \<and> entry_version b < entry_version a"

definition shows_rows :: "(bytes \<rightharpoonup> bytes) \<Rightarrow> u64 \<Rightarrow> bytes \<Rightarrow> mvcc_entry list \<Rightarrow> bool" where
  "shows_rows m t k es \<longleftrightarrow>
     (\<forall>e\<in>set es. is_item t e \<and> me_value e \<noteq> []) \<and> sorted_wrt entry_before es \<and>
     (\<forall>uk v b. mvcc_item t uk v b \<in> set es \<longleftrightarrow> m (mvcc_key_bytes t uk v) = Some b \<and> k \<le> uk)"

lemma raw_le_mvcc_key:
  "uk \<noteq> [] \<Longrightarrow> raw t k \<le> mvcc_key_bytes t uk v \<longleftrightarrow> k \<le> uk"
proof (cases "k = []")
  case True
  then show ?thesis
    by (simp add: raw_def mvcc_key_bytes_def)
next
  case False
  assume "uk \<noteq> []"
  moreover have "v \<le> - 1"
    by (rule word_order.extremum)
  ultimately have "mvcc_key_bytes t k (- 1) \<le> mvcc_key_bytes t uk v \<longleftrightarrow> k \<le> uk"
    using False by (auto simp: le_less mvcc_key_bytes_less mvcc_key_bytes_inject)
  with False show ?thesis
    by (simp add: raw_def)
qed

lemma take_raw [simp]: "take 8 (raw t k) = to_le_bytes t"
  by (simp add: raw_def)

text \<open>From the start key on, the entries of the table come first, and no other table follows it.\<close>

lemma table_first:
  assumes srt: "sorted_wrt (<) (map fst xs)" and low: "\<forall>p\<in>set xs. raw t k \<le> fst p"
  shows "takeWhile (\<lambda>p. take 8 (fst p) = to_le_bytes t) xs
       = filter (\<lambda>p. take 8 (fst p) = to_le_bytes t) xs"
proof (rule takeWhile_eq_filter)
  have "sorted_wrt (\<lambda>x y. fst x < fst y) xs"
    using srt by (simp add: sorted_wrt_map)
  then show "sorted_wrt (\<lambda>x y. take 8 (fst y) = to_le_bytes t \<longrightarrow> take 8 (fst x) = to_le_bytes t) xs"
  proof (rule sorted_wrt_mono_rel [rotated])
    fix x y assume "x \<in> set xs" "y \<in> set xs" "fst x < fst y"
    then have "to_le_bytes t \<le> take 8 (fst x)" "take 8 (fst x) \<le> take 8 (fst y)"
      using low take_le_take [of "raw t k" "fst x" 8] take_le_take [of "fst x" "fst y" 8]
      by simp_all
    then show "take 8 (fst y) = to_le_bytes t \<longrightarrow> take 8 (fst x) = to_le_bytes t"
      by auto
  qed
qed

lemma dropWhile_not:
  "takeWhile P xs = filter P xs \<Longrightarrow> x \<in> set (dropWhile P xs) \<Longrightarrow> \<not> P x"
  by (induction xs) (auto simp: filter_empty_conv eq_commute [of "[]"] split: if_splits)

definition to_item :: "bytes \<times> bytes \<Rightarrow> mvcc_entry" where
  "to_item p =
     \<lparr>me_key = fst p, me_user_key = decode_groups (drop 8 (take (length (fst p) - 8) (fst p))),
      me_value = snd p\<rparr>"

lemma to_item_mvcc: "to_item (mvcc_key_bytes t uk v, b) = mvcc_item t uk v b"
  by (simp add: to_item_def mvcc_item_def mvcc_key_bytes_def)

lemma raw_to_item [simp]: "raw_item (to_item p) = p"
  by (simp add: raw_item_def to_item_def)

lemma mvcc_item_eq_to_item:
  "mvcc_item t uk v b = to_item p \<longleftrightarrow> p = (mvcc_key_bytes t uk v, b)"
  by (metis raw_to_item to_item_mvcc)

context ordered_store
begin

lemma iter_shows_rows:
  assumes wf: "wf_store (cont d)" and t: "t \<noteq> LOCAL_TABLE_ID"
  obtains es ns where "x_iter X d (raw t k) = map (Inr \<circ> raw_item) es @ map Inr ns"
    "shows_rows (cont d) t k es"
    "\<forall>p\<in>set ns. 8 \<le> length (fst p) \<and> take 8 (fst p) \<noteq> to_le_bytes t"
proof -
  let ?P = "\<lambda>p. take 8 (fst p) = to_le_bytes t"
  obtain xs where it: "x_iter X d (raw t k) = map Inr xs"
    and srt: "sorted_wrt (<) (map fst xs)"
    and mem: "\<And>a b. (a, b) \<in> set xs \<longleftrightarrow> cont d a = Some b \<and> raw t k \<le> a"
    by (rule store_iterE [of d "raw t k"]) blast
  have low: "\<forall>p\<in>set xs. raw t k \<le> fst p"
  proof
    fix p assume "p \<in> set xs"
    then show "raw t k \<le> fst p"
      using mem [of "fst p" "snd p"] by simp
  qed
  note tw = table_first [OF srt low]
  let ?ms = "filter ?P xs" and ?ns = "dropWhile ?P xs"
  let ?es = "map to_item ?ms"
  have item: "\<exists>uk v. uk \<noteq> [] \<and> a = mvcc_key_bytes t uk v \<and> b \<noteq> []" if "(a, b) \<in> set ?ms" for a b
  proof -
    have "cont d a = Some b" "take 8 a = to_le_bytes t"
      using that by (simp_all add: mem)
    then show ?thesis
      by (blast elim: wf_storeD [OF wf _ t])
  qed
  have xs: "xs = ?ms @ ?ns"
    using takeWhile_dropWhile_id [of ?P xs] unfolding tw by (rule sym)
  have "x_iter X d (raw t k) = map Inr (?ms @ ?ns)"
    unfolding it by (rule arg_cong [OF xs])
  then have "x_iter X d (raw t k) = map (Inr \<circ> raw_item) ?es @ map Inr ?ns"
    by (simp add: comp_def)
  moreover have "shows_rows (cont d) t k ?es"
    unfolding shows_rows_def
  proof (intro conjI allI ballI)
    fix e assume "e \<in> set ?es"
    then obtain a b where ab: "(a, b) \<in> set ?ms" and e: "e = to_item (a, b)"
      by auto
    obtain uk v where uk: "uk \<noteq> []" and a: "a = mvcc_key_bytes t uk v" and b: "b \<noteq> []"
      using item [OF ab] by blast
    have e': "e = mvcc_item t uk v b"
      by (simp add: e a to_item_mvcc)
    show "is_item t e"
      unfolding is_item_def using uk e' by blast
    show "me_value e \<noteq> []"
      using b e' by simp
  next
    have "sorted_wrt (\<lambda>p q. fst p < fst q) ?ms"
      using srt by (simp add: sorted_wrt_map sorted_wrt_filter)
    then have "sorted_wrt (\<lambda>p q. entry_before (to_item p) (to_item q)) ?ms"
    proof (rule sorted_wrt_mono_rel [rotated])
      fix p q assume pq: "p \<in> set ?ms" "q \<in> set ?ms" "fst p < fst q"
      obtain uk v b where "uk \<noteq> []" "p = (mvcc_key_bytes t uk v, b)"
        using item [of "fst p" "snd p"] pq(1) by (cases p) auto
      moreover obtain uk' v' b' where "uk' \<noteq> []" "q = (mvcc_key_bytes t uk' v', b')"
        using item [of "fst q" "snd q"] pq(2) by (cases q) auto
      ultimately show "entry_before (to_item p) (to_item q)"
        using pq(3) by (simp add: to_item_mvcc entry_before_def mvcc_key_bytes_less)
    qed
    then show "sorted_wrt entry_before ?es"
      by (simp add: sorted_wrt_map)
  next
    fix uk v b
    have "mvcc_item t uk v b \<in> set ?es \<longleftrightarrow>
        cont d (mvcc_key_bytes t uk v) = Some b \<and> raw t k \<le> mvcc_key_bytes t uk v"
      by (simp add: image_iff mvcc_item_eq_to_item Bex_def mem conj_ac)
    moreover have "uk \<noteq> []" if "cont d (mvcc_key_bytes t uk v) = Some b"
      by (rule wf_storeD [OF wf that t]) (simp_all add: mvcc_key_bytes_inject)
    ultimately show "mvcc_item t uk v b \<in> set ?es \<longleftrightarrow>
        cont d (mvcc_key_bytes t uk v) = Some b \<and> k \<le> uk"
      using raw_le_mvcc_key by auto
  qed
  moreover have "\<forall>p\<in>set ?ns. 8 \<le> length (fst p) \<and> \<not> ?P p"
  proof
    fix p assume p: "p \<in> set ?ns"
    have "\<not> ?P p"
      using dropWhile_not [OF tw p] .
    moreover have "8 \<le> length (fst p)"
    proof (cases p)
      case (Pair a b)
      then have "cont d a = Some b"
        using set_dropWhileD [OF p] by (simp add: mem)
      with wf Pair show ?thesis
        by (simp add: wf_store_def)
    qed
    ultimately show "8 \<le> length (fst p) \<and> \<not> ?P p" by blast
  qed
  ultimately show ?thesis
    using that by blast
qed

end

end
