(* ===== verification/Point_Reads.thy ===== *)
theory Point_Reads
  imports Mvcc_View
begin

text \<open>
  What the point reads of the engine return, in terms of the abstract contents of
  \<open>Mvcc_View\<close>: the history of a key is the list of its versions, newest first, and a write
  batch built with \<open>put\<close>, \<open>tombstone\<close> and \<open>delete\<close> changes exactly the versions it names.
\<close>

section \<open>Values of entries\<close>

definition value_of :: "mvcc_entry \<Rightarrow> kv_value" where
  "value_of e = \<lparr>v_content = content_of (me_value e), v_version = entry_version e\<rparr>"

lemma value_of_simps [simp]:
  "v_content (value_of e) = content_of (me_value e)"
  "v_version (value_of e) = entry_version e"
  by (simp_all add: value_of_def)

lemma entry_value_content: "me_value e \<noteq> [] \<Longrightarrow> entry_value e = Inr (content_of (me_value e))"
  by (cases "me_value e") (simp_all add: entry_value_def content_of_def)

lemma entry_into_value_of: "me_value e \<noteq> [] \<Longrightarrow> entry_into e = Inr (value_of e)"
  by (cases "me_value e") (simp_all add: entry_into_def entry_value_def value_of_def content_of_def)

lemma content_of_values [simp]:
  "content_of (values_data c) = Some c" "content_of values_tombstone = None"
  by (simp_all add: content_of_def values_data_def values_tombstone_def DATA_def TOMBSTONE_def)

abbreviation of_key :: "bytes \<Rightarrow> mvcc_entry \<Rightarrow> bool" where
  "of_key k \<equiv> (\<lambda>e. me_user_key e = k)"

section \<open>Histories\<close>

lemma is_historyD:
  "is_history m t k vs \<Longrightarrow> x \<in> set vs \<longleftrightarrow> row m t k (v_version x) = Some (v_content x)"
  by (simp add: is_history_def)

lemma is_history_row:
  "is_history m t k vs \<Longrightarrow>
    row m t k v = Some c \<longleftrightarrow> \<lparr>v_content = c, v_version = v\<rparr> \<in> set vs"
  by (simp add: is_historyD)

lemma is_history_Nil: "is_history m t k [] \<longleftrightarrow> (\<forall>v. row m t k v = None)"
proof
  assume h: "is_history m t k []"
  show "\<forall>v. row m t k v = None"
  proof
    fix v
    show "row m t k v = None"
      using is_history_row [OF h, of v] by (cases "row m t k v") auto
  qed
qed (simp add: is_history_def)

lemma is_history_unique:
  assumes "is_history m t k vs" "is_history m t k ws"
  shows "vs = ws"
proof -
  have set: "set vs = set ws"
    using assms by (auto simp: is_history_def)
  have srt: "sorted_wrt (<) (map v_version (rev us))" if "is_history m t k us" for us
    using that by (simp add: is_history_def sorted_wrt_map sorted_wrt_rev)
  have "map v_version (rev vs) = map v_version (rev ws)"
    using strict_sorted_equal [OF srt srt] assms set by (metis set_map set_rev)
  then have "map v_version vs = map v_version ws"
    by (simp flip: rev_map)
  moreover have "inj_on v_version (set vs \<union> set ws)"
    using assms by (intro inj_onI) (auto simp: is_history_def intro: kv_value.equality)
  ultimately show ?thesis
    by (simp add: inj_on_map_eq_map)
qed

text \<open>The newest version heads the history.\<close>

lemma is_history_newest:
  assumes "is_history m t k (x # vs)" "row m t k v = Some c"
  shows "v \<le> v_version x"
proof -
  have "\<lparr>v_content = c, v_version = v\<rparr> \<in> set (x # vs)"
    using is_history_row [OF assms(1)] assms(2) by blast
  moreover have "\<forall>y\<in>set vs. v_version y < v_version x"
    using assms(1) by (simp add: is_history_def)
  ultimately show ?thesis
    by auto
qed

section \<open>What a viewed snapshot delivers\<close>

lemma shows_rows_items:
  "shows_rows m t k es \<Longrightarrow> e \<in> set es \<Longrightarrow> is_item t e \<and> me_value e \<noteq> [] \<and> k \<le> me_user_key e"
  by (auto simp: shows_rows_def is_item_def)

lemma shows_rows_history:
  assumes rows: "shows_rows m t k es" and le: "k \<le> uk"
  shows "is_history m t uk (map value_of (filter (of_key uk) es))"
  unfolding is_history_def
proof
  have "sorted_wrt entry_before (filter (of_key uk) es)"
    using rows by (simp add: shows_rows_def sorted_wrt_filter)
  then have "sorted_wrt (\<lambda>a b. entry_version b < entry_version a) (filter (of_key uk) es)"
    by (rule sorted_wrt_mono_rel [rotated]) (auto simp: entry_before_def)
  then show "sorted_wrt (\<lambda>x y. v_version y < v_version x) (map value_of (filter (of_key uk) es))"
    by (simp add: sorted_wrt_map)
next
  have mem: "mvcc_item t uk v b \<in> set es \<longleftrightarrow> m (mvcc_key_bytes t uk v) = Some b" for v b
    using rows le by (simp add: shows_rows_def)
  have item: "\<exists>v b. e = mvcc_item t uk v b" if e: "e \<in> set es" "me_user_key e = uk" for e
  proof -
    obtain uk' v b where "e = mvcc_item t uk' v b"
      using shows_rows_items [OF rows e(1)] by (auto simp: is_item_def)
    with e(2) have "e = mvcc_item t uk v b" by simp
    then show ?thesis by blast
  qed
  show "\<forall>x. x \<in> set (map value_of (filter (of_key uk) es)) \<longleftrightarrow>
      row m t uk (v_version x) = Some (v_content x)"
  proof (intro allI iffI)
    fix x assume "x \<in> set (map value_of (filter (of_key uk) es))"
    then obtain e where e: "e \<in> set es" "me_user_key e = uk" and x: "x = value_of e"
      by auto
    obtain v b where vb: "e = mvcc_item t uk v b"
      using item [OF e] by blast
    with e have "m (mvcc_key_bytes t uk v) = Some b"
      using mem by simp
    with vb show "row m t uk (v_version x) = Some (v_content x)"
      by (simp add: x row_def)
  next
    fix x :: kv_value assume "row m t uk (v_version x) = Some (v_content x)"
    then obtain b where b: "m (mvcc_key_bytes t uk (v_version x)) = Some b"
        "content_of b = v_content x"
      by (auto simp: row_def)
    let ?e = "mvcc_item t uk (v_version x) b"
    have "value_of ?e = x"
      by (rule kv_value.equality) (simp_all add: b)
    moreover have "?e \<in> set (filter (of_key uk) es)"
      using mem b by simp
    ultimately show "x \<in> set (map value_of (filter (of_key uk) es))"
      unfolding set_map by (rule image_eqI [OF sym])
  qed
qed

lemma takeWhile_of_key:
  assumes "sorted_wrt entry_before es" "\<forall>e\<in>set es. k \<le> me_user_key e"
  shows "takeWhile (of_key k) es = filter (of_key k) es"
proof (rule takeWhile_eq_filter)
  show "sorted_wrt (\<lambda>x y. of_key k y \<longrightarrow> of_key k x) es"
    by (rule sorted_wrt_mono_rel [OF _ assms(1)]) (use assms(2) in \<open>fastforce simp: entry_before_def\<close>)
qed

lemma collect_values_viewed:
  assumes "viewed s es" "current s = Some k" "\<forall>e\<in>set es. me_value e \<noteq> []"
  shows "collect_values s vs = Inr (vs @ map value_of (takeWhile (of_key k) es))"
  using assms
proof (induction es arbitrary: s vs)
  case Nil
  then show ?case
    using next_mvcc_entry_viewed [OF Nil.prems(1,2)]
    by (cases "next_mvcc_entry s") (simp add: collect_values.simps [of s])
next
  case (Cons e es)
  show ?case
  proof (cases "me_user_key e = k")
    case True
    then obtain s' where "next_mvcc_entry s = (Some (Inr e), s')" "viewed s' es" "current s' = Some k"
      using next_mvcc_entry_viewed [OF Cons.prems(1,2)] by auto
    with True Cons.IH [of s' "vs @ [value_of e]"] Cons.prems(3) show ?thesis
      by (simp add: collect_values.simps [of s] entry_into_value_of)
  next
    case False
    then obtain s' where "next_mvcc_entry s = (None, s')"
      using next_mvcc_entry_viewed [OF Cons.prems(1,2)] by auto
    with False show ?thesis
      by (simp add: collect_values.simps [of s])
  qed
qed

section \<open>Reads of the engine\<close>

definition shards_ok :: "'db group_engine \<Rightarrow> bool" where
  "shards_ok e \<longleftrightarrow> (\<forall>i d. ge_shard_descs e i = Some d \<longrightarrow> sd_table_id d \<noteq> LOCAL_TABLE_ID)"

definition mode_start :: "shard_desc \<Rightarrow> snapshot_mode \<Rightarrow> bytes" where
  "mode_start desc mode =
     (case mode of StartMode (Some k) \<Rightarrow> k | StartMode None \<Rightarrow> start_key desc
      | KeyMode k \<Rightarrow> k | PrefixMode k \<Rightarrow> k)"

definition mode_valid :: "shard_desc \<Rightarrow> snapshot_mode \<Rightarrow> bytes \<Rightarrow> bool" where
  "mode_valid desc mode k =
     (case mode of StartMode _ \<Rightarrow> in_range (mode_start desc mode) (end_key desc) k
      | KeyMode k' \<Rightarrow> k' = k | PrefixMode p \<Rightarrow> prefix p k)"

context ordered_store
begin

lemma engine_snapshot_shows:
  assumes wf: "wf_store (cont (ge_db e))" and desc: "ge_shard_descs e sid = Some desc"
    and t: "sd_table_id desc \<noteq> LOCAL_TABLE_ID"
  obtains s es where "engine_snapshot X e sid mode = Inr s" "viewed s es"
    "shows_rows (cont (ge_db e)) (sd_table_id desc) (mode_start desc mode) es"
    "current s = None" "cached s = None" "\<And>k. key_valid s k = mode_valid desc mode k"
proof -
  let ?t = "sd_table_id desc" and ?k = "mode_start desc mode"
  have start: "snapshot_start_key desc mode = raw ?t ?k"
    by (simp add: snapshot_start_key_def mode_start_def split: snapshot_mode.splits option.splits)
  obtain es ns where it: "x_iter X (ge_db e) (raw ?t ?k) = map (Inr \<circ> raw_item) es @ map Inr ns"
    and rows: "shows_rows (cont (ge_db e)) ?t ?k es"
    and ns: "\<forall>p\<in>set ns. 8 \<le> length (fst p) \<and> take 8 (fst p) \<noteq> to_le_bytes ?t"
    by (rule iter_shows_rows [OF wf t])
  let ?s = "snapshot_new ?t (x_iter X (ge_db e) (raw ?t ?k)) mode desc"
  show ?thesis
  proof (rule that)
    show "engine_snapshot X e sid mode = Inr ?s"
      using desc by (simp add: engine_snapshot_def engine_shard_desc_def start)
    have "\<forall>e\<in>set es. is_item ?t e"
      using shows_rows_items [OF rows] by blast
    with ns it show "viewed ?s es"
      by (auto simp: viewed_def cached_list_def snapshot_new_def)
    show "shows_rows (cont (ge_db e)) ?t ?k es"
      by (rule rows)
    show "current ?s = None" "cached ?s = None"
      by (simp_all add: snapshot_new_def)
    show "key_valid ?s k = mode_valid desc mode k" for k
      by (simp add: key_valid_def mode_valid_def snapshot_new_def mode_start_def
          split: snapshot_mode.splits option.splits)
  qed
qed

text \<open>A point snapshot stands on the first version of the key, or the key has none.\<close>

lemma key_snapshot:
  assumes "wf_store (cont (ge_db e))" "ge_shard_descs e sid = Some desc"
    and "sd_table_id desc \<noteq> LOCAL_TABLE_ID"
  obtains s es where "engine_snapshot X e sid (KeyMode k) = Inr s"
    "is_history (cont (ge_db e)) (sd_table_id desc) k (map value_of (takeWhile (of_key k) es))"
    "takeWhile (of_key k) es = [] \<Longrightarrow> fst (next_mvcc_iterator s) = None"
    "takeWhile (of_key k) es \<noteq> [] \<Longrightarrow>
       \<exists>s'. next_mvcc_iterator s = (Some (Inr ()), s') \<and> viewed s' es \<and> current s' = Some k"
    "\<forall>e\<in>set es. me_value e \<noteq> []"
proof -
  obtain s es where s: "engine_snapshot X e sid (KeyMode k) = Inr s" "viewed s es"
    and rows: "shows_rows (cont (ge_db e)) (sd_table_id desc) k es"
    and none: "current s = None" and valid: "\<And>k'. key_valid s k' \<longleftrightarrow> k = k'"
    by (rule engine_snapshot_shows [OF assms, of "KeyMode k"])
      (simp add: mode_start_def mode_valid_def)
  have tw: "takeWhile (of_key k) es = filter (of_key k) es"
    using rows shows_rows_items [OF rows] by (intro takeWhile_of_key) (simp_all add: shows_rows_def)
  have spec: "iterator_spec s es"
    using s(2) none by (intro next_mvcc_iterator_viewed) simp_all
  show ?thesis
  proof (rule that)
    show "is_history (cont (ge_db e)) (sd_table_id desc) k (map value_of (takeWhile (of_key k) es))"
      unfolding tw by (rule shows_rows_history [OF rows]) simp
    show "fst (next_mvcc_iterator s) = None" if "takeWhile (of_key k) es = []"
      using spec that valid none
      by (cases es) (auto simp: iterator_spec_def rest_keys_def split: if_splits)
    show "\<exists>s'. next_mvcc_iterator s = (Some (Inr ()), s') \<and> viewed s' es \<and> current s' = Some k"
      if "takeWhile (of_key k) es \<noteq> []"
      using spec that valid none
      by (cases es) (auto simp: iterator_spec_def rest_keys_def split: if_splits)
    show "\<forall>e\<in>set es. me_value e \<noteq> []"
      using shows_rows_items [OF rows] by blast
  qed (rule s(1))
qed

lemma get_all_versions_history:
  assumes "wf_store (cont (ge_db e))" "ge_shard_descs e sid = Some desc"
    and "sd_table_id desc \<noteq> LOCAL_TABLE_ID"
  obtains vs where "get_all_versions X e sid k = Inr \<lparr>vs_user_key = k, vs_values = vs\<rparr>"
    "is_history (cont (ge_db e)) (sd_table_id desc) k vs"
proof (rule key_snapshot [OF assms, of k])
  fix s es
  let ?vs = "map value_of (takeWhile (of_key k) es)"
  assume s: "engine_snapshot X e sid (KeyMode k) = Inr s"
    and hist: "is_history (cont (ge_db e)) (sd_table_id desc) k ?vs"
    and empty: "takeWhile (of_key k) es = [] \<Longrightarrow> fst (next_mvcc_iterator s) = None"
    and found: "takeWhile (of_key k) es \<noteq> [] \<Longrightarrow>
       \<exists>s'. next_mvcc_iterator s = (Some (Inr ()), s') \<and> viewed s' es \<and> current s' = Some k"
    and vals: "\<forall>e\<in>set es. me_value e \<noteq> []"
  have "get_all_versions X e sid k = Inr \<lparr>vs_user_key = k, vs_values = ?vs\<rparr>"
  proof (cases "takeWhile (of_key k) es = []")
    case True
    with s empty show ?thesis
      by (cases "next_mvcc_iterator s") (simp add: get_all_versions_def)
  next
    case False
    then obtain s' where "next_mvcc_iterator s = (Some (Inr ()), s')" "viewed s' es"
        "current s' = Some k"
      using found by blast
    with s vals show ?thesis
      by (simp add: get_all_versions_def collect_values_viewed)
  qed
  with hist show thesis
    using that by blast
qed

lemma engine_get_newest:
  assumes "wf_store (cont (ge_db e))" "ge_shard_descs e sid = Some desc"
    and "sd_table_id desc \<noteq> LOCAL_TABLE_ID"
  obtains vs where "engine_get X e sid k = Inr (case vs of [] \<Rightarrow> None | v # _ \<Rightarrow> Some v)"
    "is_history (cont (ge_db e)) (sd_table_id desc) k vs"
proof (rule key_snapshot [OF assms, of k])
  fix s es
  let ?vs = "map value_of (takeWhile (of_key k) es)"
  assume s: "engine_snapshot X e sid (KeyMode k) = Inr s"
    and hist: "is_history (cont (ge_db e)) (sd_table_id desc) k ?vs"
    and empty: "takeWhile (of_key k) es = [] \<Longrightarrow> fst (next_mvcc_iterator s) = None"
    and found: "takeWhile (of_key k) es \<noteq> [] \<Longrightarrow>
       \<exists>s'. next_mvcc_iterator s = (Some (Inr ()), s') \<and> viewed s' es \<and> current s' = Some k"
    and vals: "\<forall>e\<in>set es. me_value e \<noteq> []"
  have "engine_get X e sid k = Inr (case ?vs of [] \<Rightarrow> None | v # _ \<Rightarrow> Some v)"
  proof (cases "takeWhile (of_key k) es = []")
    case True
    with s empty show ?thesis
      by (cases "next_mvcc_iterator s") (simp add: engine_get_def)
  next
    case False
    then obtain x es' where es: "es = x # es'" "me_user_key x = k"
      by (cases es) (auto split: if_splits)
    obtain s' where it: "next_mvcc_iterator s = (Some (Inr ()), s')" and s': "viewed s' es"
        "current s' = Some k"
      using found [OF False] by blast
    obtain s'' where "next_mvcc_entry s' = (Some (Inr x), s'')"
      using next_mvcc_entry_viewed [OF s'] es by auto
    with s it es vals show ?thesis
      by (simp add: engine_get_def entry_into_value_of)
  qed
  with hist show thesis
    using that by blast
qed

end

end
