(* ===== verification/Row_Writes.thy ===== *)
theory Row_Writes
  imports Point_Reads
begin

text \<open>
  What a committed write batch does to the abstract rows. The operations of the engine that fill a
  batch (\<open>put\<close>, \<open>tombstone\<close>, \<open>delete\<close>) are row operations: each sets or removes one version
  of one key. The group states that \<open>group_commit\<close> adds to the batch live in the local table and
  touch no row.
\<close>

section \<open>Row operations\<close>

type_synonym rows = "u64 \<Rightarrow> bytes \<Rightarrow> u64 \<rightharpoonup> bytes option"

definition row_upd :: "u64 \<Rightarrow> bytes \<Rightarrow> u64 \<Rightarrow> bytes option option \<Rightarrow> rows \<Rightarrow> rows" where
  "row_upd t k v c R = (\<lambda>t' k' v'. if t' = t \<and> k' = k \<and> v' = v then c else R t' k' v')"

lemma row_upd_same [simp]: "row_upd t k v c R t k v = c"
  by (simp add: row_upd_def)

lemma row_upd_other [simp]:
  "t' \<noteq> t \<or> k' \<noteq> k \<or> v' \<noteq> v \<Longrightarrow> row_upd t k v c R t' k' v' = R t' k' v'"
  by (auto simp: row_upd_def)

lemma row_put_data:
  "row (m(mvcc_key_bytes t k v \<mapsto> b)) = row_upd t k v (Some (content_of b)) (row m)"
  by (auto simp: row_def row_upd_def fun_eq_iff mvcc_key_bytes_inject)

lemma row_delete:
  "row (m(mvcc_key_bytes t k v := None)) = row_upd t k v None (row m)"
  by (auto simp: row_def row_upd_def fun_eq_iff mvcc_key_bytes_inject)

text \<open>A batch of row operations, in order.\<close>

datatype row_op = SetRow u64 bytes u64 "bytes option" | DelRow u64 bytes u64

fun row_op_wb :: "row_op \<Rightarrow> wb_op" where
  "row_op_wb (SetRow t k v c) =
     WbPut (mvcc_key_bytes t k v) (case c of None \<Rightarrow> values_tombstone | Some x \<Rightarrow> values_data x)"
| "row_op_wb (DelRow t k v) = WbDelete (mvcc_key_bytes t k v)"

fun row_op_key :: "row_op \<Rightarrow> bytes" where
  "row_op_key (SetRow t k v c) = k"
| "row_op_key (DelRow t k v) = k"

fun do_row_op :: "row_op \<Rightarrow> rows \<Rightarrow> rows" where
  "do_row_op (SetRow t k v c) R = row_upd t k v (Some c) R"
| "do_row_op (DelRow t k v) R = row_upd t k v None R"

lemma row_apply_op: "row (apply_wb_op (row_op_wb op) m) = do_row_op op (row m)"
  by (cases op) (simp_all add: row_put_data row_delete split: option.splits)

lemma row_apply_wb: "row (apply_wb (map row_op_wb ops) m) = fold do_row_op ops (row m)"
  by (induction ops arbitrary: m) (simp_all add: row_apply_op)

section \<open>Well-formed stores stay so\<close>

definition local_key :: "bytes \<Rightarrow> bool" where
  "local_key a \<longleftrightarrow> 8 \<le> length a \<and> take 8 a = to_le_bytes LOCAL_TABLE_ID"

lemma local_keys [simp]:
  "local_key apply_state_key" "local_key descriptor_key" "local_key move_shard_state_key"
  by (simp_all add: local_key_def apply_state_key_def descriptor_key_def move_shard_state_key_def)

lemma wf_store_row_op:
  assumes "wf_store m" "row_op_key op \<noteq> []"
  shows "wf_store (apply_wb_op (row_op_wb op) m)"
proof (cases op)
  case (SetRow t k v c)
  have "8 \<le> length (mvcc_key_bytes t k v)"
    using length_mvcc_key_bytes [of t k v] by simp
  with assms SetRow show ?thesis
    by (auto simp: wf_store_def values_data_def values_tombstone_def split: option.splits)
next
  case (DelRow t k v)
  with assms show ?thesis
    by (auto simp: wf_store_def)
qed

lemma wf_store_rows:
  "wf_store m \<Longrightarrow> \<forall>op\<in>set ops. row_op_key op \<noteq> [] \<Longrightarrow> wf_store (apply_wb (map row_op_wb ops) m)"
  by (induction ops arbitrary: m) (simp_all add: wf_store_row_op)

lemma wf_store_local:
  "wf_store m \<Longrightarrow> \<forall>op\<in>set ops. local_key (wb_op_key op) \<Longrightarrow> wf_store (apply_wb ops m)"
proof (induction ops arbitrary: m)
  case (Cons op ops)
  have "wf_store (apply_wb_op op m)"
    using Cons.prems by (cases op) (auto simp: wf_store_def local_key_def)
  with Cons show ?case by simp
qed simp

lemma row_local:
  assumes "\<forall>op\<in>set ops. local_key (wb_op_key op)" "t \<noteq> LOCAL_TABLE_ID"
  shows "row (apply_wb ops m) t k v = row m t k v"
proof -
  have "mvcc_key_bytes t k v \<notin> wb_op_key ` set ops"
  proof
    assume "mvcc_key_bytes t k v \<in> wb_op_key ` set ops"
    then have "local_key (mvcc_key_bytes t k v)"
      using assms(1) by auto
    with assms(2) show False
      by (simp add: local_key_def)
  qed
  then show ?thesis
    by (simp add: row_def apply_wb_other)
qed

lemma states_write_local: "\<forall>op\<in>set (states_write X st). local_key (wb_op_key op)"
  by (auto simp: states_write_def split: option.splits if_splits)

section \<open>Filling and committing a batch\<close>

lemma engine_put_Inr:
  "engine_put e wb sid k c v = Inr wb' \<longleftrightarrow>
    (\<exists>desc. ge_shard_descs e sid = Some desc \<and> k \<noteq> [] \<and>
       wb' = wb @ [row_op_wb (SetRow (sd_table_id desc) k v (Some c))])"
  by (auto simp: engine_put_def engine_shard_desc_def mvcc_key_def bind_simps)

lemma engine_tombstone_Inr:
  "engine_tombstone e wb sid k v = Inr wb' \<longleftrightarrow>
    (\<exists>desc. ge_shard_descs e sid = Some desc \<and> k \<noteq> [] \<and>
       wb' = wb @ [row_op_wb (SetRow (sd_table_id desc) k v None)])"
  by (auto simp: engine_tombstone_def engine_shard_desc_def mvcc_key_def bind_simps)

lemma engine_delete_Inr:
  "engine_delete e wb sid k v = Inr wb' \<longleftrightarrow>
    (\<exists>desc. ge_shard_descs e sid = Some desc \<and> k \<noteq> [] \<and>
       wb' = wb @ [row_op_wb (DelRow (sd_table_id desc) k v)])"
  by (auto simp: engine_delete_def engine_shard_desc_def mvcc_key_def bind_simps)

lemmas engine_fill_Inr = engine_put_Inr engine_tombstone_Inr engine_delete_Inr

text \<open>With the shard and the key in place, the three operations succeed.\<close>

lemma engine_fill_simps:
  assumes "ge_shard_descs e sid = Some desc" "k \<noteq> []"
  shows "engine_put e wb sid k c v = Inr (wb @ [row_op_wb (SetRow (sd_table_id desc) k v (Some c))])"
    and "engine_tombstone e wb sid k v = Inr (wb @ [row_op_wb (SetRow (sd_table_id desc) k v None)])"
    and "engine_delete e wb sid k v = Inr (wb @ [row_op_wb (DelRow (sd_table_id desc) k v)])"
  using assms by (simp_all add: engine_fill_Inr)

lemma apply_core_states_db:
  "apply_core_states e desc ms = Inr e' \<Longrightarrow> ge_db e' = ge_db e"
  by (auto simp: apply_core_states_def Let_def bind_simps split: option.splits if_splits)

context ordered_store
begin

lemma group_commit_cont:
  assumes "group_commit X e wbs st = Inr e'"
  shows "cont (ge_db e') = apply_wb (states_write X st) (apply_wb (concat wbs) (cont (ge_db e)))"
proof -
  obtain db where db: "x_write X (ge_db e) (concat wbs @ states_write X st) = Inr db"
    and "ge_db e' = db"
    using assms by (auto simp: group_commit_def bind_simps Let_def split: if_splits
        dest: apply_core_states_db)
  then show ?thesis
    using store_write_Inr [OF db] by (simp add: apply_wb_append)
qed

text \<open>A commit of row operations changes these rows and nothing else.\<close>

lemma group_commit_rows:
  assumes "group_commit X e [map row_op_wb ops] st = Inr e'" "t \<noteq> LOCAL_TABLE_ID"
  shows "row (cont (ge_db e')) t = fold do_row_op ops (row (cont (ge_db e))) t"
  by (intro ext)
    (simp add: group_commit_cont [OF assms(1)] row_local [OF states_write_local assms(2)] row_apply_wb)

lemma group_commit_wf:
  assumes "group_commit X e [map row_op_wb ops] st = Inr e'" "wf_store (cont (ge_db e))"
    and "\<forall>op\<in>set ops. row_op_key op \<noteq> []"
  shows "wf_store (cont (ge_db e'))"
  using wf_store_local [OF wf_store_rows [OF assms(2,3)] states_write_local]
  by (simp add: group_commit_cont [OF assms(1)])

lemma group_commit_plain:
  "\<exists>e'. group_commit X e wbs \<lparr>ws_apply_state = a, ws_descriptor = None, ws_move_shard_state = None\<rparr>
      = Inr e' \<and> ge_shard_descs e' = ge_shard_descs e \<and> ge_group_desc e' = ge_group_desc e"
  using store_write [of "ge_db e"
      "concat wbs @ states_write X
        \<lparr>ws_apply_state = a, ws_descriptor = None, ws_move_shard_state = None\<rparr>"]
  by (auto simp: group_commit_def)

end

end
