(* ===== verification/Cas.thy ===== *)
theory Cas
  imports Api Schema
begin

text \<open>
  Write conditions (\<open>src/server/src/replica/eval/cas.rs\<close>): a write carries conditions on the
  value it replaces, and the first condition that does not hold is reported.
\<close>

definition eval_condition :: "write_condition \<Rightarrow> kv_value option \<Rightarrow> bool result" where
  "eval_condition cond v =
     (case write_condition_type_from_i32 (wc_type cond) of
        None \<Rightarrow> Inl (InvalidArgument ''Invalid WriteConditionType'')
      | Some ty \<Rightarrow>
          (case v of
             Some x \<Rightarrow> Inr
               (case ty of
                  ExpectNotExists \<Rightarrow> v_content x = None
                | ExpectExists \<Rightarrow> v_content x \<noteq> None
                | ExpectValue \<Rightarrow>
                    (case v_content x of None \<Rightarrow> False | Some c \<Rightarrow> c = wc_value cond)
                | ExpectVersion \<Rightarrow> v_version x = wc_version cond
                | ExpectVersionLt \<Rightarrow> \<not> v_version x \<ge> wc_version cond
                | ExpectVersionLe \<Rightarrow> \<not> v_version x > wc_version cond
                | ExpectVersionGt \<Rightarrow> \<not> v_version x \<le> wc_version cond
                | ExpectVersionGe \<Rightarrow> \<not> v_version x < wc_version cond
                | ExpectStartsWith \<Rightarrow>
                    (case v_content x of None \<Rightarrow> False | Some c \<Rightarrow> prefix (wc_value cond) c)
                | ExpectEndsWith \<Rightarrow>
                    (case v_content x of None \<Rightarrow> False | Some c \<Rightarrow> suffix (wc_value cond) c)
                | ExpectSlice \<Rightarrow>
                    (let idx = unat (wc_begin cond)
                     in case v_content x of None \<Rightarrow> False
                        | Some c \<Rightarrow> idx < length c \<and> prefix (wc_value cond) (drop idx c))
                | ExpectContains \<Rightarrow> True)
           | None \<Rightarrow> Inr (ty = ExpectNotExists)))"

text \<open>The loop over \<open>enumerate()\<close>, from index \<open>idx\<close> on.\<close>

fun eval_conditions_from ::
    "nat \<Rightarrow> kv_value option \<Rightarrow> write_condition list \<Rightarrow> nat option result" where
  "eval_conditions_from idx v [] = Inr None"
| "eval_conditions_from idx v (cond # conds) =
     (case eval_condition cond v of
        Inl err \<Rightarrow> Inl err
      | Inr ok \<Rightarrow> if \<not> ok then Inr (Some idx) else eval_conditions_from (Suc idx) v conds)"

definition eval_conditions ::
    "kv_value option \<Rightarrow> write_condition list \<Rightarrow> nat option result" where
  "eval_conditions v conds = eval_conditions_from 0 v conds"

section \<open>Properties\<close>

lemma eval_conditions_from_None:
  "eval_conditions_from i v conds = Inr None \<longleftrightarrow>
    (\<forall>c\<in>set conds. eval_condition c v = Inr True)"
  by (induction conds arbitrary: i) (auto split: sum.splits)

lemma eval_conditions_from_Some:
  "eval_conditions_from i v conds = Inr (Some n) \<longleftrightarrow>
    i \<le> n \<and> n - i < length conds \<and>
    (\<forall>j < n - i. eval_condition (conds ! j) v = Inr True) \<and>
    eval_condition (conds ! (n - i)) v = Inr False"
proof (induction conds arbitrary: i)
  case (Cons c conds)
  show ?case
  proof (cases "eval_condition c v")
    case (Inl err)
    then show ?thesis
      by (cases "n - i") (auto simp: All_less_Suc2)
  next
    case (Inr b)
    show ?thesis
    proof (cases b)
      case False
      with Inr show ?thesis
        by (cases "n - i") (auto simp: All_less_Suc2)
    next
      case True
      show ?thesis
      proof (cases "n - i")
        case 0
        with True Inr Cons.IH [of "Suc i"] show ?thesis
          by simp
      next
        case (Suc m)
        then have "n - Suc i = m" "Suc i \<le> n" "i \<le> n"
          by simp_all
        with True Inr Suc Cons.IH [of "Suc i"] show ?thesis
          by (simp add: All_less_Suc2)
      qed
    qed
  qed
qed simp

lemma eval_conditions_from_Inl:
  "eval_conditions_from i v conds = Inl err \<Longrightarrow>
    \<exists>c\<in>set conds. write_condition_type_from_i32 (wc_type c) = None"
proof (induction conds arbitrary: i)
  case (Cons c conds)
  show ?case
  proof (cases "eval_condition c v")
    case (Inl e)
    then show ?thesis
      by (auto simp: eval_condition_def split: option.splits)
  next
    case (Inr b)
    with Cons show ?thesis
      by (auto split: if_splits)
  qed
qed simp

text \<open>
  C13. A write goes ahead exactly when all of its conditions hold for the value it replaces, and
  otherwise the index reported is that of the first condition that fails, all those before it
  holding.
\<close>

theorem eval_conditions_first_failure:
  "(eval_conditions v conds = Inr None \<longleftrightarrow> (\<forall>c\<in>set conds. eval_condition c v = Inr True)) \<and>
   (eval_conditions v conds = Inr (Some n) \<longleftrightarrow>
      n < length conds \<and> (\<forall>c\<in>set (take n conds). eval_condition c v = Inr True) \<and>
      eval_condition (conds ! n) v = Inr False)"
proof -
  have "(\<forall>j < n. eval_condition (conds ! j) v = Inr True) \<longleftrightarrow>
      (\<forall>c\<in>set (take n conds). eval_condition c v = Inr True)" if "n < length conds"
    using that by (auto simp: all_set_conv_all_nth)
  then show ?thesis
    by (auto simp: eval_conditions_def eval_conditions_from_None eval_conditions_from_Some)
qed

theorem eval_conditions_first_failure_witness:
  "let v = Some (value_with_value [1, 2] 7);
       ok = \<lparr>wc_type = 0, wc_value = [], wc_version = 0, wc_begin = 0\<rparr>;
       bad = \<lparr>wc_type = 8, wc_value = [2], wc_version = 0, wc_begin = 0\<rparr>
   in eval_conditions v [ok, bad] = Inr (Some 1)"
  using eval_conditions_first_failure
    [of "Some (value_with_value [1, 2] 7)"
        "[\<lparr>wc_type = 0, wc_value = [], wc_version = 0, wc_begin = 0\<rparr>,
          \<lparr>wc_type = 8, wc_value = [2], wc_version = 0, wc_begin = 0\<rparr>]" 1]
  by (simp add: eval_condition_def write_condition_type_from_i32_def value_with_value_def)

end
