(* ===== verification/Eval_Txn.thy ===== *)
theory Eval_Txn
  imports Row_Writes Cas Rock
begin

text \<open>
  The transaction commands (\<open>src/server/src/replica/eval/cmd_txn.rs\<close>): writing, committing and
  clearing the intent of a transaction on one key, together with the deferred latch guard of
  \<open>latch.rs\<close> they work under and the request context of \<open>replica/mod.rs\<close>.

  A latch guard is of any type \<open>'l\<close>; resolving a foreign transaction through it (\<open>resolve\<close>) may
  wait, propose writes and let other requests run, so it is a function from the engine to the
  engine found afterwards. The loop that resolves foreign intents may run forever, hence
  \<open>read_first_non_intent_key\<close> and \<open>write_intent\<close> are partial: \<^const>\<open>None\<close> means that they do
  not return.
\<close>

section \<open>Request context and latch guards\<close>

record exec_ctx =
  ec_group_id :: u64
  ec_replica_id :: u64
  ec_forward_shard_id :: "u64 option"
  ec_epoch :: u64
  ec_watch_event_sender :: "nat option"
  ec_move_shard_desc :: "move_shard_desc option"

definition exec_ctx_default :: exec_ctx where
  "exec_ctx_default =
     \<lparr>ec_group_id = 0, ec_replica_id = 0, ec_forward_shard_id = None, ec_epoch = 0,
      ec_watch_event_sender = None, ec_move_shard_desc = None\<rparr>"

record 'l defer_guard =
  dg_state :: "(txn_state \<times> u64 option) option"
  dg_latches :: "shard_key \<rightharpoonup> 'l"

type_synonym ('l, 'db) resolver =
  "'l \<Rightarrow> txn_intent \<Rightarrow> 'db group_engine \<Rightarrow> kv_value option result \<times> 'l \<times> 'db group_engine"

definition defer_resolve_txn ::
    "('l, 'db) resolver \<Rightarrow> 'l defer_guard \<Rightarrow> 'db group_engine \<Rightarrow> u64 \<Rightarrow> bytes \<Rightarrow> txn_intent \<Rightarrow>
     kv_value option result \<times> 'l defer_guard \<times> 'db group_engine" where
  "defer_resolve_txn resolve g e shard_id key txn_intent =
     (let k = \<lparr>sk_shard_id = shard_id, sk_user_key = key\<rparr>
      in case dg_latches g k of
           None \<Rightarrow> (Inl (InvalidData ''resolve txn but not hold the latch''), g, e)
         | Some latch \<Rightarrow>
             (case resolve latch txn_intent e of
                (r, latch', e') \<Rightarrow> (r, g\<lparr>dg_latches := (dg_latches g)(k \<mapsto> latch')\<rparr>, e')))"

definition defer_signal_all ::
    "'l defer_guard \<Rightarrow> txn_state \<Rightarrow> u64 option \<Rightarrow> 'l defer_guard" where
  "defer_signal_all g st commit_version = g\<lparr>dg_state := Some (st, commit_version)\<rparr>"

text \<open>What a command does first when the shard of its keys is being moved away.\<close>

fun all_versions_of ::
    "'db ext \<Rightarrow> 'db group_engine \<Rightarrow> u64 \<Rightarrow> bytes list \<Rightarrow> value_set list result" where
  "all_versions_of X e shard_id [] = Inr []"
| "all_versions_of X e shard_id (k # ks) =
     rbind (get_all_versions X e shard_id k) (\<lambda>v.
     rbind (all_versions_of X e shard_id ks) (\<lambda>vs. Inr (v # vs)))"

definition forward_moving ::
    "'db ext \<Rightarrow> exec_ctx \<Rightarrow> 'db group_engine \<Rightarrow> u64 \<Rightarrow> bytes list \<Rightarrow> unit result" where
  "forward_moving X ctx e req_shard_id keys =
     (case ec_move_shard_desc ctx of
        None \<Rightarrow> Inr ()
      | Some desc \<Rightarrow>
          (case msd_shard_desc desc of
             None \<Rightarrow> Inl (Panic ''called `Option::unwrap()` on a `None` value'')
           | Some shard \<Rightarrow>
               if sd_id shard = req_shard_id
               then rbind (all_versions_of X e req_shard_id keys) (\<lambda>payloads.
                      Inl (Forward \<lparr>fc_shard_id = sd_id shard, fc_dest_group_id = msd_dest_group_id desc,
                                    fc_payloads = payloads\<rparr>))
               else Inr ()))"

section \<open>Reading intents\<close>

definition apply_put_op ::
    "put_type \<Rightarrow> kv_value option \<Rightarrow> bytes \<Rightarrow> bytes option result" where
  "apply_put_op ty prev_value v =
     (case ty of
        AddI64 \<Rightarrow>
          rbind (ok_or (InvalidArgument ''input value is not a valid i64'') (decode_i64 v)) (\<lambda>delta.
          rbind (case Option.bind prev_value v_content of
                   Some content \<Rightarrow>
                     ok_or (InvalidArgument ''the exists value is not a valid i64'')
                       (decode_i64 content)
                 | None \<Rightarrow> Inr 0) (\<lambda>former_value.
            Inr (Some (to_be_bytes (former_value + delta)))))
      | PutNone \<Rightarrow> Inr (Some v)
      | Nop \<Rightarrow> Inr None)"

definition is_atomic_operation :: "write_request \<Rightarrow> bool" where
  "is_atomic_operation write =
     (case write of
        Put put \<Rightarrow> put_conditions put = [] \<and> put_put_type put = put_type_i32 AddI64
      | Delete _ \<Rightarrow> False)"

text \<open>The accessor \<open>put_type()\<close> of the generated code reads an unknown number as the default.\<close>

definition put_type_of :: "put_request \<Rightarrow> put_type" where
  "put_type_of put =
     (case put_type_from_i32 (put_put_type put) of None \<Rightarrow> PutNone | Some ty \<Rightarrow> ty)"

definition read_intent_and_next_key ::
    "'db ext \<Rightarrow> 'db group_engine \<Rightarrow> u64 \<Rightarrow> bytes \<Rightarrow> (txn_intent option \<times> kv_value option) result" where
  "read_intent_and_next_key X e shard_id key =
     rbind (engine_snapshot X e shard_id (KeyMode key)) (\<lambda>s.
       case next_mvcc_iterator s of
         (None, s) \<Rightarrow> Inr (None, None)
       | (Some (Inl err), s) \<Rightarrow> Inl err
       | (Some (Inr _), s) \<Rightarrow>
           (case next_mvcc_entry s of
              (None, s) \<Rightarrow> Inr (None, None)
            | (Some (Inl err), s) \<Rightarrow> Inl err
            | (Some (Inr entry), s) \<Rightarrow>
                if entry_version entry = TXN_INTENT_VERSION
                then rbind (entry_value entry) (\<lambda>content.
                     rbind (ok_or (InvalidData ''intent value must exist'') content) (\<lambda>content.
                     rbind (x_dec_intent X content) (\<lambda>txn_intent.
                       case next_mvcc_entry s of
                         (None, s) \<Rightarrow> Inr (Some txn_intent, None)
                       | (Some (Inl err), s) \<Rightarrow> Inl err
                       | (Some (Inr entry), s) \<Rightarrow>
                           rbind (entry_into entry) (\<lambda>v. Inr (Some txn_intent, Some v)))))
                else rbind (entry_into entry) (\<lambda>v. Inr (None, Some v))))"

partial_function (option) read_first_non_intent_key ::
    "'db ext \<Rightarrow> ('l, 'db) resolver \<Rightarrow> 'l defer_guard \<Rightarrow> 'db group_engine \<Rightarrow> u64 \<Rightarrow> u64 \<Rightarrow> bytes \<Rightarrow>
     ((bool \<times> kv_value option) result \<times> 'l defer_guard \<times> 'db group_engine) option" where
  "read_first_non_intent_key X resolve g e start_version shard_id key =
     (case read_intent_and_next_key X e shard_id key of
        Inl err \<Rightarrow> Some (Inl err, g, e)
      | Inr (None, prev_value) \<Rightarrow> Some (Inr (False, prev_value), g, e)
      | Inr (Some txn_intent, prev_value) \<Rightarrow>
          if ti_start_version txn_intent = start_version
          then Some (Inr (True, prev_value), g, e)
          else (case defer_resolve_txn resolve g e shard_id key txn_intent of
                  (Inl err, g', e') \<Rightarrow> Some (Inl err, g', e')
                | (Inr _, g', e') \<Rightarrow>
                    read_first_non_intent_key X resolve g' e' start_version shard_id key))"

definition read_target_intent ::
    "'db ext \<Rightarrow> 'db group_engine \<Rightarrow> u64 \<Rightarrow> u64 \<Rightarrow> bytes \<Rightarrow> txn_intent option result" where
  "read_target_intent X e start_version shard_id key =
     rbind (engine_get X e shard_id key) (\<lambda>v.
       case v of None \<Rightarrow> Inr None
       | Some v \<Rightarrow>
           if v_version v \<noteq> TXN_INTENT_VERSION then Inr None
           else rbind (ok_or (InvalidData ''txn intent without value'') (v_content v)) (\<lambda>content.
                rbind (x_dec_intent X content) (\<lambda>intent.
                  if ti_start_version intent \<noteq> start_version then Inr None
                  else Inr (Some intent))))"

section \<open>The commands\<close>

definition check_conflict ::
    "u64 \<Rightarrow> write_request \<Rightarrow> kv_value option \<Rightarrow> unit result" where
  "check_conflict start_version write prev_value =
     (case prev_value of
        Some v \<Rightarrow> if v_version v > start_version \<and> \<not> is_atomic_operation write
                 then Inl TxnConflict else Inr ()
      | None \<Rightarrow> Inr ())"

text \<open>The batch with the intent of a write that is not skipped.\<close>

definition write_intent_batch ::
    "'db ext \<Rightarrow> 'db group_engine \<Rightarrow> u64 \<Rightarrow> u64 \<Rightarrow> write_request \<Rightarrow> kv_value option \<Rightarrow>
     write_batch result" where
  "write_intent_batch X e shard_id start_version write prev_value =
     (case write of
        Delete del \<Rightarrow>
          rbind (eval_conditions prev_value (del_conditions del)) (\<lambda>failed.
            case failed of
              Some cond_idx \<Rightarrow> Inl (CasFailed 0 (word_of_nat cond_idx) prev_value)
            | None \<Rightarrow>
                engine_put e [] shard_id (del_key del)
                  (x_enc_intent X (intent_tombstone start_version)) TXN_INTENT_VERSION)
      | Put put \<Rightarrow>
          rbind (eval_conditions prev_value (put_conditions put)) (\<lambda>failed.
            case failed of
              Some cond_idx \<Rightarrow> Inl (CasFailed 0 (word_of_nat cond_idx) prev_value)
            | None \<Rightarrow>
                rbind (apply_put_op (put_type_of put) prev_value (put_value put)) (\<lambda>apply_value.
                  engine_put e [] shard_id (put_key put)
                    (x_enc_intent X (intent_with_put start_version apply_value))
                    TXN_INTENT_VERSION)))"

definition take_prev_value :: "write_request \<Rightarrow> bool" where
  "take_prev_value write =
     (case write of Delete del \<Rightarrow> del_take_prev_value del | Put put \<Rightarrow> put_take_prev_value put)"

definition write_intent_apply ::
    "'db ext \<Rightarrow> 'db group_engine \<Rightarrow> u64 \<Rightarrow> u64 \<Rightarrow> write_request \<Rightarrow> bool \<Rightarrow> kv_value option \<Rightarrow>
     (eval_result option \<times> write_response) result" where
  "write_intent_apply X e shard_id start_version write skip_write prev_value =
     rbind (check_conflict start_version write prev_value) (\<lambda>_.
     rbind (if skip_write then Inr []
            else write_intent_batch X e shard_id start_version write prev_value) (\<lambda>wb.
       Inr (if wb \<noteq> [] then Some (with_batch wb) else None,
            \<lparr>wr_prev_value = (if take_prev_value write then prev_value else None)\<rparr>)))"

definition write_intent ::
    "'db ext \<Rightarrow> ('l, 'db) resolver \<Rightarrow> exec_ctx \<Rightarrow> 'l defer_guard \<Rightarrow> 'db group_engine \<Rightarrow>
     write_intent_request \<Rightarrow>
     ((eval_result option \<times> write_response) result \<times> 'l defer_guard \<times> 'db group_engine) option" where
  "write_intent X resolve ctx g e req =
     (case wi_write req of
        None \<Rightarrow> Some (Inl (InvalidArgument ''`write` is required''), g, e)
      | Some write \<Rightarrow>
          (case forward_moving X ctx e (wi_shard_id req) [user_key write] of
             Inl err \<Rightarrow> Some (Inl err, g, e)
           | Inr _ \<Rightarrow>
               (case read_first_non_intent_key X resolve g e (wi_start_version req)
                       (wi_shard_id req) (user_key write) of
                  None \<Rightarrow> None
                | Some (Inl err, g, e) \<Rightarrow> Some (Inl err, g, e)
                | Some (Inr (skip_write, prev_value), g, e) \<Rightarrow>
                    Some (write_intent_apply X e (wi_shard_id req) (wi_start_version req) write
                            skip_write prev_value, g, e))))"

definition commit_batch ::
    "'db group_engine \<Rightarrow> u64 \<Rightarrow> bytes \<Rightarrow> txn_intent \<Rightarrow> u64 \<Rightarrow> write_batch result" where
  "commit_batch e shard_id key intent commit_version =
     rbind (engine_delete e [] shard_id key TXN_INTENT_VERSION) (\<lambda>wb.
       if ti_is_delete intent then engine_tombstone e wb shard_id key commit_version
       else case ti_value intent of
              Some v \<Rightarrow> engine_put e wb shard_id key v commit_version
            | None \<Rightarrow> Inr wb)"

definition commit_intent ::
    "'db ext \<Rightarrow> exec_ctx \<Rightarrow> 'l defer_guard \<Rightarrow> 'db group_engine \<Rightarrow> commit_intent_request \<Rightarrow>
     eval_result option result \<times> 'l defer_guard" where
  "commit_intent X ctx g e req =
     (case rbind (forward_moving X ctx e (ci_shard_id req) [ci_user_key req]) (\<lambda>_.
             read_target_intent X e (ci_start_version req) (ci_shard_id req) (ci_user_key req)) of
        Inl err \<Rightarrow> (Inl err, g)
      | Inr None \<Rightarrow> (Inr None, g)
      | Inr (Some intent) \<Rightarrow>
          (case commit_batch e (ci_shard_id req) (ci_user_key req) intent (ci_commit_version req) of
             Inl err \<Rightarrow> (Inl err, g)
           | Inr wb \<Rightarrow>
               (Inr (if wb = [] then None else Some (with_batch wb)),
                defer_signal_all g Committed (Some (ci_commit_version req)))))"

definition clear_intent ::
    "'db ext \<Rightarrow> exec_ctx \<Rightarrow> 'l defer_guard \<Rightarrow> 'db group_engine \<Rightarrow> clear_intent_request \<Rightarrow>
     eval_result option result \<times> 'l defer_guard" where
  "clear_intent X ctx g e req =
     (case rbind (forward_moving X ctx e (cl_shard_id req) [cl_user_key req]) (\<lambda>_.
             read_target_intent X e (cl_start_version req) (cl_shard_id req) (cl_user_key req)) of
        Inl err \<Rightarrow> (Inl err, g)
      | Inr None \<Rightarrow> (Inr None, g)
      | Inr (Some intent) \<Rightarrow>
          (case engine_delete e [] (cl_shard_id req) (cl_user_key req) TXN_INTENT_VERSION of
             Inl err \<Rightarrow> (Inl err, g)
           | Inr wb \<Rightarrow>
               (Inr (if wb = [] then None else Some (with_batch wb)),
                defer_signal_all g Aborted None)))"

end
