(* ===== verification/Txn_Spec.thy ===== *)
theory Txn_Spec
  imports Eval_Txn
begin

text \<open>
  What the transaction commands do to the rows of a group. A row holds committed versions and at
  most one intent, stored under the largest version. The lemmas reduce the reads of the commands
  to that picture; the properties say that a write intent is granted only to a transaction no
  committed version has overtaken, that committing it publishes exactly its write, and that
  repeating a command changes nothing.
\<close>

section \<open>Rows with intents\<close>

type_synonym vrow = "u64 \<rightharpoonup> bytes option"

definition latest_committed :: "vrow \<Rightarrow> kv_value option \<Rightarrow> bool" where
  "latest_committed r v \<longleftrightarrow>
     (case v of
        None \<Rightarrow> \<forall>w. w \<noteq> TXN_INTENT_VERSION \<longrightarrow> r w = None
      | Some x \<Rightarrow> v_version x \<noteq> TXN_INTENT_VERSION \<and> r (v_version x) = Some (v_content x) \<and>
          (\<forall>w. w \<noteq> TXN_INTENT_VERSION \<and> r w \<noteq> None \<longrightarrow> w \<le> v_version x))"

definition intent_of :: "'db ext \<Rightarrow> vrow \<Rightarrow> txn_intent option" where
  "intent_of X r =
     (case r TXN_INTENT_VERSION of
        Some (Some b) \<Rightarrow> (case x_dec_intent X b of Inr i \<Rightarrow> Some i | Inl _ \<Rightarrow> None)
      | _ \<Rightarrow> None)"

text \<open>Every stored intent can be decoded.\<close>

definition intent_ok :: "'db ext \<Rightarrow> vrow \<Rightarrow> bool" where
  "intent_ok X r \<longleftrightarrow> (r TXN_INTENT_VERSION = None \<or> intent_of X r \<noteq> None)"

definition engine_inv :: "'db ext \<Rightarrow> ('db \<Rightarrow> bytes \<rightharpoonup> bytes) \<Rightarrow> 'db group_engine \<Rightarrow> bool" where
  "engine_inv X cont e \<longleftrightarrow>
     wf_store (cont (ge_db e)) \<and> shards_ok e \<and>
     (\<forall>t k. t \<noteq> LOCAL_TABLE_ID \<longrightarrow> intent_ok X (row (cont (ge_db e)) t k))"

lemma intent_of_None: "intent_ok X r \<Longrightarrow> intent_of X r = None \<longleftrightarrow> r TXN_INTENT_VERSION = None"
  by (auto simp: intent_ok_def intent_of_def)

lemma intent_of_cong: "r TXN_INTENT_VERSION = r' TXN_INTENT_VERSION \<Longrightarrow> intent_of X r = intent_of X r'"
  by (simp add: intent_of_def)

lemma intent_of_SomeD:
  "intent_of X r = Some i \<Longrightarrow> \<exists>b. r TXN_INTENT_VERSION = Some (Some b) \<and> x_dec_intent X b = Inr i"
  by (auto simp: intent_of_def split: option.splits sum.splits)

lemma latest_committed_unique:
  assumes "latest_committed r v" "latest_committed r w"
  shows "v = w"
proof (cases v)
  case None
  with assms show ?thesis
    by (cases w) (auto simp: latest_committed_def)
next
  case (Some x)
  then obtain y where w: "w = Some y"
    using assms by (cases w) (auto simp: latest_committed_def)
  have xy: "v_version x \<noteq> TXN_INTENT_VERSION" "r (v_version x) = Some (v_content x)"
      "v_version y \<noteq> TXN_INTENT_VERSION" "r (v_version y) = Some (v_content y)"
    using assms by (simp_all add: Some w latest_committed_def)
  then have "v_version x \<le> v_version y" "v_version y \<le> v_version x"
    using assms by (simp_all add: Some w latest_committed_def)
  then have "v_version x = v_version y" by simp
  with xy have "x = y"
    by (intro kv_value.equality) simp_all
  with Some w show ?thesis by simp
qed

section \<open>Reads of the commands\<close>

definition hd_opt :: "'a list \<Rightarrow> 'a option" where
  "hd_opt xs = (case xs of [] \<Rightarrow> None | x # _ \<Rightarrow> Some x)"

definition split_history ::
    "'db ext \<Rightarrow> kv_value list \<Rightarrow> (txn_intent option \<times> kv_value option) result" where
  "split_history X vs =
     (case vs of
        [] \<Rightarrow> Inr (None, None)
      | v # vs' \<Rightarrow>
          if v_version v = TXN_INTENT_VERSION
          then rbind (ok_or (InvalidData ''intent value must exist'') (v_content v)) (\<lambda>content.
               rbind (x_dec_intent X content) (\<lambda>i. Inr (Some i, hd_opt vs')))
          else Inr (None, Some v))"

lemma is_history_versions:
  assumes "is_history m t k (v # vs)"
  shows "x \<in> set vs \<Longrightarrow> v_version x < v_version v"
  using assms by (simp add: is_history_def)

lemma latest_committed_history:
  assumes h: "is_history m t k vs"
  shows "latest_committed (row m t k)
    (hd_opt (dropWhile (\<lambda>x. v_version x = TXN_INTENT_VERSION) vs))"
proof -
  let ?ws = "dropWhile (\<lambda>x. v_version x = TXN_INTENT_VERSION) vs"
  have mem: "\<lparr>v_content = c, v_version = w\<rparr> \<in> set ?ws"
    if "row m t k w = Some c" "w \<noteq> TXN_INTENT_VERSION" for w c
  proof -
    have "\<lparr>v_content = c, v_version = w\<rparr> \<in> set vs"
      using is_history_row [OF h] that(1) by blast
    then have "\<lparr>v_content = c, v_version = w\<rparr>
        \<in> set (takeWhile (\<lambda>x. v_version x = TXN_INTENT_VERSION) vs) \<union> set ?ws"
      by (metis set_append takeWhile_dropWhile_id)
    then show ?thesis
      using that(2) by (auto dest: set_takeWhileD)
  qed
  show ?thesis
  proof (cases ?ws)
    case Nil
    then have "row m t k w = None" if "w \<noteq> TXN_INTENT_VERSION" for w
      using mem [unfolded Nil, of w] that by (cases "row m t k w") auto
    then show ?thesis
      unfolding Nil by (simp add: hd_opt_def latest_committed_def)
  next
    case (Cons x ws)
    have "x \<in> set vs"
      using Cons by (metis list.set_intros(1) set_dropWhileD)
    then have "row m t k (v_version x) = Some (v_content x)"
      by (simp add: is_historyD [OF h])
    moreover have "v_version x \<noteq> TXN_INTENT_VERSION"
      using Cons by (simp add: dropWhile_eq_Cons_conv)
    moreover have "w \<le> v_version x" if "w \<noteq> TXN_INTENT_VERSION" "row m t k w = Some c" for w c
    proof -
      have "sorted_wrt (\<lambda>x y. v_version y < v_version x) ?ws"
        using h by (simp add: is_history_def sorted_wrt_dropWhile)
      with mem [OF that(2,1)] Cons show ?thesis
        by auto
    qed
    ultimately show ?thesis
      unfolding Cons by (auto simp: hd_opt_def latest_committed_def)
  qed
qed

lemma split_history_row:
  assumes h: "is_history m t k vs" and ok: "intent_ok X (row m t k)"
  shows "split_history X vs =
    Inr (intent_of X (row m t k), hd_opt (dropWhile (\<lambda>x. v_version x = TXN_INTENT_VERSION) vs))"
proof (cases vs)
  case Nil
  then have "row m t k TXN_INTENT_VERSION = None"
    using h by (simp add: is_history_Nil)
  with Nil show ?thesis
    by (simp add: split_history_def hd_opt_def intent_of_def)
next
  case (Cons v ws)
  have v: "row m t k (v_version v) = Some (v_content v)"
    using is_historyD [OF h, of v] Cons by simp
  have less: "v_version x < v_version v" if "x \<in> set ws" for x
    using is_history_versions [OF h [unfolded Cons] that] .
  show ?thesis
  proof (cases "v_version v = TXN_INTENT_VERSION")
    case True
    with v have r: "row m t k TXN_INTENT_VERSION = Some (v_content v)"
      by simp
    then obtain i where i: "intent_of X (row m t k) = Some i"
      using ok by (auto simp: intent_ok_def)
    then obtain b where b: "v_content v = Some b" "x_dec_intent X b = Inr i"
      using r intent_of_SomeD [OF i] by auto
    have "dropWhile (\<lambda>x. v_version x = TXN_INTENT_VERSION) ws = ws"
      using less True by (cases ws) auto
    with True i b Cons show ?thesis
      by (simp add: split_history_def)
  next
    case False
    have "row m t k TXN_INTENT_VERSION = None"
    proof (rule ccontr)
      assume "row m t k TXN_INTENT_VERSION \<noteq> None"
      then obtain c where "row m t k TXN_INTENT_VERSION = Some c"
        by blast
      then have "TXN_INTENT_VERSION \<le> v_version v"
        using is_history_newest [OF h [unfolded Cons]] by blast
      with False show False
        by simp
    qed
    with False Cons show ?thesis
      by (simp add: split_history_def hd_opt_def intent_of_def)
  qed
qed

context ordered_store
begin

lemma read_intent_history:
  assumes "wf_store (cont (ge_db e))" "ge_shard_descs e sid = Some desc"
    and "sd_table_id desc \<noteq> LOCAL_TABLE_ID"
  obtains vs where "read_intent_and_next_key X e sid k = split_history X vs"
    "is_history (cont (ge_db e)) (sd_table_id desc) k vs"
proof (rule key_snapshot [OF assms, of k])
  fix s es
  let ?vs = "map value_of (takeWhile (of_key k) es)"
  assume s: "engine_snapshot X e sid (KeyMode k) = Inr s"
    and hist: "is_history (cont (ge_db e)) (sd_table_id desc) k ?vs"
    and empty: "takeWhile (of_key k) es = [] \<Longrightarrow> fst (next_mvcc_iterator s) = None"
    and found: "takeWhile (of_key k) es \<noteq> [] \<Longrightarrow>
       \<exists>s'. next_mvcc_iterator s = (Some (Inr ()), s') \<and> viewed s' es \<and> current s' = Some k"
    and vals: "\<forall>e\<in>set es. me_value e \<noteq> []"
  have "read_intent_and_next_key X e sid k = split_history X ?vs"
  proof (cases "takeWhile (of_key k) es = []")
    case True
    with s empty show ?thesis
      by (cases "next_mvcc_iterator s") (simp add: read_intent_and_next_key_def split_history_def)
  next
    case False
    then obtain x es' where es: "es = x # es'" "me_user_key x = k"
      by (cases es) (auto split: if_splits)
    obtain s1 where it: "next_mvcc_iterator s = (Some (Inr ()), s1)" and s1: "viewed s1 es"
        "current s1 = Some k"
      using found [OF False] by blast
    obtain s2 where n1: "next_mvcc_entry s1 = (Some (Inr x), s2)" and s2: "viewed s2 es'"
        "current s2 = Some k"
      using next_mvcc_entry_viewed [OF s1] es by auto
    have x: "entry_into x = Inr (value_of x)" "entry_value x = Inr (content_of (me_value x))"
      using vals es by (simp_all add: entry_into_value_of entry_value_content)
    note unf = read_intent_and_next_key_def s it n1 split_history_def es x
    show ?thesis
    proof (cases es')
      case Nil
      then have "fst (next_mvcc_entry s2) = None"
        using next_mvcc_entry_viewed [OF s2] by simp
      then show ?thesis
        using Nil by (cases "next_mvcc_entry s2") (simp add: unf hd_opt_def)
    next
      case (Cons y ys)
      show ?thesis
      proof (cases "me_user_key y = k")
        case True
        then obtain s3 where "next_mvcc_entry s2 = (Some (Inr y), s3)"
          using next_mvcc_entry_viewed [OF s2] Cons by auto
        with True Cons vals show ?thesis
          by (simp add: unf hd_opt_def entry_into_value_of)
      next
        case False
        then obtain s3 where "next_mvcc_entry s2 = (None, s3)"
          using next_mvcc_entry_viewed [OF s2] Cons by auto
        with False Cons show ?thesis
          by (simp add: unf hd_opt_def)
      qed
    qed
  qed
  with hist show thesis
    using that by blast
qed

lemma engine_invD:
  assumes "engine_inv X cont e" "ge_shard_descs e sid = Some desc"
  shows "wf_store (cont (ge_db e))" "sd_table_id desc \<noteq> LOCAL_TABLE_ID"
    "intent_ok X (row (cont (ge_db e)) (sd_table_id desc) k)"
  using assms by (auto simp: engine_inv_def shards_ok_def)

lemma read_intent_row:
  assumes "engine_inv X cont e" "ge_shard_descs e sid = Some desc"
  obtains prev where
    "read_intent_and_next_key X e sid k =
       Inr (intent_of X (row (cont (ge_db e)) (sd_table_id desc) k), prev)"
    "latest_committed (row (cont (ge_db e)) (sd_table_id desc) k) prev"
proof -
  note inv = engine_invD [OF assms]
  show ?thesis
  proof (rule read_intent_history [OF inv(1) assms(2) inv(2), of k])
    fix vs
    assume "read_intent_and_next_key X e sid k = split_history X vs"
      and h: "is_history (cont (ge_db e)) (sd_table_id desc) k vs"
    then show ?thesis
      using that split_history_row [OF h inv(3)] latest_committed_history [OF h] by simp
  qed
qed

lemma engine_get_row:
  assumes "engine_inv X cont e" "ge_shard_descs e sid = Some desc"
  obtains v where "engine_get X e sid k = Inr v"
    "case v of None \<Rightarrow> \<forall>w. row (cont (ge_db e)) (sd_table_id desc) k w = None
     | Some x \<Rightarrow> row (cont (ge_db e)) (sd_table_id desc) k (v_version x) = Some (v_content x) \<and>
         (\<forall>w. row (cont (ge_db e)) (sd_table_id desc) k w \<noteq> None \<longrightarrow> w \<le> v_version x)"
proof -
  note inv = engine_invD [OF assms]
  show ?thesis
  proof (rule engine_get_newest [OF inv(1) assms(2) inv(2), of k])
    fix vs
    assume get: "engine_get X e sid k = Inr (case vs of [] \<Rightarrow> None | v # _ \<Rightarrow> Some v)"
      and h: "is_history (cont (ge_db e)) (sd_table_id desc) k vs"
    show ?thesis
    proof (cases vs)
      case Nil
      with get h show ?thesis
        using that [of None] by (simp add: is_history_Nil)
    next
      case (Cons x ws)
      have "row (cont (ge_db e)) (sd_table_id desc) k (v_version x) = Some (v_content x)"
        using is_historyD [OF h, of x] Cons by simp
      with get Cons is_history_newest [OF h [unfolded Cons]] show ?thesis
        using that [of "Some x"] by auto
    qed
  qed
qed

text \<open>The intent of the transaction itself, if the key carries one.\<close>

lemma read_target_intent_row:
  assumes "engine_inv X cont e" "ge_shard_descs e sid = Some desc"
  shows "read_target_intent X e sv sid k =
    Inr (case intent_of X (row (cont (ge_db e)) (sd_table_id desc) k) of
           Some i \<Rightarrow> if ti_start_version i = sv then Some i else None
         | None \<Rightarrow> None)"
proof (rule engine_get_row [OF assms, of k])
  fix v
  let ?r = "row (cont (ge_db e)) (sd_table_id desc) k"
  assume get: "engine_get X e sid k = Inr v"
    and v: "case v of None \<Rightarrow> \<forall>w. ?r w = None
     | Some x \<Rightarrow> ?r (v_version x) = Some (v_content x) \<and> (\<forall>w. ?r w \<noteq> None \<longrightarrow> w \<le> v_version x)"
  note ok = engine_invD(3) [OF assms, of k]
  show ?thesis
  proof (cases "?r TXN_INTENT_VERSION")
    case None
    then have "intent_of X ?r = None"
      by (simp add: intent_of_def)
    moreover have "v_version x \<noteq> TXN_INTENT_VERSION" if "v = Some x" for x
      using that v None by auto
    ultimately show ?thesis
      using get by (simp add: read_target_intent_def split: option.split)
  next
    case (Some c)
    then obtain i where i: "intent_of X ?r = Some i"
      using ok by (auto simp: intent_ok_def)
    obtain b where b: "c = Some b" "x_dec_intent X b = Inr i"
      using intent_of_SomeD [OF i] Some by auto
    obtain x where x: "v = Some x" "v_version x = TXN_INTENT_VERSION"
      using v Some by (cases v) auto
    then have "v_content x = Some b"
      using v Some b by simp
    with get i b x show ?thesis
      by (simp add: read_target_intent_def)
  qed
qed

end

end
