(* ===== verification/Eval_Read.thy ===== *)
theory Eval_Read
  imports Txn_Spec
begin

text \<open>
  Reads: \<open>src/server/src/replica/eval/cmd_get.rs\<close> and \<open>cmd_scan.rs\<close>.

  A read iterates a snapshot of the column family, so what resolving an intent writes meanwhile is
  not seen by it: \<open>resolve\<close> (\<open>LatchManager::resolve_txn\<close>) is a function from the shard, the key,
  the reader's version and the version of the transaction to the committed value, if there is one.
\<close>

type_synonym mgr_resolver = "u64 \<Rightarrow> bytes \<Rightarrow> u64 \<Rightarrow> u64 \<Rightarrow> kv_value option result"

section \<open>Point reads\<close>

function read_entries ::
    "'db ext \<Rightarrow> mgr_resolver \<Rightarrow> u64 \<Rightarrow> bytes \<Rightarrow> u64 \<Rightarrow> snapshot \<Rightarrow> kv_value option result" where
  "read_entries X resolve shard_id key start_version s =
     (case next_mvcc_entry s of
        (None, s) \<Rightarrow> Inr None
      | (Some (Inl err), s) \<Rightarrow> Inl err
      | (Some (Inr entry), s) \<Rightarrow>
          if entry_version entry = TXN_INTENT_VERSION
          then rbind (entry_value entry) (\<lambda>v.
               rbind (ok_or (InvalidData ''the intent value of key not exists?'') v) (\<lambda>v.
               rbind (x_dec_intent X v) (\<lambda>intent.
                 if ti_start_version intent \<le> start_version
                 then rbind (resolve shard_id key start_version (ti_start_version intent)) (\<lambda>r.
                        case r of
                          Some v \<Rightarrow>
                            if v_version v \<le> start_version then Inr (Some v)
                            else read_entries X resolve shard_id key start_version s
                        | None \<Rightarrow> read_entries X resolve shard_id key start_version s)
                 else read_entries X resolve shard_id key start_version s)))
          else if entry_version entry \<le> start_version
          then rbind (entry_into entry) (\<lambda>v. Inr (Some v))
          else read_entries X resolve shard_id key start_version s)"
  by pat_completeness auto
termination
  by (relation "measure (\<lambda>(X, resolve, shard_id, key, start_version, s). snap_size s)")
    (auto dest: next_mvcc_entry_shrinks [OF sym])

declare read_entries.simps [simp del]

definition read_key ::
    "'db ext \<Rightarrow> mgr_resolver \<Rightarrow> 'db group_engine \<Rightarrow> u64 \<Rightarrow> bytes \<Rightarrow> u64 \<Rightarrow> kv_value option result" where
  "read_key X resolve e shard_id key start_version =
     rbind (engine_snapshot X e shard_id (KeyMode key)) (\<lambda>s.
       case next_mvcc_iterator s of
         (None, s) \<Rightarrow> Inr None
       | (Some (Inl err), s) \<Rightarrow> Inl err
       | (Some (Inr _), s) \<Rightarrow> read_entries X resolve shard_id key start_version s)"

definition eval_get ::
    "'db ext \<Rightarrow> mgr_resolver \<Rightarrow> exec_ctx \<Rightarrow> 'db group_engine \<Rightarrow> shard_get_request \<Rightarrow>
     kv_value option result" where
  "eval_get X resolve ctx e req =
     rbind (forward_moving X ctx e (sg_shard_id req) [sg_user_key req]) (\<lambda>_.
       read_key X resolve e (sg_shard_id req) (sg_user_key req) (sg_start_version req))"

section \<open>Scans\<close>

fun merge_sets :: "bool \<Rightarrow> value_set list \<Rightarrow> value_set list \<Rightarrow> value_set list" where
  "merge_sets target_has_more (x # xs) (y # ys) =
     (if vs_user_key x < vs_user_key y then x # merge_sets target_has_more xs (y # ys)
      else if vs_user_key x = vs_user_key y then x # merge_sets target_has_more xs ys
      else y # merge_sets target_has_more (x # xs) ys)"
| "merge_sets target_has_more (x # xs) [] = x # merge_sets target_has_more xs []"
| "merge_sets target_has_more [] (y # ys) =
     (if \<not> target_has_more then y # merge_sets target_has_more [] ys else [])"
| "merge_sets target_has_more [] [] = []"

definition merge_scan_response ::
    "shard_scan_response \<Rightarrow> shard_scan_response \<Rightarrow> shard_scan_response" where
  "merge_scan_response target source =
     \<lparr>sr_data = merge_sets (sr_has_more target) (sr_data target) (sr_data source),
      sr_has_more = (sr_has_more target \<or> sr_has_more source)\<rparr>"

definition is_equals :: "bytes option \<Rightarrow> bytes \<Rightarrow> bool" where
  "is_equals target key = (case target of None \<Rightarrow> False | Some k \<Rightarrow> k = key)"

definition is_exceeds :: "bytes option \<Rightarrow> bytes \<Rightarrow> bool" where
  "is_exceeds target key = (case target of None \<Rightarrow> False | Some k \<Rightarrow> k < key)"

definition is_exclude_boundary :: "shard_scan_request \<Rightarrow> bytes \<Rightarrow> bool" where
  "is_exclude_boundary req key \<longleftrightarrow>
     sc_exclude_start_key req \<and> is_equals (sc_start_key req) key \<or>
     sc_exclude_end_key req \<and> is_equals (sc_end_key req) key"

definition scan_resolve_txn ::
    "'db ext \<Rightarrow> mgr_resolver \<Rightarrow> u64 \<Rightarrow> u64 \<Rightarrow> bytes \<Rightarrow> bytes \<Rightarrow> (bytes option \<times> u64) option result" where
  "scan_resolve_txn X resolve shard_id start_version key encoded =
     rbind (x_dec_intent X encoded) (\<lambda>intent.
       if ti_start_version intent > start_version then Inr None
       else rbind (resolve shard_id key start_version (ti_start_version intent)) (\<lambda>r.
              case r of
                None \<Rightarrow> Inr None
              | Some v \<Rightarrow> if v_version v > start_version then Inr None
                         else Inr (Some (v_content v, v_version v))))"

text \<open>
  What one entry contributes to a scan: nothing (\<^const>\<open>None\<close>), or a content and a version.
\<close>

definition scan_entry_value ::
    "'db ext \<Rightarrow> mgr_resolver \<Rightarrow> shard_scan_request \<Rightarrow> mvcc_entry \<Rightarrow> (bytes option \<times> u64) option result" where
  "scan_entry_value X resolve req entry =
     (let version = entry_version entry
      in if version = TXN_INTENT_VERSION \<and> \<not> sc_ignore_txn_intent req
         then rbind (entry_value entry) (\<lambda>v.
              rbind (ok_or (InvalidData ''the value of intent key is not exists'') v) (\<lambda>v.
                scan_resolve_txn X resolve (sc_shard_id req) (sc_start_version req)
                  (me_user_key entry) v))
         else if sc_start_version req < version then Inr None
         else rbind (entry_value entry) (\<lambda>v. Inr (Some (v, version))))"

function scan_values ::
    "'db ext \<Rightarrow> mgr_resolver \<Rightarrow> shard_scan_request \<Rightarrow> snapshot \<Rightarrow> kv_value list \<Rightarrow> nat \<Rightarrow>
     (kv_value list \<times> nat) option result \<times> snapshot" where
  "scan_values X resolve req s values total_bytes =
     (case next_mvcc_entry s of
        (None, s) \<Rightarrow> (Inr (Some (values, total_bytes)), s)
      | (Some (Inl err), s) \<Rightarrow> (Inl err, s)
      | (Some (Inr entry), s) \<Rightarrow>
          if is_exclude_boundary req (me_user_key entry) then (Inr None, s)
          else case scan_entry_value X resolve req entry of
                 Inl err \<Rightarrow> (Inl err, s)
               | Inr None \<Rightarrow> scan_values X resolve req s values total_bytes
               | Inr (Some (content, version)) \<Rightarrow>
                   (let (values, total_bytes) =
                          (case content of
                             Some c \<Rightarrow> (values @ [\<lparr>v_content = Some c, v_version = version\<rparr>],
                                        total_bytes + length c)
                           | None \<Rightarrow> if sc_include_raw_data req
                                    then (values @ [\<lparr>v_content = None, v_version = version\<rparr>],
                                          total_bytes)
                                    else (values, total_bytes))
                    in if \<not> sc_include_raw_data req then (Inr (Some (values, total_bytes)), s)
                       else scan_values X resolve req s values total_bytes))"
  by pat_completeness auto
termination
  by (relation "measure (\<lambda>(X, resolve, req, s, values, total_bytes). snap_size s)")
    (auto dest: next_mvcc_entry_shrinks [OF sym])

declare scan_values.simps [simp del]

definition iter_user_key :: "snapshot \<Rightarrow> bytes result" where
  "iter_user_key s =
     ok_or (Panic ''the current key always exists if MvccIterator is constructed'')
       (core_current_key (sn_core s))"

definition scan_value_set ::
    "'db ext \<Rightarrow> mgr_resolver \<Rightarrow> shard_scan_request \<Rightarrow> snapshot \<Rightarrow>
     (value_set \<times> nat) option result \<times> snapshot" where
  "scan_value_set X resolve req s =
     (case scan_values X resolve req s [] 0 of
        (Inl err, s) \<Rightarrow> (Inl err, s)
      | (Inr None, s) \<Rightarrow> (Inr None, s)
      | (Inr (Some (values, total_bytes)), s) \<Rightarrow>
          if values = [] then (Inr None, s)
          else (rbind (iter_user_key s) (\<lambda>k.
                  Inr (Some (\<lparr>vs_user_key = k, vs_values = values\<rparr>, total_bytes + length k))), s))"

text \<open>The loop over the keys ends because every step consumes an entry of the snapshot.\<close>

lemma next_entry_size:
  "next_entry t core = (r, core') \<Longrightarrow>
    snap_size (s\<lparr>sn_core := core'\<rparr>) \<le> snap_size (s\<lparr>sn_core := core\<rparr>)"
  by (auto simp: next_entry_def snap_size_def Let_def split: list.splits sum.splits prod.splits if_splits
      option.splits)

lemma next_mvcc_entry_size: "next_mvcc_entry s = (r, s') \<Longrightarrow> snap_size s' \<le> snap_size s"
proof (induction s rule: next_mvcc_entry.induct)
  case (1 s)
  show ?case
  proof (cases "core_cached_entry (sn_core s)")
    case (Some e)
    with 1(2) show ?thesis
      by (auto simp: next_mvcc_entry_cached snap_size_def split: if_splits)
  next
    case None
    obtain q core where step: "next_entry (sn_table_id s) (sn_core s) = (q, core)"
      by fastforce
    have le: "snap_size (s\<lparr>sn_core := core\<rparr>) \<le> snap_size s"
      using next_entry_size [OF step, of s] by simp
    show ?thesis
      using 1(2) le 1(1) [OF None step [symmetric]]
      by (auto simp: next_mvcc_entry_empty [OF None] step split: option.splits sum.splits)
  qed
qed

lemma next_mvcc_iterator_Inr:
  "next_mvcc_iterator s = (Some (Inr u), s') \<Longrightarrow>
    snap_size s' \<le> snap_size s \<and>
    (\<exists>e. core_cached_entry (sn_core s') = Some e \<and> core_current_key (sn_core s') = Some (me_user_key e))"
proof (induction s rule: next_mvcc_iterator.induct)
  case (1 s)
  obtain q core where step: "next_entry (sn_table_id s) (sn_core s) = (q, core)"
    by fastforce
  have le: "snap_size (s\<lparr>sn_core := core\<rparr>) \<le> snap_size s"
    using next_entry_size [OF step, of s] by simp
  have rec: "snap_size s' \<le> snap_size s \<and>
      (\<exists>e. core_cached_entry (sn_core s') = Some e \<and> core_current_key (sn_core s') = Some (me_user_key e))"
    if "q = Some (Inr ())" "next_mvcc_iterator (s\<lparr>sn_core := core\<rparr>) = (Some (Inr u), s')"
    using 1(1) [OF step [symmetric], of "Inr ()" "()"] that le by auto
  show ?case
  proof (cases "core_cached_entry (sn_core s)")
    case None
    with 1(2) rec show ?thesis
      by (auto simp: next_mvcc_iterator.simps [of s] step split: option.splits sum.splits)
  next
    case (Some e)
    with 1(2) rec show ?thesis
      by (auto simp: next_mvcc_iterator.simps [of s] step snap_size_def
          split: option.splits sum.splits if_splits)
  qed
qed

lemma scan_values_size:
  "scan_values X resolve req s vs n = (r, s') \<Longrightarrow> snap_size s' \<le> snap_size s"
proof (induction "snap_size s" arbitrary: s vs n rule: less_induct)
  case less
  obtain q s1 where step: "next_mvcc_entry s = (q, s1)"
    by fastforce
  note le = next_mvcc_entry_size [OF step]
  have IH: "snap_size s' \<le> snap_size s"
    if "q = Some (Inr entry)" "scan_values X resolve req s1 ws m = (r, s')" for entry ws m
    using less.hyps [OF next_mvcc_entry_shrinks, OF step [unfolded that(1)] that(2)] le by simp
  show ?case
    using less.prems le IH
    by (subst (asm) scan_values.simps)
      (auto simp: step Let_def split: option.splits sum.splits prod.splits if_splits)
qed

lemma scan_value_set_size:
  assumes "core_cached_entry (sn_core s) = Some e" "core_current_key (sn_core s) = Some (me_user_key e)"
    and "scan_value_set X resolve req s = (r, s')"
  shows "snap_size s' < snap_size s"
proof -
  obtain s1 where step: "next_mvcc_entry s = (Some (Inr e), s1)" and lt: "snap_size s1 < snap_size s"
    using assms(1,2) next_mvcc_entry_cached [OF assms(1)]
    by (auto simp: is_current_key_def snap_size_def)
  obtain r2 s2 where sv: "scan_values X resolve req s [] 0 = (r2, s2)"
    by fastforce
  have "snap_size s2 \<le> snap_size s1"
    using sv
    by (subst (asm) scan_values.simps)
      (auto simp: step Let_def dest!: scan_values_size
        split: option.splits sum.splits prod.splits if_splits)
  moreover have "s' = s2"
    using assms(3) sv by (auto simp: scan_value_set_def split: option.splits sum.splits if_splits)
  ultimately show ?thesis using lt by simp
qed

lemma scan_step_shrinks:
  assumes "next_mvcc_iterator s = (Some (Inr u), s1)" "scan_value_set X resolve req s1 = (r, s2)"
  shows "snap_size s2 < snap_size s"
  using next_mvcc_iterator_Inr [OF assms(1)] scan_value_set_size [OF _ _ assms(2)] by fastforce

function scan_loop ::
    "'db ext \<Rightarrow> mgr_resolver \<Rightarrow> shard_scan_request \<Rightarrow> snapshot \<Rightarrow> value_set list \<Rightarrow> nat \<Rightarrow>
     shard_scan_response result" where
  "scan_loop X resolve req s data total_bytes =
     (case next_mvcc_iterator s of
        (None, s) \<Rightarrow> Inr \<lparr>sr_data = data, sr_has_more = False\<rparr>
      | (Some (Inl err), s) \<Rightarrow> Inl err
      | (Some (Inr _), s) \<Rightarrow>
          (case iter_user_key s of
             Inl err \<Rightarrow> Inl err
           | Inr key \<Rightarrow>
               if is_exceeds (sc_end_key req) key then Inr \<lparr>sr_data = data, sr_has_more = False\<rparr>
               else case scan_value_set X resolve req s of
                      (Inl err, s) \<Rightarrow> Inl err
                    | (Inr None, s) \<Rightarrow> scan_loop X resolve req s data total_bytes
                    | (Inr (Some (value_set, value_bytes)), s) \<Rightarrow>
                        let data = data @ [value_set];
                            total_bytes = total_bytes + value_bytes
                        in if sc_limit req \<noteq> 0 \<and> unat (sc_limit req) = length data \<or>
                              sc_limit_bytes req \<noteq> 0 \<and> unat (sc_limit_bytes req) \<le> total_bytes
                           then Inr \<lparr>sr_data = data, sr_has_more = True\<rparr>
                           else scan_loop X resolve req s data total_bytes))"
  by pat_completeness auto
termination
  by (relation "measure (\<lambda>(X, resolve, req, s, data, total_bytes). snap_size s)")
    (auto dest: scan_step_shrinks [OF sym sym])

declare scan_loop.simps [simp del]

definition scan_inner ::
    "'db ext \<Rightarrow> mgr_resolver \<Rightarrow> snapshot \<Rightarrow> shard_scan_request \<Rightarrow> shard_scan_response result" where
  "scan_inner X resolve s req = scan_loop X resolve req s [] 0"

definition eval_scan ::
    "'db ext \<Rightarrow> mgr_resolver \<Rightarrow> exec_ctx \<Rightarrow> 'db group_engine \<Rightarrow> shard_scan_request \<Rightarrow>
     shard_scan_response result" where
  "eval_scan X resolve ctx e req =
     rbind (if sc_allow_scan_moving_shard req then Inr ()
            else case ec_move_shard_desc ctx of
                   None \<Rightarrow> Inr ()
                 | Some desc \<Rightarrow>
                     rbind (get_shard_id desc) (\<lambda>shard_id.
                       if shard_id = sc_shard_id req \<and> msd_src_group_id desc = ec_group_id ctx
                       then Inl (Forward \<lparr>fc_shard_id = sc_shard_id req,
                                   fc_dest_group_id = msd_dest_group_id desc, fc_payloads = []\<rparr>)
                       else Inr ())) (\<lambda>_.
       let (req, mode) =
             (case sc_prefix req of
                Some p \<Rightarrow> (req\<lparr>sc_exclude_end_key := False, sc_exclude_start_key := False\<rparr>, PrefixMode p)
              | None \<Rightarrow> (req, StartMode (sc_start_key req)))
       in rbind (engine_snapshot X e (sc_shard_id req) mode) (\<lambda>s. scan_inner X resolve s req))"

end
