(* ===== verification/Txn_Commit.thy ===== *)
theory Txn_Commit
  imports Txn_Spec
begin

text \<open>
  The properties of the transaction commands over several requests: what a granted intent means,
  what committing or clearing it leaves behind, and that repeated requests are harmless.
\<close>

section \<open>Committing batches keeps the invariant\<close>

definition plain_states :: "write_states \<Rightarrow> bool" where
  "plain_states st \<longleftrightarrow> ws_descriptor st = None \<and> ws_move_shard_state st = None"

fun intent_op_ok :: "'db ext \<Rightarrow> row_op \<Rightarrow> bool" where
  "intent_op_ok X (SetRow t k v c) \<longleftrightarrow>
     k \<noteq> [] \<and> (v = TXN_INTENT_VERSION \<longrightarrow> (\<exists>b i. c = Some b \<and> x_dec_intent X b = Inr i))"
| "intent_op_ok X (DelRow t k v) \<longleftrightarrow> k \<noteq> []"

lemma intent_ok_row_op:
  assumes "\<And>t k. t \<noteq> LOCAL_TABLE_ID \<Longrightarrow> intent_ok X (R t k)" "intent_op_ok X op"
    and "t \<noteq> LOCAL_TABLE_ID"
  shows "intent_ok X (do_row_op op R t k)"
proof (cases op)
  case (SetRow t' k' v c)
  with assms show ?thesis
    by (auto simp: intent_ok_def intent_of_def row_upd_def split: if_splits)
next
  case (DelRow t' k' v)
  with assms show ?thesis
    by (auto simp: intent_ok_def intent_of_def row_upd_def split: if_splits)
qed

lemma intent_ok_row_ops:
  assumes "\<And>t k. t \<noteq> LOCAL_TABLE_ID \<Longrightarrow> intent_ok X (R t k)" "\<forall>op\<in>set ops. intent_op_ok X op"
    and "t \<noteq> LOCAL_TABLE_ID"
  shows "intent_ok X (fold do_row_op ops R t k)"
  using assms
proof (induction ops arbitrary: R)
  case (Cons op ops)
  show ?case
    unfolding fold_Cons comp_def
  proof (rule Cons.IH)
    show "intent_ok X (do_row_op op R t k)" if "t \<noteq> LOCAL_TABLE_ID" for t k
      using Cons.prems(1,2) that by (intro intent_ok_row_op) simp_all
  qed (use Cons.prems in simp_all)
qed simp

lemma intent_op_ok_key: "intent_op_ok X op \<Longrightarrow> row_op_key op \<noteq> []"
  by (cases op) simp_all

context ordered_store
begin

lemma plain_commit:
  assumes "plain_states st"
  obtains e' where "group_commit X e wbs st = Inr e'" "ge_shard_descs e' = ge_shard_descs e"
  using assms group_commit_plain [of e wbs "ws_apply_state st"]
  by (cases st) (auto simp: plain_states_def)

lemma plain_commit_shards:
  assumes "plain_states st" "group_commit X e wbs st = Inr e'"
  shows "ge_shard_descs e' = ge_shard_descs e"
  using plain_commit [OF assms(1), of e wbs] assms(2) by auto

lemma engine_inv_commit:
  assumes c: "group_commit X e [map row_op_wb ops] st = Inr e'" and st: "plain_states st"
    and inv: "engine_inv X cont e" and ops: "\<forall>op\<in>set ops. intent_op_ok X op"
  shows "engine_inv X cont e'"
  unfolding engine_inv_def
proof (intro conjI allI impI)
  show "wf_store (cont (ge_db e'))"
    using group_commit_wf [OF c] inv ops intent_op_ok_key by (auto simp: engine_inv_def)
  show "shards_ok e'"
    using inv plain_commit_shards [OF st c] by (simp add: engine_inv_def shards_ok_def)
next
  fix t k assume t: "t \<noteq> LOCAL_TABLE_ID"
  show "intent_ok X (row (cont (ge_db e')) t k)"
    unfolding group_commit_rows [OF c t]
    by (rule intent_ok_row_ops [OF _ ops t]) (use inv in \<open>simp add: engine_inv_def\<close>)
qed

end

section \<open>The commands on rows\<close>

definition intent_for :: "u64 \<Rightarrow> write_request \<Rightarrow> kv_value option \<Rightarrow> txn_intent result" where
  "intent_for sv w prev =
     (case w of
        Delete del \<Rightarrow> Inr (intent_tombstone sv)
      | Put put \<Rightarrow> rbind (apply_put_op (put_type_of put) prev (put_value put)) (\<lambda>v.
          Inr (intent_with_put sv v)))"

definition conditions_of :: "write_request \<Rightarrow> write_condition list" where
  "conditions_of w = (case w of Delete del \<Rightarrow> del_conditions del | Put put \<Rightarrow> put_conditions put)"

lemma intent_for_version: "intent_for sv w prev = Inr i \<Longrightarrow> ti_start_version i = sv"
  by (auto simp: intent_for_def intent_tombstone_def intent_with_put_def bind_simps
      split: write_request.splits)

lemma write_intent_batch_eq:
  "write_intent_batch X e sid sv w prev =
     rbind (eval_conditions prev (conditions_of w)) (\<lambda>failed.
       case failed of
         Some n \<Rightarrow> Inl (CasFailed 0 (word_of_nat n) prev)
       | None \<Rightarrow> rbind (intent_for sv w prev) (\<lambda>i.
           engine_put e [] sid (user_key w) (x_enc_intent X i) TXN_INTENT_VERSION))"
  by (cases w)
    (auto simp: write_intent_batch_def conditions_of_def intent_for_def rbind_def
      split: sum.splits option.splits)

text \<open>A batch is written only when nobody holds the key, nothing overtook the transaction and all
  conditions hold; it then holds the one intent.\<close>

lemma write_intent_apply_Some:
  assumes "write_intent_apply X e sid sv w skip prev = Inr (Some res, resp)"
  obtains desc i where "\<not> skip" "ge_shard_descs e sid = Some desc" "user_key w \<noteq> []"
    "eval_conditions prev (conditions_of w) = Inr None" "intent_for sv w prev = Inr i"
    "res = with_batch [row_op_wb (SetRow (sd_table_id desc) (user_key w) TXN_INTENT_VERSION
       (Some (x_enc_intent X i)))]"
    "check_conflict sv w prev = Inr ()"
    "resp = \<lparr>wr_prev_value = (if take_prev_value w then prev else None)\<rparr>"
  using assms that
  by (auto simp: write_intent_apply_def write_intent_batch_eq bind_simps engine_put_Inr
      split: if_splits option.splits)

lemma write_intent_apply_skip:
  "write_intent_apply X e sid sv w True prev =
     rbind (check_conflict sv w prev) (\<lambda>_.
       Inr (None, \<lparr>wr_prev_value = (if take_prev_value w then prev else None)\<rparr>))"
  by (simp add: write_intent_apply_def)

lemma check_conflict_Inr:
  "check_conflict sv w prev = Inr u \<longleftrightarrow>
     is_atomic_operation w \<or> (\<forall>x. prev = Some x \<longrightarrow> v_version x \<le> sv)"
  by (auto simp: check_conflict_def split: option.splits)

lemma read_first_stop:
  assumes "read_intent_and_next_key X e sid k = Inr (i, prev)"
    and "\<And>j. i = Some j \<Longrightarrow> ti_start_version j = sv"
  shows "read_first_non_intent_key X resolve g e sv sid k = Some (Inr (i \<noteq> None, prev), g, e)"
  using assms by (subst read_first_non_intent_key.simps) (cases i; simp)

text \<open>Whatever the resolution of foreign intents did before, the loop ends on an engine that
  holds no intent, or the transaction's own, on the key.\<close>

lemma read_first_result:
  fixes g :: "'l defer_guard" and e :: "'db group_engine"
  assumes "read_first_non_intent_key X resolve g e sv sid k = Some (Inr (skip, prev), g', e')"
  shows "\<exists>i. read_intent_and_next_key X e' sid k = Inr (i, prev) \<and>
           (skip \<longleftrightarrow> i \<noteq> None) \<and> (\<forall>j. i = Some j \<longrightarrow> ti_start_version j = sv)"
proof -
  let ?P = "\<lambda>X (resolve :: ('l, 'db) resolver) (g :: 'l defer_guard) (e :: 'db group_engine) sv sid k
      (r :: (bool \<times> kv_value option) result \<times> 'l defer_guard \<times> 'db group_engine). \<forall>skip prev g' e'. r = (Inr (skip, prev), g', e') \<longrightarrow>
      (\<exists>i. read_intent_and_next_key X e' sid k = Inr (i, prev) \<and>
           (skip \<longleftrightarrow> i \<noteq> None) \<and> (\<forall>j. i = Some j \<longrightarrow> ti_start_version j = sv))"
  have "?P X resolve g e sv sid k (Inr (skip, prev), g', e')"
    using assms
  proof (rule read_first_non_intent_key.raw_induct [where P = ?P, rotated])
    fix rec X resolve g e sv sid k r
    assume IH: "\<And>X resolve g e sv sid k r. rec X resolve g e sv sid k = Some r \<Longrightarrow>
        ?P X resolve g e sv sid k r"
      and body: "(case read_intent_and_next_key X e sid k of
        Inl err \<Rightarrow> Some (Inl err, g, e)
      | Inr (None, prev) \<Rightarrow> Some (Inr (False, prev), g, e)
      | Inr (Some i, prev) \<Rightarrow>
          if ti_start_version i = sv then Some (Inr (True, prev), g, e)
          else (case defer_resolve_txn resolve g e sid k i of
                  (Inl err, g', e') \<Rightarrow> Some (Inl err, g', e')
                | (Inr _, g', e') \<Rightarrow> rec X resolve g' e' sv sid k)) = Some r"
    show "?P X resolve g e sv sid k r"
      using body by (auto split: sum.splits option.splits prod.splits if_splits dest: IH)
  qed
  with assms show ?thesis by blast
qed

definition resolver_keeps ::
    "'db ext \<Rightarrow> ('db \<Rightarrow> bytes \<rightharpoonup> bytes) \<Rightarrow> ('l, 'db) resolver \<Rightarrow> bool" where
  "resolver_keeps X cont resolve \<longleftrightarrow>
     (\<forall>l i e. engine_inv X cont e \<longrightarrow> engine_inv X cont (snd (snd (resolve l i e))))"

lemma defer_resolve_keeps:
  assumes "resolver_keeps X cont resolve" "engine_inv X cont e"
    and "defer_resolve_txn resolve g e sid k i = (r, g', e')"
  shows "engine_inv X cont e'"
proof (cases "dg_latches g \<lparr>sk_shard_id = sid, sk_user_key = k\<rparr>")
  case None
  with assms show ?thesis
    by (simp add: defer_resolve_txn_def)
next
  case (Some l)
  moreover obtain r0 l0 e0 where "resolve l i e = (r0, l0, e0)"
    by (cases "resolve l i e")
  moreover from this have "engine_inv X cont e0"
    using assms(1,2) by (metis resolver_keeps_def snd_conv)
  ultimately show ?thesis
    using assms(3) by (auto simp: defer_resolve_txn_def)
qed

lemma read_first_inv:
  fixes g :: "'l defer_guard" and e :: "'db group_engine"
  assumes keeps: "resolver_keeps X cont resolve" and inv: "engine_inv X cont e"
    and run: "read_first_non_intent_key X resolve g e sv sid k = Some (r, g', e')"
  shows "engine_inv X cont e'"
proof -
  let ?P = "\<lambda>X (resolve :: ('l, 'db) resolver) (g :: 'l defer_guard) (e :: 'db group_engine)
      (sv :: u64) (sid :: u64) (k :: bytes)
      (r :: (bool \<times> kv_value option) result \<times> 'l defer_guard \<times> 'db group_engine).
      resolver_keeps X cont resolve \<longrightarrow> engine_inv X cont e \<longrightarrow> engine_inv X cont (snd (snd r))"
  have "?P X resolve g e sv sid k (r, g', e')"
    using run
  proof (rule read_first_non_intent_key.raw_induct [where P = ?P, rotated])
    fix rec X resolve g e sv sid k r
    assume IH: "\<And>X resolve g e sv sid k r. rec X resolve g e sv sid k = Some r \<Longrightarrow>
        ?P X resolve g e sv sid k r"
      and body: "(case read_intent_and_next_key X e sid k of
        Inl err \<Rightarrow> Some (Inl err, g, e)
      | Inr (None, prev) \<Rightarrow> Some (Inr (False, prev), g, e)
      | Inr (Some i, prev) \<Rightarrow>
          if ti_start_version i = sv then Some (Inr (True, prev), g, e)
          else (case defer_resolve_txn resolve g e sid k i of
                  (Inl err, g', e') \<Rightarrow> Some (Inl err, g', e')
                | (Inr _, g', e') \<Rightarrow> rec X resolve g' e' sv sid k)) = Some r"
    show "?P X resolve g e sv sid k r"
    proof (intro impI)
      assume *: "resolver_keeps X cont resolve" "engine_inv X cont e"
      show "engine_inv X cont (snd (snd r))"
        using body * by (auto split: sum.splits option.splits prod.splits if_splits
            dest: IH defer_resolve_keeps [OF *])
    qed
  qed
  with keeps inv show ?thesis by simp
qed

text \<open>The read at the start of a write, as the row shows it.\<close>

lemma read_first_row:
  fixes g :: "'l defer_guard" and e :: "'db group_engine"
  assumes S: "ordered_store X cont" and inv: "engine_inv X cont e'"
    and desc: "ge_shard_descs e' sid = Some desc"
    and run: "read_first_non_intent_key X resolve g e sv sid k = Some (Inr (skip, prev), g', e')"
  defines "r \<equiv> row (cont (ge_db e')) (sd_table_id desc) k"
  shows "latest_committed r prev \<and> (skip \<longleftrightarrow> intent_of X r \<noteq> None) \<and>
    (\<forall>j. intent_of X r = Some j \<longrightarrow> ti_start_version j = sv)"
proof -
  obtain i where i: "read_intent_and_next_key X e' sid k = Inr (i, prev)"
      "skip \<longleftrightarrow> i \<noteq> None" "\<forall>j. i = Some j \<longrightarrow> ti_start_version j = sv"
    using read_first_result [OF run] by blast
  show ?thesis
  proof (rule ordered_store.read_intent_row [OF S inv desc, of k])
    fix prev'
    assume "read_intent_and_next_key X e' sid k
        = Inr (intent_of X (row (cont (ge_db e')) (sd_table_id desc) k), prev')"
      and "latest_committed (row (cont (ge_db e')) (sd_table_id desc) k) prev'"
    with i show ?thesis
      by (auto simp: r_def)
  qed
qed

lemma write_intent_Inr:
  assumes "write_intent X resolve ctx g e req = Some (Inr (res, resp), g', e')"
  obtains w skip prev where "wi_write req = Some w"
    "forward_moving X ctx e (wi_shard_id req) [user_key w] = Inr ()"
    "read_first_non_intent_key X resolve g e (wi_start_version req) (wi_shard_id req) (user_key w)
       = Some (Inr (skip, prev), g', e')"
    "write_intent_apply X e' (wi_shard_id req) (wi_start_version req) w skip prev = Inr (res, resp)"
  using assms that
  by (auto simp: write_intent_def split: option.splits sum.splits)

text \<open>What a granted intent means for the row it is written to.\<close>

definition granted ::
    "'db ext \<Rightarrow> ('db \<Rightarrow> bytes \<rightharpoonup> bytes) \<Rightarrow> 'db group_engine \<Rightarrow> write_intent_request \<Rightarrow> write_request \<Rightarrow>
     eval_result \<Rightarrow> shard_desc \<Rightarrow> kv_value option \<Rightarrow> txn_intent \<Rightarrow> bool" where
  "granted X cont e req w res desc prev i \<longleftrightarrow>
     (let r = row (cont (ge_db e)) (sd_table_id desc) (user_key w)
      in ge_shard_descs e (wi_shard_id req) = Some desc \<and> user_key w \<noteq> [] \<and>
         r TXN_INTENT_VERSION = None \<and> latest_committed r prev \<and>
         eval_conditions prev (conditions_of w) = Inr None \<and>
         (\<not> is_atomic_operation w \<longrightarrow> (\<forall>v c. r v = Some c \<longrightarrow> v \<le> wi_start_version req)) \<and>
         intent_for (wi_start_version req) w prev = Inr i \<and>
         er_op res = None \<and>
         er_batch res = Some [row_op_wb (SetRow (sd_table_id desc) (user_key w) TXN_INTENT_VERSION
           (Some (x_enc_intent X i)))])"

lemma write_intent_granted_aux:
  fixes g :: "'l defer_guard"
  assumes S: "ordered_store X cont" and keeps: "resolver_keeps X cont resolve"
    and inv: "engine_inv X cont e"
    and run: "write_intent X resolve ctx g e req = Some (Inr (Some res, resp), g', e')"
    and w: "wi_write req = Some w"
  obtains desc prev i where "granted X cont e' req w res desc prev i" "engine_inv X cont e'"
    "check_conflict (wi_start_version req) w prev = Inr ()"
    "resp = \<lparr>wr_prev_value = (if take_prev_value w then prev else None)\<rparr>"
proof -
  let ?sid = "wi_shard_id req" and ?sv = "wi_start_version req"
  obtain skip prev where rd: "read_first_non_intent_key X resolve g e ?sv ?sid (user_key w)
       = Some (Inr (skip, prev), g', e')"
    and ap: "write_intent_apply X e' ?sid ?sv w skip prev = Inr (Some res, resp)"
    using write_intent_Inr [OF run] w by (metis option.inject)
  have inv': "engine_inv X cont e'"
    by (rule read_first_inv [OF keeps inv rd])
  show ?thesis
  proof (rule write_intent_apply_Some [OF ap])
    fix desc i
    assume d: "ge_shard_descs e' ?sid = Some desc" and a: "\<not> skip" "user_key w \<noteq> []"
      "eval_conditions prev (conditions_of w) = Inr None" "intent_for ?sv w prev = Inr i"
      "res = with_batch [row_op_wb (SetRow (sd_table_id desc) (user_key w) TXN_INTENT_VERSION
         (Some (x_enc_intent X i)))]"
      "check_conflict ?sv w prev = Inr ()"
      "resp = \<lparr>wr_prev_value = (if take_prev_value w then prev else None)\<rparr>"
    let ?r = "row (cont (ge_db e')) (sd_table_id desc) (user_key w)"
    have r: "latest_committed ?r prev" "intent_of X ?r = None"
      using read_first_row [OF S inv' d rd] a(1) by blast+
    have none: "?r TXN_INTENT_VERSION = None"
      using intent_of_None [OF ordered_store.engine_invD(3) [OF S inv' d]] r(2) by blast
    have "v \<le> ?sv" if na: "\<not> is_atomic_operation w" and vc: "?r v = Some c" for v c
    proof -
      have "v \<noteq> TXN_INTENT_VERSION"
        using vc none by auto
      then obtain x where "prev = Some x" "v \<le> v_version x"
        using r(1) vc by (cases prev) (auto simp: latest_committed_def)
      moreover from this have "v_version x \<le> ?sv"
        using a(6) na by (simp add: check_conflict_Inr)
      ultimately show ?thesis by simp
    qed
    with a d r none have "granted X cont e' req w res desc prev i"
      by (auto simp: granted_def Let_def with_batch_def)
    with a(6,7) inv' show ?thesis
      using that by blast
  qed
qed

text \<open>A write that succeeds without a batch found an intent of its own transaction on the key.\<close>

lemma write_intent_apply_None:
  assumes "write_intent_apply X e sid sv w skip prev = Inr (None, resp)"
  shows "skip \<and> resp = \<lparr>wr_prev_value = (if take_prev_value w then prev else None)\<rparr>"
  using assms
  by (auto simp: write_intent_apply_def write_intent_batch_eq bind_simps engine_put_Inr
      split: if_splits option.splits)

lemma read_intent_shard:
  "read_intent_and_next_key X e sid k = Inr r \<Longrightarrow> \<exists>desc. ge_shard_descs e sid = Some desc"
  by (auto simp: read_intent_and_next_key_def engine_snapshot_def engine_shard_desc_def bind_simps)

lemma write_intent_held:
  fixes g :: "'l defer_guard"
  assumes S: "ordered_store X cont" and keeps: "resolver_keeps X cont resolve"
    and inv: "engine_inv X cont e"
    and run: "write_intent X resolve ctx g e req = Some (Inr (None, resp), g', e')"
    and w: "wi_write req = Some w"
  shows "\<exists>desc prev i. ge_shard_descs e' (wi_shard_id req) = Some desc \<and>
    latest_committed (row (cont (ge_db e')) (sd_table_id desc) (user_key w)) prev \<and>
    intent_of X (row (cont (ge_db e')) (sd_table_id desc) (user_key w)) = Some i \<and>
    ti_start_version i = wi_start_version req \<and>
    resp = \<lparr>wr_prev_value = (if take_prev_value w then prev else None)\<rparr>"
proof -
  let ?sid = "wi_shard_id req" and ?sv = "wi_start_version req"
  obtain skip prev where rd: "read_first_non_intent_key X resolve g e ?sv ?sid (user_key w)
       = Some (Inr (skip, prev), g', e')"
    and ap: "write_intent_apply X e' ?sid ?sv w skip prev = Inr (None, resp)"
    using write_intent_Inr [OF run] w by (metis option.inject)
  have inv': "engine_inv X cont e'"
    by (rule read_first_inv [OF keeps inv rd])
  obtain desc where d: "ge_shard_descs e' ?sid = Some desc"
    using read_first_result [OF rd] read_intent_shard by blast
  note r = read_first_row [OF S inv' d rd]
  note resp = write_intent_apply_None [OF ap]
  with r obtain i where "intent_of X (row (cont (ge_db e')) (sd_table_id desc) (user_key w)) = Some i"
    by blast
  with d r resp show ?thesis by blast
qed

section \<open>After the intent is written\<close>

lemma not_moving [simp]: "ec_move_shard_desc ctx = None \<Longrightarrow> forward_moving X ctx e sid ks = Inr ()"
  by (simp add: forward_moving_def)

definition publish :: "u64 \<Rightarrow> txn_intent \<Rightarrow> vrow \<Rightarrow> vrow" where
  "publish cv i r =
     (if ti_is_delete i then r(cv \<mapsto> None)
      else case ti_value i of Some v \<Rightarrow> r(cv \<mapsto> Some v) | None \<Rightarrow> r)"

text \<open>The newest committed version after that, given the newest one before.\<close>

definition published :: "u64 \<Rightarrow> txn_intent \<Rightarrow> kv_value option \<Rightarrow> kv_value option" where
  "published cv i prev =
     (if ti_is_delete i then Some \<lparr>v_content = None, v_version = cv\<rparr>
      else case ti_value i of
             Some v \<Rightarrow> Some \<lparr>v_content = Some v, v_version = cv\<rparr>
           | None \<Rightarrow> prev)"

lemma publish_latest:
  assumes "latest_committed r prev" "cv \<noteq> TXN_INTENT_VERSION" "\<And>v c. r v = Some c \<Longrightarrow> v < cv"
  shows "latest_committed (publish cv i r) (published cv i prev)"
proof -
  have le: "v \<le> cv" if "r v \<noteq> None" for v
    using that assms(3) [of v] by (auto simp: order.strict_implies_order)
  show ?thesis
    using assms(1,2) le
    by (auto simp: latest_committed_def publish_def published_def split: option.splits)
qed

definition commit_ops :: "u64 \<Rightarrow> bytes \<Rightarrow> txn_intent \<Rightarrow> u64 \<Rightarrow> row_op list" where
  "commit_ops t k i cv =
     DelRow t k TXN_INTENT_VERSION #
     (if ti_is_delete i then [SetRow t k cv None]
      else case ti_value i of Some v \<Rightarrow> [SetRow t k cv (Some v)] | None \<Rightarrow> [])"

lemma commit_batch_ops:
  assumes "ge_shard_descs e sid = Some desc" "k \<noteq> []"
  shows "commit_batch e sid k i cv = Inr (map row_op_wb (commit_ops (sd_table_id desc) k i cv))"
  using assms by (simp add: commit_batch_def commit_ops_def engine_fill_simps split: option.splits)

lemma commit_ops_row:
  assumes "cv \<noteq> TXN_INTENT_VERSION"
  shows "fold do_row_op (commit_ops t k i cv) R t k = publish cv i ((R t k)(TXN_INTENT_VERSION := None))"
    and "k' \<noteq> k \<Longrightarrow> fold do_row_op (commit_ops t k i cv) R t k' = R t k'"
  using assms by (auto simp: commit_ops_def publish_def row_upd_def fun_eq_iff split: option.splits)

lemma commit_ops_ok:
  "k \<noteq> [] \<Longrightarrow> cv \<noteq> TXN_INTENT_VERSION \<Longrightarrow> \<forall>op\<in>set (commit_ops t k i cv). intent_op_ok X op"
  by (auto simp: commit_ops_def split: option.splits)

lemma publish_intent [simp]:
  "cv \<noteq> TXN_INTENT_VERSION \<Longrightarrow>
    publish cv i (r(TXN_INTENT_VERSION := None)) TXN_INTENT_VERSION = None"
  by (simp add: publish_def split: option.splits)

context ordered_store
begin

lemma read_target_own:
  assumes "engine_inv X cont e" "ge_shard_descs e sid = Some desc"
    and "intent_of X (row (cont (ge_db e)) (sd_table_id desc) k) = Some i" "ti_start_version i = sv"
  shows "read_target_intent X e sv sid k = Inr (Some i)"
  using assms by (simp add: read_target_intent_row)

text \<open>Committing the intent found on the key.\<close>

lemma commit_intent_own:
  assumes inv: "engine_inv X cont e" and desc: "ge_shard_descs e (ci_shard_id cr) = Some desc"
    and i: "intent_of X (row (cont (ge_db e)) (sd_table_id desc) (ci_user_key cr)) = Some i"
    and sv: "ti_start_version i = ci_start_version cr" and k: "ci_user_key cr \<noteq> []"
    and ctx: "ec_move_shard_desc ctx = None"
  shows "commit_intent X ctx g e cr =
    (Inr (Some (with_batch (map row_op_wb
        (commit_ops (sd_table_id desc) (ci_user_key cr) i (ci_commit_version cr))))),
     defer_signal_all g Committed (Some (ci_commit_version cr)))"
  using read_target_own [OF inv desc i sv] ctx
  by (simp add: commit_intent_def commit_batch_ops [OF desc k] commit_ops_def)

lemma commit_intent_other:
  assumes inv: "engine_inv X cont e" and desc: "ge_shard_descs e (ci_shard_id cr) = Some desc"
    and i: "\<And>i. intent_of X (row (cont (ge_db e)) (sd_table_id desc) (ci_user_key cr)) = Some i \<Longrightarrow>
      ti_start_version i \<noteq> ci_start_version cr"
    and ctx: "ec_move_shard_desc ctx = None"
  shows "commit_intent X ctx g e cr = (Inr None, g)"
proof -
  have "read_target_intent X e (ci_start_version cr) (ci_shard_id cr) (ci_user_key cr) = Inr None"
    using i by (simp add: read_target_intent_row [OF inv desc] split: option.splits)
  with ctx show ?thesis
    by (simp add: commit_intent_def)
qed

lemma clear_intent_own:
  assumes inv: "engine_inv X cont e" and desc: "ge_shard_descs e (cl_shard_id cr) = Some desc"
    and i: "intent_of X (row (cont (ge_db e)) (sd_table_id desc) (cl_user_key cr)) = Some i"
    and sv: "ti_start_version i = cl_start_version cr" and k: "cl_user_key cr \<noteq> []"
    and ctx: "ec_move_shard_desc ctx = None"
  shows "clear_intent X ctx g e cr =
    (Inr (Some (with_batch (map row_op_wb
        [DelRow (sd_table_id desc) (cl_user_key cr) TXN_INTENT_VERSION]))),
     defer_signal_all g Aborted None)"
  using read_target_own [OF inv desc i sv] ctx
  by (simp add: clear_intent_def engine_fill_simps [OF desc k])

lemma clear_intent_other:
  assumes inv: "engine_inv X cont e" and desc: "ge_shard_descs e (cl_shard_id cr) = Some desc"
    and i: "\<And>i. intent_of X (row (cont (ge_db e)) (sd_table_id desc) (cl_user_key cr)) = Some i \<Longrightarrow>
      ti_start_version i \<noteq> cl_start_version cr"
    and ctx: "ec_move_shard_desc ctx = None"
  shows "clear_intent X ctx g e cr = (Inr None, g)"
proof -
  have "read_target_intent X e (cl_start_version cr) (cl_shard_id cr) (cl_user_key cr) = Inr None"
    using i by (simp add: read_target_intent_row [OF inv desc] split: option.splits)
  with ctx show ?thesis
    by (simp add: clear_intent_def)
qed

text \<open>The engine after the batch of a granted intent.\<close>

lemma granted_commit:
  assumes dec: "\<And>i. x_dec_intent X (x_enc_intent X i) = Inr i"
    and inv: "engine_inv X cont e" and gr: "granted X cont e req w res desc prev i"
    and c: "group_commit X e [the (er_batch res)] st = Inr e1" and st: "plain_states st"
  shows "engine_inv X cont e1" "ge_shard_descs e1 (wi_shard_id req) = Some desc"
    "row (cont (ge_db e1)) (sd_table_id desc) (user_key w) =
       (row (cont (ge_db e)) (sd_table_id desc) (user_key w))
         (TXN_INTENT_VERSION \<mapsto> Some (x_enc_intent X i))"
    "intent_of X (row (cont (ge_db e1)) (sd_table_id desc) (user_key w)) = Some i"
    "k \<noteq> user_key w \<Longrightarrow> row (cont (ge_db e1)) (sd_table_id desc) k = row (cont (ge_db e)) (sd_table_id desc) k"
proof -
  let ?ops = "[SetRow (sd_table_id desc) (user_key w) TXN_INTENT_VERSION (Some (x_enc_intent X i))]"
  have c': "group_commit X e [map row_op_wb ?ops] st = Inr e1"
    using c gr by (simp add: granted_def Let_def)
  have desc: "ge_shard_descs e (wi_shard_id req) = Some desc" and k: "user_key w \<noteq> []"
    using gr by (simp_all add: granted_def Let_def)
  have t: "sd_table_id desc \<noteq> LOCAL_TABLE_ID"
    by (rule engine_invD(2) [OF inv desc])
  show "engine_inv X cont e1"
    using dec k by (intro engine_inv_commit [OF c' st inv]) simp
  show "ge_shard_descs e1 (wi_shard_id req) = Some desc"
    using plain_commit_shards [OF st c'] desc by simp
  show r: "row (cont (ge_db e1)) (sd_table_id desc) (user_key w) =
       (row (cont (ge_db e)) (sd_table_id desc) (user_key w))
         (TXN_INTENT_VERSION \<mapsto> Some (x_enc_intent X i))"
    by (simp add: group_commit_rows [OF c' t] row_upd_def fun_eq_iff)
  show "intent_of X (row (cont (ge_db e1)) (sd_table_id desc) (user_key w)) = Some i"
    by (simp add: r intent_of_def dec)
  show "row (cont (ge_db e1)) (sd_table_id desc) k = row (cont (ge_db e)) (sd_table_id desc) k"
    if "k \<noteq> user_key w"
    using that by (simp add: group_commit_rows [OF c' t] row_upd_def fun_eq_iff)
qed

end

end
