(* ===== verification/Txn_Props.thy ===== *)
theory Txn_Props
  imports Txn_Commit
begin

text \<open>
  The properties of the transaction commands, each with a witness on an in-memory store.
\<close>

section \<open>A concrete engine for witnesses\<close>

definition demo_shard :: shard_desc where
  "demo_shard = shard_whole 1 2048"

definition demo_desc :: group_desc where
  "demo_desc = \<lparr>gd_id = 7, gd_epoch = INITIAL_EPOCH, gd_shards = [demo_shard], gd_replicas = []\<rparr>"

definition demo_engine :: "(bytes, bytes) rbt group_engine" where
  "demo_engine =
     \<lparr>ge_db = RBT.empty, ge_group_desc = demo_desc, ge_shard_descs = [1 \<mapsto> demo_shard],
      ge_move_shard_state = None\<rparr>"

definition demo_put :: put_request where
  "demo_put = \<lparr>put_put_type = 0, put_key = [9], put_value = [42], put_ttl = 0,
     put_conditions = [\<lparr>wc_type = 1, wc_value = [], wc_version = 0, wc_begin = 0\<rparr>],
     put_take_prev_value = True\<rparr>"

definition demo_req :: write_intent_request where
  "demo_req = \<lparr>wi_shard_id = 1, wi_start_version = 5, wi_write = Some (Put demo_put)\<rparr>"

definition demo_guard :: "unit defer_guard" where
  "demo_guard = \<lparr>dg_state = None, dg_latches = Map.empty\<rparr>"

definition demo_resolve :: "(unit, (bytes, bytes) rbt) resolver" where
  "demo_resolve l i e = (Inr None, l, e)"

definition demo_result :: eval_result where
  "demo_result = with_batch [row_op_wb (SetRow 2048 [9] TXN_INTENT_VERSION
     (Some (mem_enc_intent (intent_with_put 5 (Some [42])))))]"

definition demo_states :: write_states where
  "demo_states = write_states_default\<lparr>ws_apply_state := Some \<lparr>ei_index = 3, ei_term = 1\<rparr>\<rparr>"

lemma demo_inv: "engine_inv mem_ext RBT.lookup demo_engine"
  by (simp add: engine_inv_def wf_store_def shards_ok_def intent_ok_def row_def demo_engine_def
      demo_shard_def shard_whole_def LOCAL_TABLE_ID_def)

text \<open>The same engine with some row operations applied.\<close>

definition demo_with :: "row_op list \<Rightarrow> (bytes, bytes) rbt group_engine" where
  "demo_with ops = demo_engine\<lparr>ge_db := fold rbt_apply (map row_op_wb ops) RBT.empty\<rparr>"

lemma demo_with_shards [simp]: "ge_shard_descs (demo_with ops) 1 = Some demo_shard"
  by (simp add: demo_with_def demo_engine_def)

lemma demo_shard_table [simp]: "sd_table_id demo_shard = 2048"
  by (simp add: demo_shard_def shard_whole_def)

lemma demo_with_row: "row (RBT.lookup (ge_db (demo_with ops))) = fold do_row_op ops (\<lambda>t k v. None)"
proof -
  have "row (RBT.lookup (RBT.empty :: (bytes, bytes) rbt)) = (\<lambda>t k v. None)"
    by (simp add: row_def fun_eq_iff)
  then show ?thesis
    by (simp add: demo_with_def lookup_fold_rbt_apply row_apply_wb)
qed

lemma demo_with_inv:
  assumes "\<forall>op\<in>set ops. intent_op_ok mem_ext op"
  shows "engine_inv mem_ext RBT.lookup (demo_with ops)"
  unfolding engine_inv_def
proof (intro conjI allI impI)
  show "wf_store (RBT.lookup (ge_db (demo_with ops)))"
  proof -
    have "wf_store (\<lambda>x. None)"
      by (simp add: wf_store_def)
    moreover have "\<forall>op\<in>set ops. row_op_key op \<noteq> []"
      using assms intent_op_ok_key by blast
    ultimately show ?thesis
      by (simp add: demo_with_def lookup_fold_rbt_apply wf_store_rows)
  qed
  show "shards_ok (demo_with ops)"
    by (simp add: demo_with_def demo_engine_def shards_ok_def LOCAL_TABLE_ID_def)
  show "intent_ok mem_ext (row (RBT.lookup (ge_db (demo_with ops))) t k)"
    if "t \<noteq> LOCAL_TABLE_ID" for t k
    unfolding demo_with_row
    by (rule intent_ok_row_ops [OF _ assms that]) (simp add: intent_ok_def)
qed

lemma demo_keeps: "resolver_keeps mem_ext RBT.lookup demo_resolve"
  by (simp add: resolver_keeps_def demo_resolve_def)

lemma demo_states_plain: "plain_states demo_states"
  by (simp add: plain_states_def demo_states_def write_states_default_def)

lemma demo_read: "read_intent_and_next_key mem_ext demo_engine 1 [9] = Inr (None, None)"
proof (rule mem.read_intent_row [OF demo_inv, of 1 demo_shard "[9]"])
  show "ge_shard_descs demo_engine 1 = Some demo_shard"
    by (simp add: demo_engine_def)
next
  fix prev
  assume *: "read_intent_and_next_key mem_ext demo_engine 1 [9] =
      Inr (intent_of mem_ext (row (RBT.lookup (ge_db demo_engine)) (sd_table_id demo_shard) [9]), prev)"
    "latest_committed (row (RBT.lookup (ge_db demo_engine)) (sd_table_id demo_shard) [9]) prev"
  have r: "row (RBT.lookup (ge_db demo_engine)) (sd_table_id demo_shard) [9] = Map.empty"
    by (simp add: demo_engine_def row_def fun_eq_iff)
  with *(2) have "prev = None"
    by (cases prev) (simp_all add: latest_committed_def)
  with * r show ?thesis
    by (simp add: intent_of_def)
qed

lemma demo_write:
  assumes "ec_move_shard_desc ctx = None"
  shows "write_intent mem_ext demo_resolve ctx demo_guard demo_engine demo_req =
    Some (Inr (Some demo_result, \<lparr>wr_prev_value = None\<rparr>), demo_guard, demo_engine)"
proof -
  have "read_first_non_intent_key mem_ext demo_resolve demo_guard demo_engine 5 1 [9]
      = Some (Inr (False, None), demo_guard, demo_engine)"
    using read_first_stop [OF demo_read] by simp
  moreover have "engine_put demo_engine [] 1 [9]
      (x_enc_intent mem_ext (intent_with_put 5 (Some [42]))) TXN_INTENT_VERSION
    = Inr [row_op_wb (SetRow 2048 [9] TXN_INTENT_VERSION
        (Some (mem_enc_intent (intent_with_put 5 (Some [42])))))]"
    by (simp add: engine_put_Inr demo_engine_def demo_shard_def shard_whole_def mem_ext_def)
  ultimately show ?thesis
    using assms
    by (simp add: write_intent_def demo_req_def demo_put_def write_intent_apply_def
        write_intent_batch_def check_conflict_def eval_conditions_def eval_condition_def
        write_condition_type_from_i32_def apply_put_op_def put_type_of_def put_type_from_i32_def
        demo_result_def take_prev_value_def del: row_op_wb.simps)
qed

section \<open>Granting\<close>

text \<open>
  C5. Every write intent that succeeds reports the newest committed version of its key, if it was asked for it, and is
  one of two cases. Either there is a batch: then the key carries no intent, its newest committed version
  satisfies every condition of the write and, unless the write is an unconditional addition, is no newer than the
  transaction's snapshot, and the batch is exactly the intent the write asks for. Or there is no
  batch: then the key carries an intent of the same transaction already, and nothing is written, whatever the request
  asks for. This holds whatever resolving other transactions did on the way.
\<close>

theorem write_intent_granted:
  assumes "ordered_store X cont" "resolver_keeps X cont resolve" "engine_inv X cont e"
    and "write_intent X resolve ctx g e req = Some (Inr (out, resp), g', e')"
    and "wi_write req = Some w"
  shows "\<exists>desc prev i. ge_shard_descs e' (wi_shard_id req) = Some desc \<and>
    latest_committed (row (cont (ge_db e')) (sd_table_id desc) (user_key w)) prev \<and>
    resp = \<lparr>wr_prev_value = (if take_prev_value w then prev else None)\<rparr> \<and>
    ti_start_version i = wi_start_version req \<and>
    (case out of
       Some res \<Rightarrow> granted X cont e' req w res desc prev i
     | None \<Rightarrow> intent_of X (row (cont (ge_db e')) (sd_table_id desc) (user_key w)) = Some i)"
proof (cases out)
  case None
  with write_intent_held [OF assms(1-3) assms(4) [unfolded None] assms(5)] show ?thesis
    by (simp only: option.case) blast
next
  case (Some res)
  obtain desc prev i where gr: "granted X cont e' req w res desc prev i"
    and resp: "resp = \<lparr>wr_prev_value = (if take_prev_value w then prev else None)\<rparr>"
    by (rule write_intent_granted_aux [OF assms(1-3) assms(4) [unfolded Some] assms(5)])
  have "ge_shard_descs e' (wi_shard_id req) = Some desc"
    "latest_committed (row (cont (ge_db e')) (sd_table_id desc) (user_key w)) prev"
    "ti_start_version i = wi_start_version req"
    using gr by (auto simp: granted_def Let_def intro: intent_for_version)
  with gr resp Some show ?thesis by (simp only: option.case) blast
qed

theorem write_intent_granted_witness:
  "\<exists>desc prev i. granted mem_ext RBT.lookup demo_engine demo_req (Put demo_put) demo_result desc prev i \<and>
     ti_start_version i = wi_start_version demo_req"
  using write_intent_granted [OF mem.ordered_store_axioms demo_keeps demo_inv
      demo_write [of exec_ctx_default]]
  by (simp add: demo_req_def exec_ctx_default_def) blast

text \<open>
  C6. A key that carries no intent and has a committed version later than the transaction's snapshot refuses the
  write of that transaction with a conflict, unless the write is an unconditional addition; the engine and the
  latch guard stay as they were.
\<close>

theorem write_intent_conflict:
  assumes "ordered_store X cont" "engine_inv X cont e"
    and "ge_shard_descs e (wi_shard_id req) = Some desc" "wi_write req = Some w"
    and "ec_move_shard_desc ctx = None" "\<not> is_atomic_operation w"
    and "row (cont (ge_db e)) (sd_table_id desc) (user_key w) TXN_INTENT_VERSION = None"
    and "row (cont (ge_db e)) (sd_table_id desc) (user_key w) v = Some c" "wi_start_version req < v"
  shows "write_intent X resolve ctx g e req = Some (Inl TxnConflict, g, e)"
proof (rule ordered_store.read_intent_row [OF assms(1-3), of "user_key w"])
  fix prev
  let ?r = "row (cont (ge_db e)) (sd_table_id desc) (user_key w)"
  assume rd: "read_intent_and_next_key X e (wi_shard_id req) (user_key w) = Inr (intent_of X ?r, prev)"
    and latest: "latest_committed ?r prev"
  have none: "intent_of X ?r = None"
    using assms(7) by (simp add: intent_of_def)
  have "v \<noteq> TXN_INTENT_VERSION"
    using assms(7,8) by auto
  then obtain x where "prev = Some x" "v \<le> v_version x"
    using latest assms(8) by (cases prev) (auto simp: latest_committed_def)
  then have "check_conflict (wi_start_version req) w prev = Inl TxnConflict"
    using assms(6,9) by (auto simp: check_conflict_def)
  with assms(4,5) read_first_stop [OF rd, of "wi_start_version req" resolve g] none show ?thesis
    by (simp add: write_intent_def write_intent_apply_def)
qed

theorem write_intent_conflict_witness:
  "write_intent mem_ext demo_resolve exec_ctx_default demo_guard
     (demo_with [SetRow 2048 [9] 8 (Some [1])]) demo_req
   = Some (Inl TxnConflict, demo_guard, demo_with [SetRow 2048 [9] 8 (Some [1])])"
  by (rule write_intent_conflict [OF mem.ordered_store_axioms demo_with_inv, where v = 8 and
        c = "Some [1]" and desc = demo_shard and w = "Put demo_put"])
    (simp_all add: demo_req_def demo_put_def exec_ctx_default_def demo_with_row
      TXN_INTENT_VERSION_def is_atomic_operation_def)

text \<open>
  C7. A write intent that is written again, after the first one was replicated, is accepted
  without a new batch and with the same previous value: requests can be retried.
\<close>

theorem write_intent_idempotent:
  assumes "ordered_store X cont" "intent_codec X" "resolver_keeps X cont resolve"
    and "engine_inv X cont e"
    and "write_intent X resolve ctx g e req = Some (Inr (Some res, resp), g1, e1)"
    and "group_commit X e1 [the (er_batch res)] st = Inr e2" "plain_states st"
    and "ec_move_shard_desc ctx2 = None"
  shows "write_intent X resolve ctx2 g2 e2 req = Some (Inr (None, resp), g2, e2)"
proof -
  obtain w where w: "wi_write req = Some w"
    using assms(5) by (auto simp: write_intent_def split: option.splits)
  obtain desc prev i where gr: "granted X cont e1 req w res desc prev i"
    and inv: "engine_inv X cont e1" and ok: "check_conflict (wi_start_version req) w prev = Inr ()"
    and resp: "resp = \<lparr>wr_prev_value = (if take_prev_value w then prev else None)\<rparr>"
    by (rule write_intent_granted_aux [OF assms(1,3,4,5) w])
  note after = ordered_store.granted_commit
    [OF assms(1) intent_codec.dec_enc_intent [OF assms(2)] inv gr assms(6,7)]
  let ?r = "row (cont (ge_db e1)) (sd_table_id desc) (user_key w)"
  have sv: "ti_start_version i = wi_start_version req"
    using gr by (auto simp: granted_def Let_def intro: intent_for_version)
  have "latest_committed (?r(TXN_INTENT_VERSION \<mapsto> Some (x_enc_intent X i))) prev"
    using gr by (auto simp: granted_def Let_def latest_committed_def split: option.splits)
  then have latest: "latest_committed (row (cont (ge_db e2)) (sd_table_id desc) (user_key w)) prev"
    by (simp only: after(3))
  show ?thesis
  proof (rule ordered_store.read_intent_row [OF assms(1) after(1,2), of "user_key w"])
    fix prev'
    assume rd: "read_intent_and_next_key X e2 (wi_shard_id req) (user_key w) =
        Inr (intent_of X (row (cont (ge_db e2)) (sd_table_id desc) (user_key w)), prev')"
      and "latest_committed (row (cont (ge_db e2)) (sd_table_id desc) (user_key w)) prev'"
    then have "prev' = prev"
      using latest_committed_unique [OF latest] by simp
    with rd after(4) have "read_first_non_intent_key X resolve g2 e2 (wi_start_version req)
        (wi_shard_id req) (user_key w) = Some (Inr (True, prev), g2, e2)"
      using read_first_stop [OF rd, of "wi_start_version req" resolve g2] sv by simp
    then show ?thesis
      using w ok resp assms(8)
      by (simp add: write_intent_def write_intent_apply_skip)
  qed
qed

lemma demo_write_commit:
  obtains e2 where "group_commit mem_ext demo_engine [the (er_batch demo_result)] demo_states = Inr e2"
  by (rule mem.plain_commit [OF demo_states_plain])

theorem write_intent_idempotent_witness:
  "\<exists>e2. group_commit mem_ext demo_engine [the (er_batch demo_result)] demo_states = Inr e2 \<and>
     write_intent mem_ext demo_resolve exec_ctx_default demo_guard e2 demo_req
       = Some (Inr (None, \<lparr>wr_prev_value = None\<rparr>), demo_guard, e2)"
proof (rule demo_write_commit)
  fix e2 assume c: "group_commit mem_ext demo_engine [the (er_batch demo_result)] demo_states = Inr e2"
  have "ec_move_shard_desc exec_ctx_default = None"
    by (simp add: exec_ctx_default_def)
  from write_intent_idempotent [OF mem.ordered_store_axioms mem.intent_codec_axioms demo_keeps demo_inv
      demo_write [OF this] c demo_states_plain this, of demo_guard] c
  show ?thesis by blast
qed

section \<open>Committing and clearing\<close>

text \<open>
  C1. Write intent, commit, read back: after a granted intent is replicated, committing it
  succeeds, and once that is replicated the key has exactly one more version, the one written,
  at the commit version, and no intent; a write that puts nothing leaves the row as it was. When the commit version is
  later than the start version of the transaction, which has to be said of the committed versions themselves for an
  unconditional addition, what was written is the newest version of the key. No other key of the table changes.
\<close>

theorem write_commit_roundtrip:
  assumes "ordered_store X cont" "intent_codec X" "resolver_keeps X cont resolve"
    and "engine_inv X cont e" "wi_write req = Some w"
    and "write_intent X resolve ctx g e req = Some (Inr (Some res, resp), g1, e1)"
    and "group_commit X e1 [the (er_batch res)] st = Inr e2" "plain_states st"
    and "ec_move_shard_desc ctx2 = None" "cv \<noteq> TXN_INTENT_VERSION"
  defines "cr \<equiv> \<lparr>ci_shard_id = wi_shard_id req, ci_start_version = wi_start_version req,
                ci_commit_version = cv, ci_user_key = user_key w\<rparr>"
  shows "\<exists>desc prev i wb. granted X cont e1 req w res desc prev i \<and>
      commit_intent X ctx2 g2 e2 cr =
        (Inr (Some (with_batch wb)), defer_signal_all g2 Committed (Some cv)) \<and>
      (\<exists>e3. group_commit X e2 [wb] st = Inr e3 \<and>
        row (cont (ge_db e3)) (sd_table_id desc) (user_key w)
          = publish cv i (row (cont (ge_db e1)) (sd_table_id desc) (user_key w)) \<and>
        row (cont (ge_db e3)) (sd_table_id desc) (user_key w) TXN_INTENT_VERSION = None \<and>
        (wi_start_version req < cv \<longrightarrow>
         (is_atomic_operation w \<longrightarrow>
           (\<forall>v c. row (cont (ge_db e1)) (sd_table_id desc) (user_key w) v = Some c \<longrightarrow> v < cv)) \<longrightarrow>
         latest_committed (row (cont (ge_db e3)) (sd_table_id desc) (user_key w)) (published cv i prev)) \<and>
        (\<forall>k. k \<noteq> user_key w \<longrightarrow>
           row (cont (ge_db e3)) (sd_table_id desc) k = row (cont (ge_db e1)) (sd_table_id desc) k))"
proof -
  obtain desc prev i where gr: "granted X cont e1 req w res desc prev i"
    and inv: "engine_inv X cont e1"
    by (rule write_intent_granted_aux [OF assms(1,3,4,6,5)])
  note after = ordered_store.granted_commit
    [OF assms(1) intent_codec.dec_enc_intent [OF assms(2)] inv gr assms(7,8)]
  let ?t = "sd_table_id desc" and ?k = "user_key w"
  let ?ops = "commit_ops ?t ?k i cv"
  have k: "?k \<noteq> []" and none: "row (cont (ge_db e1)) ?t ?k TXN_INTENT_VERSION = None"
    and sv: "ti_start_version i = wi_start_version req"
    using gr by (auto simp: granted_def Let_def intro: intent_for_version)
  have t: "?t \<noteq> LOCAL_TABLE_ID"
    using ordered_store.engine_invD(2) [OF assms(1) after(1,2)] .
  have commit: "commit_intent X ctx2 g2 e2 cr =
      (Inr (Some (with_batch (map row_op_wb ?ops))), defer_signal_all g2 Committed (Some cv))"
    using ordered_store.commit_intent_own [OF assms(1) after(1), of cr desc i ctx2 g2] after(2,4) sv k assms(9)
    by (simp add: cr_def)
  obtain e3 where e3: "group_commit X e2 [map row_op_wb ?ops] st = Inr e3"
    by (rule ordered_store.plain_commit [OF assms(1,8)])
  note rows = ordered_store.group_commit_rows [OF assms(1) e3 t]
  have pub: "row (cont (ge_db e3)) ?t ?k = publish cv i (row (cont (ge_db e1)) ?t ?k)"
    using none by (simp add: rows commit_ops_row [OF assms(10)] after(3) fun_upd_idem)
  have no_intent: "row (cont (ge_db e3)) ?t ?k TXN_INTENT_VERSION = None"
    using none assms(10) unfolding pub by (simp add: publish_def split: option.splits)
  have newest: "wi_start_version req < cv \<longrightarrow>
      (is_atomic_operation w \<longrightarrow> (\<forall>v c. row (cont (ge_db e1)) ?t ?k v = Some c \<longrightarrow> v < cv)) \<longrightarrow>
      latest_committed (row (cont (ge_db e3)) ?t ?k) (published cv i prev)"
    unfolding pub
  proof (rule impI, rule impI, rule publish_latest [OF _ assms(10)])
    assume lt: "wi_start_version req < cv"
      and atomic: "is_atomic_operation w \<longrightarrow> (\<forall>v c. row (cont (ge_db e1)) ?t ?k v = Some c \<longrightarrow> v < cv)"
    show "latest_committed (row (cont (ge_db e1)) ?t ?k) prev"
      using gr by (simp only: granted_def Let_def)
    show "v < cv" if v: "row (cont (ge_db e1)) ?t ?k v = Some c" for v c
    proof (cases "is_atomic_operation w")
      case True
      with atomic v show ?thesis by blast
    next
      case False
      with gr v have "v \<le> wi_start_version req" unfolding granted_def Let_def by blast
      with lt show ?thesis by simp
    qed
  qed
  have other: "row (cont (ge_db e3)) ?t k' = row (cont (ge_db e1)) ?t k'" if "k' \<noteq> ?k" for k'
    using that by (simp add: rows commit_ops_row [OF assms(10)] after(5))
  show ?thesis
    by (rule exI [of _ desc], rule exI [of _ prev], rule exI [of _ i], rule exI [of _ "map row_op_wb ?ops"],
        intro conjI [OF gr] conjI [OF commit] exI [of _ e3] conjI [OF e3] conjI [OF pub] conjI [OF no_intent]
          conjI [OF newest] allI impI other)
qed

theorem write_commit_roundtrip_witness:
  "\<exists>e2. group_commit mem_ext demo_engine [the (er_batch demo_result)] demo_states = Inr e2 \<and>
     (\<exists>wb e3. commit_intent mem_ext exec_ctx_default demo_guard e2
          \<lparr>ci_shard_id = 1, ci_start_version = 5, ci_commit_version = 6, ci_user_key = [9]\<rparr>
        = (Inr (Some (with_batch wb)), defer_signal_all demo_guard Committed (Some 6)) \<and>
        group_commit mem_ext e2 [wb] demo_states = Inr e3 \<and>
        latest_committed (row (RBT.lookup (ge_db e3)) 2048 [9]) (Some \<lparr>v_content = Some [42], v_version = 6\<rparr>))"
proof (rule demo_write_commit)
  fix e2 assume c: "group_commit mem_ext demo_engine [the (er_batch demo_result)] demo_states = Inr e2"
  have ctx: "ec_move_shard_desc exec_ctx_default = None"
    and req: "wi_write demo_req = Some (Put demo_put)" "(6 :: u64) \<noteq> TXN_INTENT_VERSION"
    and at: "\<not> is_atomic_operation (Put demo_put)" "wi_start_version demo_req < 6"
    by (simp_all add: exec_ctx_default_def demo_req_def TXN_INTENT_VERSION_def is_atomic_operation_def demo_put_def)
  have desc: "ge_shard_descs demo_engine (wi_shard_id demo_req) = Some desc \<longleftrightarrow> desc = demo_shard" for desc
    by (auto simp: demo_engine_def demo_req_def)
  have pub: "intent_for (wi_start_version demo_req) (Put demo_put) prev = Inr i \<Longrightarrow>
      published 6 i prev = Some \<lparr>v_content = Some [42], v_version = 6\<rparr>" for prev i
    by (auto simp: intent_for_def demo_put_def demo_req_def apply_put_op_def put_type_of_def put_type_from_i32_def
        intent_with_put_def published_def)
  from write_commit_roundtrip [OF mem.ordered_store_axioms mem.intent_codec_axioms demo_keeps demo_inv
      req(1) demo_write [OF ctx] c demo_states_plain ctx req(2), of demo_guard] at
  obtain desc prev i wb e3 where r: "granted mem_ext RBT.lookup demo_engine demo_req (Put demo_put) demo_result desc prev i"
    "commit_intent mem_ext exec_ctx_default demo_guard e2
       \<lparr>ci_shard_id = wi_shard_id demo_req, ci_start_version = wi_start_version demo_req, ci_commit_version = 6,
        ci_user_key = user_key (Put demo_put)\<rparr>
      = (Inr (Some (with_batch wb)), defer_signal_all demo_guard Committed (Some 6))"
    "group_commit mem_ext e2 [wb] demo_states = Inr e3"
    "latest_committed (row (RBT.lookup (ge_db e3)) (sd_table_id desc) (user_key (Put demo_put))) (published 6 i prev)"
    by blast
  have "desc = demo_shard" "published 6 i prev = Some \<lparr>v_content = Some [42], v_version = 6\<rparr>"
    using r(1) by (auto simp: granted_def Let_def desc pub)
  with c r show ?thesis
    by (intro exI [of _ e2] exI [of _ wb] exI [of _ e3] conjI) (simp_all add: demo_req_def demo_put_def)
qed

text \<open>
  C8. A transaction never commits or clears the intent of another one: the commands answer
  without a batch and leave the latch signal untouched.
\<close>

theorem foreign_intent_untouched:
  assumes "ordered_store X cont" "engine_inv X cont e" "ge_shard_descs e sid = Some desc"
    and "intent_of X (row (cont (ge_db e)) (sd_table_id desc) k) = Some i" "ti_start_version i \<noteq> sv"
    and "ec_move_shard_desc ctx = None"
  shows "commit_intent X ctx g e \<lparr>ci_shard_id = sid, ci_start_version = sv, ci_commit_version = cv,
             ci_user_key = k\<rparr> = (Inr None, g) \<and>
         clear_intent X ctx g e \<lparr>cl_shard_id = sid, cl_start_version = sv, cl_user_key = k\<rparr>
           = (Inr None, g)"
  using assms
  by (intro conjI ordered_store.commit_intent_other [OF assms(1)]
      ordered_store.clear_intent_other [OF assms(1)]) auto

definition demo_locked :: "(bytes, bytes) rbt group_engine" where
  "demo_locked = demo_with [SetRow 2048 [9] TXN_INTENT_VERSION
     (Some (mem_enc_intent (intent_tombstone 3)))]"

lemma mem_dec_enc: "x_dec_intent mem_ext (mem_enc_intent i) = Inr i"
  using mem.dec_enc_intent [of i] by (simp add: mem_ext_def)

lemma demo_locked_inv: "engine_inv mem_ext RBT.lookup demo_locked"
  unfolding demo_locked_def by (rule demo_with_inv) (simp add: mem_dec_enc)

theorem foreign_intent_untouched_witness:
  "commit_intent mem_ext exec_ctx_default demo_guard demo_locked
     \<lparr>ci_shard_id = 1, ci_start_version = 5, ci_commit_version = 6, ci_user_key = [9]\<rparr>
     = (Inr None, demo_guard)"
proof -
  have "intent_of mem_ext (row (RBT.lookup (ge_db demo_locked)) (sd_table_id demo_shard) [9])
      = Some (intent_tombstone 3)"
    by (simp add: demo_locked_def demo_with_row intent_of_def mem_dec_enc)
  moreover have "ge_shard_descs demo_locked 1 = Some demo_shard"
    by (simp add: demo_locked_def)
  ultimately show ?thesis
    using foreign_intent_untouched [OF mem.ordered_store_axioms demo_locked_inv,
        of 1 demo_shard "[9]" "intent_tombstone 3" 5 exec_ctx_default demo_guard 6]
    by (simp add: intent_tombstone_def exec_ctx_default_def)
qed

text \<open>
  C9. A commit that was replicated is not repeated: the same request answers without a batch,
  whatever the group's engine holds elsewhere.
\<close>

theorem commit_intent_once:
  assumes "ordered_store X cont" "engine_inv X cont e"
    and "ge_shard_descs e (ci_shard_id cr) = Some desc" "ci_user_key cr \<noteq> []"
    and "intent_of X (row (cont (ge_db e)) (sd_table_id desc) (ci_user_key cr)) = Some i"
    and "ti_start_version i = ci_start_version cr" "ci_commit_version cr \<noteq> TXN_INTENT_VERSION"
    and "ec_move_shard_desc ctx = None" "plain_states st"
  shows "\<exists>wb g' e'. commit_intent X ctx g e cr = (Inr (Some (with_batch wb)), g') \<and>
      group_commit X e [wb] st = Inr e' \<and> commit_intent X ctx g e' cr = (Inr None, g)"
proof -
  let ?t = "sd_table_id desc"
  let ?ops = "commit_ops ?t (ci_user_key cr) i (ci_commit_version cr)"
  note own = ordered_store.commit_intent_own [OF assms(1,2,3,5,6,4,8)]
  obtain e' where e': "group_commit X e [map row_op_wb ?ops] st = Inr e'"
    and sh: "ge_shard_descs e' = ge_shard_descs e"
    by (rule ordered_store.plain_commit [OF assms(1,9)])
  have t: "?t \<noteq> LOCAL_TABLE_ID"
    by (rule ordered_store.engine_invD(2) [OF assms(1-3)])
  have inv: "engine_inv X cont e'"
    by (rule ordered_store.engine_inv_commit [OF assms(1) e' assms(9,2) commit_ops_ok [OF assms(4,7)]])
  have "row (cont (ge_db e')) ?t (ci_user_key cr) TXN_INTENT_VERSION = None"
    using assms(7) by (simp add: ordered_store.group_commit_rows [OF assms(1) e' t] commit_ops_row)
  then have "intent_of X (row (cont (ge_db e')) ?t (ci_user_key cr)) = None"
    by (simp add: intent_of_def)
  then have "commit_intent X ctx g e' cr = (Inr None, g)"
    using sh assms(3,8) by (intro ordered_store.commit_intent_other [OF assms(1) inv]) auto
  with own e' show ?thesis by blast
qed

theorem commit_intent_once_witness:
  "\<exists>wb g' e'. commit_intent mem_ext exec_ctx_default demo_guard demo_locked
      \<lparr>ci_shard_id = 1, ci_start_version = 3, ci_commit_version = 6, ci_user_key = [9]\<rparr>
      = (Inr (Some (with_batch wb)), g') \<and>
     group_commit mem_ext demo_locked [wb] demo_states = Inr e' \<and>
     commit_intent mem_ext exec_ctx_default demo_guard e'
      \<lparr>ci_shard_id = 1, ci_start_version = 3, ci_commit_version = 6, ci_user_key = [9]\<rparr>
      = (Inr None, demo_guard)"
  by (rule commit_intent_once [OF mem.ordered_store_axioms demo_locked_inv, where desc = demo_shard
        and i = "intent_tombstone 3"])
    (simp_all add: demo_locked_def demo_with_row intent_of_def mem_dec_enc intent_tombstone_def
      exec_ctx_default_def demo_states_plain TXN_INTENT_VERSION_def)

text \<open>
  C10. Writing an intent and clearing it again restores every row of the table.
\<close>

theorem write_clear_restores:
  assumes "ordered_store X cont" "intent_codec X" "resolver_keeps X cont resolve"
    and "engine_inv X cont e" "wi_write req = Some w"
    and "write_intent X resolve ctx g e req = Some (Inr (Some res, resp), g1, e1)"
    and "group_commit X e1 [the (er_batch res)] st = Inr e2" "plain_states st"
    and "ec_move_shard_desc ctx2 = None"
  defines "cr \<equiv> \<lparr>cl_shard_id = wi_shard_id req, cl_start_version = wi_start_version req,
                cl_user_key = user_key w\<rparr>"
  shows "\<exists>desc wb. ge_shard_descs e1 (wi_shard_id req) = Some desc \<and>
      clear_intent X ctx2 g2 e2 cr = (Inr (Some (with_batch wb)), defer_signal_all g2 Aborted None) \<and>
      (\<exists>e3. group_commit X e2 [wb] st = Inr e3 \<and>
        row (cont (ge_db e3)) (sd_table_id desc) = row (cont (ge_db e1)) (sd_table_id desc))"
proof -
  obtain desc prev i where gr: "granted X cont e1 req w res desc prev i"
    and inv: "engine_inv X cont e1"
    by (rule write_intent_granted_aux [OF assms(1,3,4,6,5)])
  note after = ordered_store.granted_commit
    [OF assms(1) intent_codec.dec_enc_intent [OF assms(2)] inv gr assms(7,8)]
  let ?t = "sd_table_id desc" and ?k = "user_key w"
  let ?ops = "[DelRow ?t ?k TXN_INTENT_VERSION]"
  have k: "?k \<noteq> []" and none: "row (cont (ge_db e1)) ?t ?k TXN_INTENT_VERSION = None"
    and d: "ge_shard_descs e1 (wi_shard_id req) = Some desc"
    and sv: "ti_start_version i = wi_start_version req"
    using gr by (auto simp: granted_def Let_def intro: intent_for_version)
  have t: "?t \<noteq> LOCAL_TABLE_ID"
    using ordered_store.engine_invD(2) [OF assms(1) after(1,2)] .
  have clear: "clear_intent X ctx2 g2 e2 cr =
      (Inr (Some (with_batch (map row_op_wb ?ops))), defer_signal_all g2 Aborted None)"
    using ordered_store.clear_intent_own [OF assms(1) after(1), of cr desc i ctx2 g2] after(2,4) sv k assms(9)
    by (simp add: cr_def)
  obtain e3 where e3: "group_commit X e2 [map row_op_wb ?ops] st = Inr e3"
    by (rule ordered_store.plain_commit [OF assms(1,8)])
  have "row (cont (ge_db e3)) ?t k' = row (cont (ge_db e1)) ?t k'" for k'
  proof (cases "k' = ?k")
    case True
    with none after(3) show ?thesis
      by (auto simp: ordered_store.group_commit_rows [OF assms(1) e3 t] row_upd_def fun_eq_iff)
  next
    case False
    then have "row (cont (ge_db e3)) ?t k' = row (cont (ge_db e2)) ?t k'"
      by (simp add: ordered_store.group_commit_rows [OF assms(1) e3 t] row_upd_def fun_eq_iff)
    with after(5) [OF False] show ?thesis by simp
  qed
  with d clear e3 show ?thesis by blast
qed

theorem write_clear_restores_witness:
  "\<exists>e2. group_commit mem_ext demo_engine [the (er_batch demo_result)] demo_states = Inr e2 \<and>
     (\<exists>wb e3. clear_intent mem_ext exec_ctx_default demo_guard e2
          \<lparr>cl_shard_id = 1, cl_start_version = 5, cl_user_key = [9]\<rparr>
        = (Inr (Some (with_batch wb)), defer_signal_all demo_guard Aborted None) \<and>
        group_commit mem_ext e2 [wb] demo_states = Inr e3)"
proof (rule demo_write_commit)
  fix e2 assume c: "group_commit mem_ext demo_engine [the (er_batch demo_result)] demo_states = Inr e2"
  have ctx: "ec_move_shard_desc exec_ctx_default = None"
    and req: "wi_write demo_req = Some (Put demo_put)"
    by (simp_all add: exec_ctx_default_def demo_req_def)
  from write_clear_restores [OF mem.ordered_store_axioms mem.intent_codec_axioms demo_keeps demo_inv
      req demo_write [OF ctx] c demo_states_plain ctx, of demo_guard] c
  show ?thesis
    by (auto simp: demo_req_def demo_put_def)
qed

end
