(* ===== verification/Get_Props.thy ===== *)
theory Get_Props
  imports Eval_Read Txn_Props
begin

text \<open>
  What a point read returns: the newest committed version its snapshot may see, unless an intent
  that is old enough resolves to a visible value. What commits later does not change it.
\<close>

section \<open>Reads as functions of the history\<close>

fun visible_in ::
    "'db ext \<Rightarrow> mgr_resolver \<Rightarrow> u64 \<Rightarrow> bytes \<Rightarrow> u64 \<Rightarrow> kv_value list \<Rightarrow> kv_value option result" where
  "visible_in X resolve sid k sv [] = Inr None"
| "visible_in X resolve sid k sv (v # vs) =
     (if v_version v = TXN_INTENT_VERSION
      then rbind (ok_or (InvalidData ''the intent value of key not exists?'') (v_content v)) (\<lambda>c.
           rbind (x_dec_intent X c) (\<lambda>i.
             if ti_start_version i \<le> sv
             then rbind (resolve sid k sv (ti_start_version i)) (\<lambda>r.
                    case r of
                      Some x \<Rightarrow> if v_version x \<le> sv then Inr (Some x)
                               else visible_in X resolve sid k sv vs
                    | None \<Rightarrow> visible_in X resolve sid k sv vs)
             else visible_in X resolve sid k sv vs))
      else if v_version v \<le> sv then Inr (Some v)
      else visible_in X resolve sid k sv vs)"

lemma read_entries_viewed:
  assumes "viewed s es" "current s = Some k" "\<forall>e\<in>set es. me_value e \<noteq> []"
  shows "read_entries X resolve sid key sv s =
    visible_in X resolve sid key sv (map value_of (takeWhile (of_key k) es))"
  using assms
proof (induction es arbitrary: s)
  case Nil
  then show ?case
    using next_mvcc_entry_viewed [OF Nil.prems(1,2)]
    by (cases "next_mvcc_entry s") (simp add: read_entries.simps [of _ _ _ _ _ s])
next
  case (Cons e es)
  show ?case
  proof (cases "me_user_key e = k")
    case True
    then obtain s' where s': "next_mvcc_entry s = (Some (Inr e), s')" "viewed s' es" "current s' = Some k"
      using next_mvcc_entry_viewed [OF Cons.prems(1,2)] by auto
    have IH: "read_entries X resolve sid key sv s' =
        visible_in X resolve sid key sv (map value_of (takeWhile (of_key k) es))"
      using Cons.IH [OF s'(2,3)] Cons.prems(3) by simp
    have v: "entry_value e = Inr (content_of (me_value e))" "entry_into e = Inr (value_of e)"
      using Cons.prems(3) by (simp_all add: entry_value_content entry_into_value_of)
    show ?thesis
      by (subst read_entries.simps, simp add: s'(1) True v, unfold IH, simp)
  next
    case False
    then obtain s' where "next_mvcc_entry s = (None, s')"
      using next_mvcc_entry_viewed [OF Cons.prems(1,2)] by auto
    with False show ?thesis
      by (simp add: read_entries.simps [of _ _ _ _ _ s])
  qed
qed

context ordered_store
begin

lemma read_key_history:
  assumes "wf_store (cont (ge_db e))" "ge_shard_descs e sid = Some desc"
    and "sd_table_id desc \<noteq> LOCAL_TABLE_ID"
  obtains vs where "read_key X resolve e sid k sv = visible_in X resolve sid k sv vs"
    "is_history (cont (ge_db e)) (sd_table_id desc) k vs"
proof (rule key_snapshot [OF assms, of k])
  fix s es
  let ?vs = "map value_of (takeWhile (of_key k) es)"
  assume s: "engine_snapshot X e sid (KeyMode k) = Inr s"
    and hist: "is_history (cont (ge_db e)) (sd_table_id desc) k ?vs"
    and empty: "takeWhile (of_key k) es = [] \<Longrightarrow> fst (next_mvcc_iterator s) = None"
    and found: "takeWhile (of_key k) es \<noteq> [] \<Longrightarrow>
       \<exists>s'. next_mvcc_iterator s = (Some (Inr ()), s') \<and> viewed s' es \<and> current s' = Some k"
    and vals: "\<forall>e\<in>set es. me_value e \<noteq> []"
  have "read_key X resolve e sid k sv = visible_in X resolve sid k sv ?vs"
  proof (cases "takeWhile (of_key k) es = []")
    case True
    with s empty show ?thesis
      by (cases "next_mvcc_iterator s") (simp add: read_key_def)
  next
    case False
    then obtain s' where s': "next_mvcc_iterator s = (Some (Inr ()), s')" "viewed s' es"
        "current s' = Some k"
      using found by blast
    with s read_entries_viewed [OF s'(2,3) vals] show ?thesis
      by (simp add: read_key_def)
  qed
  with hist show thesis
    using that by blast
qed

end

section \<open>What is visible at a version\<close>

definition latest_at :: "vrow \<Rightarrow> u64 \<Rightarrow> kv_value option \<Rightarrow> bool" where
  "latest_at r sv v \<longleftrightarrow>
     (case v of
        None \<Rightarrow> \<forall>w. w \<noteq> TXN_INTENT_VERSION \<and> w \<le> sv \<longrightarrow> r w = None
      | Some x \<Rightarrow> v_version x \<noteq> TXN_INTENT_VERSION \<and> v_version x \<le> sv \<and>
          r (v_version x) = Some (v_content x) \<and>
          (\<forall>w. w \<noteq> TXN_INTENT_VERSION \<and> w \<le> sv \<and> r w \<noteq> None \<longrightarrow> w \<le> v_version x))"

lemma latest_at_cong:
  assumes "\<And>w. w \<noteq> TXN_INTENT_VERSION \<Longrightarrow> w \<le> sv \<Longrightarrow> r w = r' w"
  shows "latest_at r sv v \<longleftrightarrow> latest_at r' sv v"
  using assms by (cases v) (auto simp: latest_at_def)

lemma latest_at_history:
  assumes h: "is_history m t k vs"
  shows "latest_at (row m t k) sv
    (find (\<lambda>x. v_version x \<noteq> TXN_INTENT_VERSION \<and> v_version x \<le> sv) vs)"
proof (cases "find (\<lambda>x. v_version x \<noteq> TXN_INTENT_VERSION \<and> v_version x \<le> sv) vs")
  case None
  have "row m t k w = None" if "w \<noteq> TXN_INTENT_VERSION" "w \<le> sv" for w
  proof (rule ccontr)
    assume "row m t k w \<noteq> None"
    then obtain c where "\<lparr>v_content = c, v_version = w\<rparr> \<in> set vs"
      using is_history_row [OF h] by blast
    with None that show False
      by (auto simp: find_None_iff)
  qed
  with None show ?thesis
    by (simp add: latest_at_def)
next
  case (Some x)
  then obtain i where i: "i < length vs" "v_version (vs ! i) \<noteq> TXN_INTENT_VERSION"
      "v_version (vs ! i) \<le> sv" "x = vs ! i"
      "\<forall>j<i. \<not> (v_version (vs ! j) \<noteq> TXN_INTENT_VERSION \<and> v_version (vs ! j) \<le> sv)"
    by (auto simp: find_Some_iff)
  have "w \<le> v_version x" if w: "w \<noteq> TXN_INTENT_VERSION" "w \<le> sv" "row m t k w = Some c" for w c
  proof -
    obtain j where j: "j < length vs" "vs ! j = \<lparr>v_content = c, v_version = w\<rparr>"
      using is_history_row [OF h] w(3) by (metis in_set_conv_nth)
    then have "i \<le> j"
      using i(5) w by (metis kv_value.select_convs(2) not_le)
    moreover have "v_version (vs ! j) < v_version (vs ! i)" if "i < j"
      using h that j(1) by (auto simp: is_history_def sorted_wrt_iff_nth_less)
    ultimately show ?thesis
      using j i(4) by (cases "i = j") auto
  qed
  moreover have "row m t k (v_version x) = Some (v_content x)"
    using is_historyD [OF h, of x] i by simp
  ultimately show ?thesis
    using Some i by (auto simp: latest_at_def)
qed

lemma visible_in_plain:
  "\<forall>v\<in>set vs. v_version v \<noteq> TXN_INTENT_VERSION \<Longrightarrow>
    visible_in X resolve sid k sv vs =
      Inr (find (\<lambda>x. v_version x \<noteq> TXN_INTENT_VERSION \<and> v_version x \<le> sv) vs)"
  by (induction vs) auto

text \<open>Reading a key, with the outcome of resolving its intent if the intent is old enough.\<close>

definition read_outcome ::
    "mgr_resolver \<Rightarrow> u64 \<Rightarrow> bytes \<Rightarrow> u64 \<Rightarrow> txn_intent option \<Rightarrow> kv_value option \<Rightarrow>
     kv_value option result" where
  "read_outcome resolve sid k sv i res =
     (case i of
        Some i \<Rightarrow>
          if ti_start_version i \<le> sv
          then rbind (resolve sid k sv (ti_start_version i)) (\<lambda>r.
                 case r of Some x \<Rightarrow> if v_version x \<le> sv then Inr (Some x) else Inr res
                 | None \<Rightarrow> Inr res)
          else Inr res
      | None \<Rightarrow> Inr res)"

lemma visible_in_row:
  assumes h: "is_history m t k vs" and ok: "intent_ok X (row m t k)"
  obtains res where "latest_at (row m t k) sv res"
    "visible_in X resolve sid key sv vs = read_outcome resolve sid key sv (intent_of X (row m t k)) res"
proof -
  let ?p = "\<lambda>x. v_version x \<noteq> TXN_INTENT_VERSION \<and> v_version x \<le> sv"
  have "visible_in X resolve sid key sv vs =
      read_outcome resolve sid key sv (intent_of X (row m t k)) (find ?p vs)"
  proof (cases "row m t k TXN_INTENT_VERSION")
    case None
    then have "\<forall>v\<in>set vs. v_version v \<noteq> TXN_INTENT_VERSION"
      using is_historyD [OF h] by (metis option.distinct(1))
    moreover have "intent_of X (row m t k) = None"
      using None by (simp add: intent_of_def)
    ultimately show ?thesis
      by (simp add: visible_in_plain read_outcome_def)
  next
    case (Some c)
    then obtain i where i: "intent_of X (row m t k) = Some i"
      using ok by (auto simp: intent_ok_def)
    then obtain b where b: "c = Some b" "x_dec_intent X b = Inr i"
      using intent_of_SomeD [OF i] Some by auto
    have "\<lparr>v_content = c, v_version = TXN_INTENT_VERSION\<rparr> \<in> set vs"
      using is_history_row [OF h] Some by blast
    then obtain v ws where vs: "vs = v # ws"
      by (cases vs) auto
    have "TXN_INTENT_VERSION \<le> v_version v"
      using is_history_newest [OF h [unfolded vs] Some] .
    then have v: "v_version v = TXN_INTENT_VERSION"
      by simp
    then have "v_content v = Some b"
      using is_historyD [OF h, of v] Some b vs by simp
    moreover have "\<forall>x\<in>set ws. v_version x \<noteq> TXN_INTENT_VERSION"
      using is_history_versions [OF h [unfolded vs]] v by fastforce
    ultimately show ?thesis
      using i b v
      by (simp add: vs read_outcome_def, unfold visible_in_plain) (simp split: option.split)
  qed
  then show ?thesis
    using that latest_at_history [OF h] by blast
qed

section \<open>Properties\<close>

lemma eval_get_latest:
  assumes "ordered_store X cont" "engine_inv X cont e"
    and "ge_shard_descs e (sg_shard_id req) = Some desc" "ec_move_shard_desc ctx = None"
  defines "r \<equiv> row (cont (ge_db e)) (sd_table_id desc) (sg_user_key req)"
  shows "\<exists>res. latest_at r (sg_start_version req) res \<and>
    eval_get X resolve ctx e req =
      read_outcome resolve (sg_shard_id req) (sg_user_key req) (sg_start_version req) (intent_of X r) res"
proof -
  note inv = ordered_store.engine_invD [OF assms(1-3)]
  show ?thesis
  proof (rule ordered_store.read_key_history [OF assms(1) inv(1) assms(3) inv(2),
        of resolve "sg_user_key req" "sg_start_version req"])
    fix vs
    assume rd: "read_key X resolve e (sg_shard_id req) (sg_user_key req) (sg_start_version req)
        = visible_in X resolve (sg_shard_id req) (sg_user_key req) (sg_start_version req) vs"
      and h: "is_history (cont (ge_db e)) (sd_table_id desc) (sg_user_key req) vs"
    show ?thesis
      by (rule visible_in_row [OF h inv(3), of "sg_start_version req" resolve "sg_shard_id req"
            "sg_user_key req"])
        (use rd assms(4) in \<open>auto simp: eval_get_def r_def\<close>)
  qed
qed

text \<open>
  C2. Snapshot read: a get at version \<open>sv\<close> of a key of a shard that is not moving returns the
  newest committed version of the key that is not newer than \<open>sv\<close>, tombstones included. If the key
  carries an intent of a transaction that started at or before \<open>sv\<close>, the intent is resolved first
  and its value is returned when it committed at or before \<open>sv\<close>.
\<close>

theorem snapshot_read:
  assumes "ordered_store X cont" "engine_inv X cont e"
    and "ge_shard_descs e (sg_shard_id req) = Some desc" "ec_move_shard_desc ctx = None"
  defines "r \<equiv> row (cont (ge_db e)) (sd_table_id desc) (sg_user_key req)"
  shows "\<exists>res. latest_at r (sg_start_version req) res \<and>
    eval_get X resolve ctx e req =
      read_outcome resolve (sg_shard_id req) (sg_user_key req) (sg_start_version req) (intent_of X r) res"
  unfolding r_def by (rule eval_get_latest [OF assms(1-4)])

theorem snapshot_read_witness:
  "let e = demo_with [SetRow 2048 [9] 8 (Some [1]), SetRow 2048 [9] 4 (Some [7])];
       req = \<lparr>sg_shard_id = 1, sg_start_version = 5, sg_user_key = [9]\<rparr>
   in \<exists>res. latest_at (row (RBT.lookup (ge_db e)) 2048 [9]) 5 res \<and>
        eval_get mem_ext (\<lambda>_ _ _ _. Inr None) exec_ctx_default e req = Inr res"
proof -
  let ?e = "demo_with [SetRow 2048 [9] 8 (Some [1]), SetRow 2048 [9] 4 (Some [7])]"
  have "engine_inv mem_ext RBT.lookup ?e"
    by (rule demo_with_inv) (simp add: TXN_INTENT_VERSION_def)
  moreover have "intent_of mem_ext (row (RBT.lookup (ge_db ?e)) 2048 [9]) = None"
    by (simp add: demo_with_row intent_of_def TXN_INTENT_VERSION_def)
  ultimately show ?thesis
    using snapshot_read [OF mem.ordered_store_axioms, of ?e
        "\<lparr>sg_shard_id = 1, sg_start_version = 5, sg_user_key = [9]\<rparr>" demo_shard exec_ctx_default]
    by (simp add: exec_ctx_default_def read_outcome_def)
qed

lemma publish_old_versions:
  assumes "sv < cv" "w \<le> sv"
  shows "publish cv i r w = r w"
  using assms by (auto simp: publish_def split: option.splits)

text \<open>
  C11. Snapshots are stable: when a transaction commits at a version later than the reader's, the
  reader sees after the commit what the committed versions gave before it, and no longer waits for
  the intent.
\<close>

theorem later_commit_invisible:
  assumes "ordered_store X cont" "engine_inv X cont e"
    and "ge_shard_descs e (ci_shard_id cr) = Some desc" "ci_user_key cr \<noteq> []"
    and "intent_of X (row (cont (ge_db e)) (sd_table_id desc) (ci_user_key cr)) = Some i"
    and "ti_start_version i = ci_start_version cr" "ci_commit_version cr \<noteq> TXN_INTENT_VERSION"
    and "ec_move_shard_desc ctx = None" "plain_states st" "sv < ci_commit_version cr"
  shows "\<exists>wb g' e' res. commit_intent X ctx g e cr = (Inr (Some (with_batch wb)), g') \<and>
      group_commit X e [wb] st = Inr e' \<and>
      latest_at (row (cont (ge_db e)) (sd_table_id desc) (ci_user_key cr)) sv res \<and>
      eval_get X resolve ctx e'
        \<lparr>sg_shard_id = ci_shard_id cr, sg_start_version = sv, sg_user_key = ci_user_key cr\<rparr> = Inr res"
proof -
  let ?t = "sd_table_id desc" and ?k = "ci_user_key cr" and ?cv = "ci_commit_version cr"
  let ?req = "\<lparr>sg_shard_id = ci_shard_id cr, sg_start_version = sv, sg_user_key = ?k\<rparr>"
  let ?ops = "commit_ops ?t ?k i ?cv"
  note own = ordered_store.commit_intent_own [OF assms(1,2,3,5,6,4,8)]
  obtain e' where e': "group_commit X e [map row_op_wb ?ops] st = Inr e'"
    and sh: "ge_shard_descs e' = ge_shard_descs e"
    by (rule ordered_store.plain_commit [OF assms(1,9)])
  have t: "?t \<noteq> LOCAL_TABLE_ID"
    by (rule ordered_store.engine_invD(2) [OF assms(1-3)])
  have inv: "engine_inv X cont e'"
    by (rule ordered_store.engine_inv_commit [OF assms(1) e' assms(9,2) commit_ops_ok [OF assms(4,7)]])
  let ?r = "row (cont (ge_db e)) ?t ?k" and ?r' = "row (cont (ge_db e')) ?t ?k"
  have r': "?r' = publish ?cv i (?r(TXN_INTENT_VERSION := None))"
    by (simp add: ordered_store.group_commit_rows [OF assms(1) e' t] commit_ops_row [OF assms(7)])
  then have "intent_of X ?r' = None"
    using assms(7) by (simp add: intent_of_def)
  moreover have "latest_at ?r' sv res \<longleftrightarrow> latest_at ?r sv res" for res
    by (rule latest_at_cong) (simp add: r' publish_old_versions [OF assms(10)])
  ultimately obtain res where "latest_at ?r sv res" "eval_get X resolve ctx e' ?req = Inr res"
    using eval_get_latest [OF assms(1) inv, of ?req desc ctx resolve] sh assms(3,8)
    by (auto simp: read_outcome_def)
  with own e' show ?thesis by blast
qed

theorem later_commit_invisible_witness:
  "\<exists>wb g' e' res. commit_intent mem_ext exec_ctx_default demo_guard demo_locked
      \<lparr>ci_shard_id = 1, ci_start_version = 3, ci_commit_version = 6, ci_user_key = [9]\<rparr>
      = (Inr (Some (with_batch wb)), g') \<and>
     group_commit mem_ext demo_locked [wb] demo_states = Inr e' \<and>
     eval_get mem_ext (\<lambda>_ _ _ _. Inr None) exec_ctx_default e'
        \<lparr>sg_shard_id = 1, sg_start_version = 4, sg_user_key = [9]\<rparr> = Inr res"
proof -
  let ?cr = "\<lparr>ci_shard_id = 1, ci_start_version = 3, ci_commit_version = 6, ci_user_key = [9]\<rparr>"
  have "ge_shard_descs demo_locked (ci_shard_id ?cr) = Some demo_shard" "ci_user_key ?cr \<noteq> []"
    "intent_of mem_ext (row (RBT.lookup (ge_db demo_locked)) (sd_table_id demo_shard) (ci_user_key ?cr))
       = Some (intent_tombstone 3)"
    "ti_start_version (intent_tombstone 3) = ci_start_version ?cr"
    "ci_commit_version ?cr \<noteq> TXN_INTENT_VERSION" "ec_move_shard_desc exec_ctx_default = None"
    "4 < ci_commit_version ?cr"
    by (simp_all add: demo_locked_def demo_with_row intent_of_def mem_dec_enc intent_tombstone_def
        exec_ctx_default_def TXN_INTENT_VERSION_def)
  from later_commit_invisible [OF mem.ordered_store_axioms demo_locked_inv this(1-6) demo_states_plain this(7),
      of demo_guard "\<lambda>_ _ _ _. Inr None"]
  show ?thesis by auto
qed

end
