(* ===== verification/Scan_View.thy ===== *)
theory Scan_View
  imports Get_Props
begin

text \<open>
  A scan as a function of the rows: the snapshot is grouped by key, the groups are the histories of
  the keys in the range, in key order, and the scan is a fold over them.
\<close>

section \<open>The pure scan\<close>

definition scan_value ::
    "'db ext \<Rightarrow> mgr_resolver \<Rightarrow> shard_scan_request \<Rightarrow> bytes \<Rightarrow> kv_value \<Rightarrow> (bytes option \<times> u64) option result" where
  "scan_value X resolve req k v =
     (if v_version v = TXN_INTENT_VERSION \<and> \<not> sc_ignore_txn_intent req
      then rbind (ok_or (InvalidData ''the value of intent key is not exists'') (v_content v))
             (scan_resolve_txn X resolve (sc_shard_id req) (sc_start_version req) k)
      else if sc_start_version req < v_version v then Inr None
      else Inr (Some (v_content v, v_version v)))"

definition scan_push ::
    "shard_scan_request \<Rightarrow> bytes option \<Rightarrow> u64 \<Rightarrow> kv_value list \<times> nat \<Rightarrow> kv_value list \<times> nat" where
  "scan_push req content version acc =
     (case content of
        Some c \<Rightarrow> (fst acc @ [\<lparr>v_content = Some c, v_version = version\<rparr>], snd acc + length c)
      | None \<Rightarrow> if sc_include_raw_data req
               then (fst acc @ [\<lparr>v_content = None, v_version = version\<rparr>], snd acc) else acc)"

fun scan_hist ::
    "'db ext \<Rightarrow> mgr_resolver \<Rightarrow> shard_scan_request \<Rightarrow> bytes \<Rightarrow> kv_value list \<Rightarrow> kv_value list \<times> nat \<Rightarrow>
     (kv_value list \<times> nat) option result" where
  "scan_hist X resolve req k [] acc = Inr (Some acc)"
| "scan_hist X resolve req k (v # vs) acc =
     (if is_exclude_boundary req k then Inr None
      else case scan_value X resolve req k v of
             Inl err \<Rightarrow> Inl err
           | Inr None \<Rightarrow> scan_hist X resolve req k vs acc
           | Inr (Some (content, version)) \<Rightarrow>
               if \<not> sc_include_raw_data req then Inr (Some (scan_push req content version acc))
               else scan_hist X resolve req k vs (scan_push req content version acc))"

definition scan_set ::
    "'db ext \<Rightarrow> mgr_resolver \<Rightarrow> shard_scan_request \<Rightarrow> bytes \<Rightarrow> kv_value list \<Rightarrow> (value_set \<times> nat) option result" where
  "scan_set X resolve req k vs =
     rbind (scan_hist X resolve req k vs ([], 0)) (\<lambda>r.
       case r of
         None \<Rightarrow> Inr None
       | Some (values, n) \<Rightarrow>
           if values = [] then Inr None
           else Inr (Some (\<lparr>vs_user_key = k, vs_values = values\<rparr>, n + length k)))"

definition limit_hit :: "shard_scan_request \<Rightarrow> value_set list \<Rightarrow> nat \<Rightarrow> bool" where
  "limit_hit req data n \<longleftrightarrow>
     sc_limit req \<noteq> 0 \<and> unat (sc_limit req) = length data \<or>
     sc_limit_bytes req \<noteq> 0 \<and> unat (sc_limit_bytes req) \<le> n"

fun scan_spec ::
    "'db ext \<Rightarrow> mgr_resolver \<Rightarrow> shard_scan_request \<Rightarrow> (bytes \<times> kv_value list) list \<Rightarrow> value_set list \<Rightarrow> nat \<Rightarrow>
     shard_scan_response result" where
  "scan_spec X resolve req [] data n = Inr \<lparr>sr_data = data, sr_has_more = False\<rparr>"
| "scan_spec X resolve req ((k, vs) # hs) data n =
     (if is_exceeds (sc_end_key req) k then Inr \<lparr>sr_data = data, sr_has_more = False\<rparr>
      else case scan_set X resolve req k vs of
             Inl err \<Rightarrow> Inl err
           | Inr None \<Rightarrow> scan_spec X resolve req hs data n
           | Inr (Some (x, b)) \<Rightarrow>
               if limit_hit req (data @ [x]) (n + b)
               then Inr \<lparr>sr_data = data @ [x], sr_has_more = True\<rparr>
               else scan_spec X resolve req hs (data @ [x]) (n + b))"

section \<open>The snapshot scan is the pure scan\<close>

lemma scan_entry_value_of:
  "me_value e \<noteq> [] \<Longrightarrow> scan_entry_value X resolve req e = scan_value X resolve req (me_user_key e) (value_of e)"
  by (simp add: scan_entry_value_def scan_value_def entry_value_content Let_def)

lemma scan_values_viewed:
  assumes "viewed s es" "current s = Some k" "\<forall>e\<in>set es. me_value e \<noteq> []"
  shows "\<exists>s' es'. scan_values X resolve req s vs n =
      (scan_hist X resolve req k (map value_of (takeWhile (of_key k) es)) (vs, n), s') \<and>
    viewed s' es' \<and> dropWhile (of_key k) es' = dropWhile (of_key k) es \<and> current s' = Some k \<and>
    same_scope s s' \<and> set es' \<subseteq> set es"
  using assms
proof (induction es arbitrary: s vs n)
  case Nil
  obtain q s' where q: "next_mvcc_entry s = (q, s')"
    by fastforce
  have "q = None" "viewed s' []" "current s' = Some k" "same_scope s s'"
    using next_mvcc_entry_viewed [OF Nil.prems(1,2)] q by simp_all
  with q show ?case
    by (intro exI [of _ s'] exI [of _ "[]"]) (simp add: scan_values.simps [of _ _ _ s])
next
  case (Cons e es)
  show ?case
  proof (cases "me_user_key e = k")
    case True
    then obtain s1 where s1: "next_mvcc_entry s = (Some (Inr e), s1)" "viewed s1 es" "current s1 = Some k"
        "same_scope s s1"
      using next_mvcc_entry_viewed [OF Cons.prems(1,2)] by auto
    have val: "scan_entry_value X resolve req e = scan_value X resolve req k (value_of e)"
      using Cons.prems(3) True by (simp add: scan_entry_value_of)
    have stop: "\<exists>s' es'. (res, s1) = (res, s') \<and> viewed s' es' \<and>
        dropWhile (of_key k) es' = dropWhile (of_key k) (e # es) \<and> current s' = Some k \<and>
        same_scope s s' \<and> set es' \<subseteq> set (e # es)" for res :: "(kv_value list \<times> nat) option result"
      using s1 True by (intro exI [of _ s1] exI [of _ es]) auto
    have go: "\<exists>s' es'. scan_values X resolve req s1 ws m =
          (scan_hist X resolve req k (map value_of (takeWhile (of_key k) es)) (ws, m), s') \<and>
        viewed s' es' \<and> dropWhile (of_key k) es' = dropWhile (of_key k) (e # es) \<and>
        current s' = Some k \<and> same_scope s s' \<and> set es' \<subseteq> set (e # es)" for ws m
      using Cons.IH [OF s1(2,3), of ws m] Cons.prems(3) True same_scope_trans [OF s1(4)]
      by (auto 4 4)
    show ?thesis
      using True go stop
      by (subst scan_values.simps)
        (auto simp: s1(1) val scan_push_def split: sum.splits option.splits prod.splits)
  next
    case False
    then obtain s1 where "next_mvcc_entry s = (None, s1)" "viewed s1 (e # es)" "current s1 = Some k"
        "same_scope s s1"
      using next_mvcc_entry_viewed [OF Cons.prems(1,2)] by auto
    with False show ?thesis
      by (intro exI [of _ s1] exI [of _ "e # es"]) (simp add: scan_values.simps [of _ _ _ s])
  qed
qed

lemma scan_value_set_viewed:
  assumes "viewed s es" "current s = Some k" "\<forall>e\<in>set es. me_value e \<noteq> []"
  shows "\<exists>s' es'. scan_value_set X resolve req s =
      (scan_set X resolve req k (map value_of (takeWhile (of_key k) es)), s') \<and>
    viewed s' es' \<and> dropWhile (of_key k) es' = dropWhile (of_key k) es \<and> current s' = Some k \<and>
    same_scope s s' \<and> set es' \<subseteq> set es"
proof -
  obtain s' es' where s': "scan_values X resolve req s [] 0 =
      (scan_hist X resolve req k (map value_of (takeWhile (of_key k) es)) ([], 0), s')"
    "viewed s' es' \<and> dropWhile (of_key k) es' = dropWhile (of_key k) es \<and> current s' = Some k \<and>
      same_scope s s' \<and> set es' \<subseteq> set es"
    using scan_values_viewed [OF assms] by blast
  have "scan_value_set X resolve req s =
      (scan_set X resolve req k (map value_of (takeWhile (of_key k) es)), s')"
    using s' by (simp add: scan_value_set_def scan_set_def iter_user_key_def rbind_def
        split: sum.splits option.splits prod.splits)
  with s'(2) show ?thesis by blast
qed

function groups :: "mvcc_entry list \<Rightarrow> (bytes \<times> kv_value list) list" where
  "groups [] = []"
| "groups (e # es) =
     (me_user_key e, map value_of (takeWhile (of_key (me_user_key e)) (e # es))) #
     groups (dropWhile (of_key (me_user_key e)) es)"
  by pat_completeness auto
termination
  by (relation "measure length") (auto simp: le_imp_less_Suc length_dropWhile_le)

lemma takeWhile_takeWhile_sub:
  "(\<And>x. P x \<Longrightarrow> Q x) \<Longrightarrow> takeWhile P (takeWhile Q xs) = takeWhile P xs"
  by (induction xs) auto

lemma dropWhile_takeWhile_sub:
  "(\<And>x. P x \<Longrightarrow> Q x) \<Longrightarrow> dropWhile P (takeWhile Q xs) = takeWhile Q (dropWhile P xs)"
  by (induction xs) auto

lemma groups_takeWhile_valid:
  assumes "V (me_user_key e)"
  shows "groups (takeWhile (\<lambda>x. V (me_user_key x)) (e # es)) =
    (me_user_key e, map value_of (takeWhile (of_key (me_user_key e)) (e # es))) #
    groups (takeWhile (\<lambda>x. V (me_user_key x)) (dropWhile (of_key (me_user_key e)) es))"
proof -
  let ?V = "\<lambda>x. V (me_user_key x)" and ?P = "of_key (me_user_key e)"
  have sub: "\<And>x. ?P x \<Longrightarrow> ?V x"
    using assms by simp
  show ?thesis
    using assms by (simp add: takeWhile_takeWhile_sub [of ?P ?V, OF sub]
        dropWhile_takeWhile_sub [of ?P ?V, OF sub])
qed

lemma scan_loop_viewed:
  assumes "viewed s es" "\<And>k. current s = Some k \<Longrightarrow> key_valid s k" "\<forall>e\<in>set es. me_value e \<noteq> []"
  shows "scan_loop X resolve req s data n =
    scan_spec X resolve req (groups (takeWhile (\<lambda>e. key_valid s (me_user_key e)) (rest_keys s es))) data n"
  using assms
proof (induction "snap_size s" arbitrary: s es data n rule: less_induct)
  case less
  have spec: "iterator_spec s es"
    using next_mvcc_iterator_viewed [OF less.prems(1,2)] .
  show ?case
  proof (cases "rest_keys s es")
    case Nil
    with spec show ?thesis
      by (cases "next_mvcc_iterator s") (simp add: iterator_spec_def scan_loop.simps [of _ _ _ s])
  next
    case (Cons e es0)
    let ?k = "me_user_key e"
    show ?thesis
    proof (cases "key_valid s ?k")
      case False
      with spec Cons show ?thesis
        by (cases "next_mvcc_iterator s") (simp add: iterator_spec_def scan_loop.simps [of _ _ _ s])
    next
      case True
      then obtain s1 where s1: "next_mvcc_iterator s = (Some (Inr ()), s1)" "viewed s1 (e # es0)"
          "current s1 = Some ?k" "same_scope s s1"
        using spec Cons by (auto simp: iterator_spec_def)
      have sub: "set (e # es0) \<subseteq> set es"
        using Cons set_dropWhileD unfolding rest_keys_def by (metis subsetI)
      then have nonempty: "\<forall>e\<in>set (e # es0). me_value e \<noteq> []"
        using less.prems(3) by blast
      obtain s2 es2 where s2: "scan_value_set X resolve req s1 =
          (scan_set X resolve req ?k (map value_of (takeWhile (of_key ?k) (e # es0))), s2)"
        "viewed s2 es2" "dropWhile (of_key ?k) es2 = dropWhile (of_key ?k) (e # es0)"
        "current s2 = Some ?k" "same_scope s1 s2" "set es2 \<subseteq> set (e # es0)"
        using scan_value_set_viewed [OF s1(2,3) nonempty] by blast
      have valid: "key_valid s2 = key_valid s"
        using same_scope_key_valid [OF same_scope_trans [OF s1(4) s2(5)]] by blast
      have rest: "rest_keys s2 es2 = dropWhile (of_key ?k) es0"
        using s2(3,4) by (simp add: rest_keys_def)
      have IH: "scan_loop X resolve req s2 data' n' = scan_spec X resolve req
          (groups (takeWhile (\<lambda>e. key_valid s (me_user_key e)) (dropWhile (of_key ?k) es0))) data' n'"
        for data' n'
        using less.hyps [OF scan_step_shrinks [OF s1(1) s2(1)] s2(2), of data' n'] s2(4,6) True nonempty
        by (auto simp: valid rest)
      show ?thesis
        unfolding Cons groups_takeWhile_valid [of "key_valid s", OF True]
        by (subst scan_loop.simps)
          (simp add: s1(1,3) iter_user_key_def s2(1) IH limit_hit_def Let_def
            split: sum.split option.split)
    qed
  qed
qed

end
