(* ===== verification/Scan_Props.thy ===== *)
theory Scan_Props
  imports Scan_View
begin

text \<open>
  What a scan returns, and what merging the responses of the two sides of a moving shard keeps.
\<close>

section \<open>The groups of a snapshot\<close>

abbreviation key_le :: "mvcc_entry \<Rightarrow> mvcc_entry \<Rightarrow> bool" where
  "key_le a b \<equiv> me_user_key a \<le> me_user_key b"

lemma sorted_key_le: "sorted_wrt entry_before es \<Longrightarrow> sorted_wrt key_le es"
  by (rule sorted_wrt_mono_rel) (auto simp: entry_before_def)

lemma dropWhile_key_greater:
  assumes "sorted_wrt key_le (e # es)" "x \<in> set (dropWhile (of_key (me_user_key e)) es)"
  shows "me_user_key e < me_user_key x"
  using assms
proof (induction es)
  case (Cons y ys)
  show ?case
  proof (cases "me_user_key y = me_user_key e")
    case True
    with Cons show ?thesis by simp
  next
    case False
    then have "me_user_key e < me_user_key y"
      using Cons.prems(1) by auto
    moreover have "me_user_key y \<le> me_user_key x"
      using Cons.prems False by auto
    ultimately show ?thesis by simp
  qed
qed simp

lemma groups_keys: "fst ` set (groups es) = me_user_key ` set es"
proof (induction es rule: groups.induct)
  case (2 e es)
  let ?p = "of_key (me_user_key e)"
  have split: "set es = set (takeWhile ?p es) \<union> set (dropWhile ?p es)"
    by (metis set_append takeWhile_dropWhile_id)
  have "me_user_key ` set (takeWhile ?p es) \<subseteq> {me_user_key e}"
    by (auto dest: set_takeWhileD)
  then have "me_user_key ` set (e # es) = insert (me_user_key e) (me_user_key ` set (dropWhile ?p es))"
    unfolding list.set image_insert split image_Un by blast
  then show ?case
    using 2 by simp
qed simp

lemma sorted_dropWhile_key: "sorted_wrt key_le es \<Longrightarrow> sorted_wrt key_le (dropWhile P es)"
  by (rule sorted_wrt_dropWhile)

lemma groups_sorted: "sorted_wrt key_le es \<Longrightarrow> sorted_wrt (<) (map fst (groups es))"
proof (induction es rule: groups.induct)
  case (2 e es)
  have "me_user_key e < k" if "k \<in> set (map fst (groups (dropWhile (of_key (me_user_key e)) es)))" for k
    using that dropWhile_key_greater [OF 2(2)] groups_keys by fastforce
  moreover have "sorted_wrt key_le es"
    using 2(2) by simp
  ultimately show ?case
    using 2(1) sorted_dropWhile_key by simp
qed simp

lemma filter_key_takeWhile:
  assumes "sorted_wrt key_le (e # es)"
  shows "filter (of_key (me_user_key e)) (e # es) = takeWhile (of_key (me_user_key e)) (e # es)"
proof (rule sym, rule takeWhile_eq_filter)
  show "sorted_wrt (\<lambda>x y. of_key (me_user_key e) y \<longrightarrow> of_key (me_user_key e) x) (e # es)"
    by (rule sorted_wrt_mono_rel [OF _ assms]) (use assms in auto)
qed

lemma groups_mem:
  assumes "sorted_wrt key_le es"
  shows "(k, vs) \<in> set (groups es) \<longleftrightarrow>
    k \<in> me_user_key ` set es \<and> vs = map value_of (filter (of_key k) es)"
  using assms
proof (induction es rule: groups.induct)
  case (2 e es)
  let ?k = "me_user_key e"
  let ?rest = "dropWhile (of_key ?k) es"
  have IH: "(k, vs) \<in> set (groups ?rest) \<longleftrightarrow>
      k \<in> me_user_key ` set ?rest \<and> vs = map value_of (filter (of_key k) ?rest)"
    using 2 sorted_dropWhile_key by simp
  have gt: "?k < me_user_key x" if "x \<in> set ?rest" for x
    using dropWhile_key_greater [OF 2(2) that] .
  show ?case
  proof (cases "k = ?k")
    case True
    have "k \<notin> me_user_key ` set ?rest"
    proof
      assume "k \<in> me_user_key ` set ?rest"
      then obtain x where "x \<in> set ?rest" "k = me_user_key x"
        by blast
      with gt [of x] True show False by simp
    qed
    with True IH filter_key_takeWhile [OF 2(2)] show ?thesis
      by auto
  next
    case False
    have tk: "filter (of_key k) (takeWhile (of_key ?k) es) = []"
      using False by (auto simp: filter_empty_conv dest: set_takeWhileD)
    have "filter (of_key k) es = filter (of_key k) (takeWhile (of_key ?k) es @ ?rest)"
      by simp
    then have f: "filter (of_key k) es = filter (of_key k) ?rest"
      unfolding filter_append tk by simp
    have "k \<in> me_user_key ` set es \<longleftrightarrow> k \<in> me_user_key ` set ?rest"
    proof -
      have "set es = set (takeWhile (of_key ?k) es) \<union> set ?rest"
        by (metis set_append takeWhile_dropWhile_id)
      moreover have "k \<notin> me_user_key ` set (takeWhile (of_key ?k) es)"
        using False by (auto dest: set_takeWhileD)
      ultimately show ?thesis
        by (auto simp: image_Un)
    qed
    with False IH f show ?thesis
      by auto
  qed
qed simp

section \<open>The keys of a snapshot\<close>

text \<open>From the start of a mode on, the valid keys come first.\<close>

lemma mode_valid_convex:
  assumes "mode_valid desc mode b" "a \<le> b" "mode_start desc mode \<le> a"
  shows "mode_valid desc mode a"
proof (cases mode)
  case (PrefixMode p)
  obtain c where c: "b = p @ c"
    using assms(1) PrefixMode by (auto simp: mode_valid_def prefix_def)
  have "take (length p) p \<le> take (length p) a" "take (length p) a \<le> take (length p) b"
    using assms(2,3) PrefixMode take_le_take [of p a "length p"] take_le_take [of a b "length p"]
    by (simp_all add: mode_start_def)
  then have "take (length p) a = p"
    using c by simp
  then show ?thesis
    using PrefixMode by (auto simp: mode_valid_def) (metis take_is_prefix)
next
  case (StartMode k)
  with assms show ?thesis
    by (auto simp: mode_valid_def in_range_def intro: order.strict_trans1)
next
  case (KeyMode k)
  with assms show ?thesis
    by (simp add: mode_valid_def mode_start_def)
qed

definition range_history ::
    "(bytes \<rightharpoonup> bytes) \<Rightarrow> u64 \<Rightarrow> (bytes \<Rightarrow> bool) \<Rightarrow> (bytes \<times> kv_value list) list \<Rightarrow> bool" where
  "range_history m t V hs \<longleftrightarrow>
     sorted_wrt (<) (map fst hs) \<and>
     (\<forall>k vs. (k, vs) \<in> set hs \<longleftrightarrow> V k \<and> vs \<noteq> [] \<and> is_history m t k vs)"

lemma shows_rows_key:
  assumes "shows_rows m t k0 es" "is_history m t k vs" "k0 \<le> k"
  shows "k \<in> me_user_key ` set es \<longleftrightarrow> vs \<noteq> []"
proof -
  have "vs = map value_of (filter (of_key k) es)"
    using is_history_unique [OF assms(2) shows_rows_history [OF assms(1,3)]] .
  then show ?thesis
    by (auto simp: filter_empty_conv)
qed

lemma groups_range_history:
  assumes rows: "shows_rows m t k0 es"
    and conv: "\<And>a b. V b \<Longrightarrow> a \<le> b \<Longrightarrow> k0 \<le> a \<Longrightarrow> V a"
  shows "range_history m t (\<lambda>k. k0 \<le> k \<and> V k) (groups (takeWhile (\<lambda>e. V (me_user_key e)) es))"
proof -
  let ?es = "takeWhile (\<lambda>e. V (me_user_key e)) es"
  have srt: "sorted_wrt key_le es"
    using rows by (simp add: shows_rows_def sorted_key_le)
  have low: "k0 \<le> me_user_key e" if "e \<in> set es" for e
    using shows_rows_items [OF rows that] by simp
  have flt: "?es = filter (\<lambda>e. V (me_user_key e)) es"
  proof (rule takeWhile_eq_filter)
    show "sorted_wrt (\<lambda>x y. V (me_user_key y) \<longrightarrow> V (me_user_key x)) es"
      by (rule sorted_wrt_mono_rel [OF _ srt]) (use conv low in blast)
  qed
  have srt': "sorted_wrt key_le ?es"
    unfolding flt using srt by (simp add: sorted_wrt_filter)
  have "(k, vs) \<in> set (groups ?es) \<longleftrightarrow> (k0 \<le> k \<and> V k) \<and> vs \<noteq> [] \<and> is_history m t k vs" for k vs
  proof -
    have mem: "(k, vs) \<in> set (groups ?es) \<longleftrightarrow>
        V k \<and> k \<in> me_user_key ` set es \<and> vs = map value_of (filter (of_key k) ?es)"
    proof -
      have "me_user_key ` set ?es = {k \<in> me_user_key ` set es. V k}"
        unfolding flt by auto
      then show ?thesis
        using groups_mem [OF srt', of k vs] by blast
    qed
    have f: "filter (of_key k) ?es = filter (of_key k) es" if "V k"
      unfolding flt filter_filter using that by (intro filter_cong) auto
    show ?thesis
    proof
      assume "(k, vs) \<in> set (groups ?es)"
      then have "V k" "k \<in> me_user_key ` set es" "vs = map value_of (filter (of_key k) es)"
        using mem f by auto
      moreover from this have "k0 \<le> k" using low by auto
      ultimately show "(k0 \<le> k \<and> V k) \<and> vs \<noteq> [] \<and> is_history m t k vs"
        using shows_rows_history [OF rows] shows_rows_key [OF rows] by auto
    next
      assume a: "(k0 \<le> k \<and> V k) \<and> vs \<noteq> [] \<and> is_history m t k vs"
      then have "vs = map value_of (filter (of_key k) es)"
        using is_history_unique shows_rows_history [OF rows] by blast
      with a show "(k, vs) \<in> set (groups ?es)"
        using mem f shows_rows_key [OF rows] by auto
    qed
  qed
  with groups_sorted [OF srt'] show ?thesis
    by (simp add: range_history_def)
qed

section \<open>The scan as a function of the rows\<close>

definition scan_mode :: "shard_scan_request \<Rightarrow> snapshot_mode" where
  "scan_mode req = (case sc_prefix req of Some p \<Rightarrow> PrefixMode p | None \<Rightarrow> StartMode (sc_start_key req))"

definition scan_req :: "shard_scan_request \<Rightarrow> shard_scan_request" where
  "scan_req req =
     (case sc_prefix req of
        Some p \<Rightarrow> req\<lparr>sc_exclude_end_key := False, sc_exclude_start_key := False\<rparr>
      | None \<Rightarrow> req)"

definition scan_keys :: "shard_desc \<Rightarrow> shard_scan_request \<Rightarrow> bytes \<Rightarrow> bool" where
  "scan_keys desc req k \<longleftrightarrow>
     mode_start desc (scan_mode req) \<le> k \<and> mode_valid desc (scan_mode req) k"

lemma eval_scan_eq:
  assumes "sc_allow_scan_moving_shard req \<or> ec_move_shard_desc ctx = None"
  shows "eval_scan X resolve ctx e req =
    rbind (engine_snapshot X e (sc_shard_id req) (scan_mode req)) (\<lambda>s.
      scan_loop X resolve (scan_req req) s [] 0)"
  using assms
  by (auto simp: eval_scan_def scan_inner_def scan_mode_def scan_req_def split: option.split)

lemma eval_scan_histories:
  assumes "ordered_store X cont" "engine_inv X cont e"
    and "ge_shard_descs e (sc_shard_id req) = Some desc"
    and "sc_allow_scan_moving_shard req \<or> ec_move_shard_desc ctx = None"
  shows "\<exists>hs. range_history (cont (ge_db e)) (sd_table_id desc) (scan_keys desc req) hs \<and>
    eval_scan X resolve ctx e req = scan_spec X resolve (scan_req req) hs [] 0"
proof -
  note inv = ordered_store.engine_invD [OF assms(1-3)]
  show ?thesis
  proof (rule ordered_store.engine_snapshot_shows [OF assms(1) inv(1) assms(3) inv(2), of "scan_mode req"])
    fix s es
    assume s: "engine_snapshot X e (sc_shard_id req) (scan_mode req) = Inr s" "viewed s es"
      and rows: "shows_rows (cont (ge_db e)) (sd_table_id desc) (mode_start desc (scan_mode req)) es"
      and none: "current s = None" and valid: "\<And>k. key_valid s k = mode_valid desc (scan_mode req) k"
    let ?hs = "groups (takeWhile (\<lambda>e. mode_valid desc (scan_mode req) (me_user_key e)) es)"
    have vals: "\<forall>e\<in>set es. me_value e \<noteq> []"
      using shows_rows_items [OF rows] by blast
    have "rest_keys s es = es"
      using none by (simp add: rest_keys_def)
    then have "eval_scan X resolve ctx e req = scan_spec X resolve (scan_req req) ?hs [] 0"
      using scan_loop_viewed [OF s(2) _ vals] none s(1) assms(4) by (simp add: eval_scan_eq valid)
    moreover have "range_history (cont (ge_db e)) (sd_table_id desc) (scan_keys desc req) ?hs"
      unfolding scan_keys_def by (rule groups_range_history [OF rows]) (rule mode_valid_convex)
    ultimately show ?thesis by blast
  qed
qed

text \<open>
  C3. Refinement: a scan of a shard is a fold over the histories of the keys in its range, in key
  order, each key that has a version appearing once; this includes all the error paths and the
  limits.
\<close>

theorem scan_refines:
  assumes "ordered_store X cont" "engine_inv X cont e"
    and "ge_shard_descs e (sc_shard_id req) = Some desc"
    and "sc_allow_scan_moving_shard req \<or> ec_move_shard_desc ctx = None"
  shows "\<exists>hs. range_history (cont (ge_db e)) (sd_table_id desc) (scan_keys desc req) hs \<and>
    eval_scan X resolve ctx e req = scan_spec X resolve (scan_req req) hs [] 0"
  by (rule eval_scan_histories [OF assms])

definition demo_scan :: shard_scan_request where
  "demo_scan = \<lparr>sc_shard_id = 1, sc_start_version = 9, sc_limit = 0, sc_limit_bytes = 0,
     sc_exclude_start_key = False, sc_exclude_end_key = False, sc_prefix = None, sc_start_key = None,
     sc_end_key = None, sc_include_raw_data = False, sc_ignore_txn_intent = False,
     sc_allow_scan_moving_shard = False\<rparr>"

definition demo_rows :: "row_op list" where
  "demo_rows = [SetRow 2048 [9] 8 (Some [1]), SetRow 2048 [7] 4 (Some [7]), SetRow 2048 [8] 5 None]"

lemma demo_rows_inv: "engine_inv mem_ext RBT.lookup (demo_with demo_rows)"
  by (rule demo_with_inv) (simp add: demo_rows_def TXN_INTENT_VERSION_def)

theorem scan_refines_witness:
  "\<exists>hs. range_history (RBT.lookup (ge_db (demo_with demo_rows))) 2048 (scan_keys demo_shard demo_scan) hs \<and>
     eval_scan mem_ext (\<lambda>_ _ _ _. Inr None) exec_ctx_default (demo_with demo_rows) demo_scan
       = scan_spec mem_ext (\<lambda>_ _ _ _. Inr None) (scan_req demo_scan) hs [] 0"
  using scan_refines [OF mem.ordered_store_axioms demo_rows_inv, of demo_scan demo_shard exec_ctx_default]
  by (simp add: demo_scan_def exec_ctx_default_def)

section \<open>Scans without intents\<close>

definition scan_pick :: "shard_scan_request \<Rightarrow> bytes \<times> kv_value list \<Rightarrow> value_set option" where
  "scan_pick req h =
     (if is_exclude_boundary req (fst h) then None
      else case find (\<lambda>v. v_version v \<noteq> TXN_INTENT_VERSION \<and> v_version v \<le> sc_start_version req) (snd h) of
             Some v \<Rightarrow> if v_content v = None then None
                      else Some \<lparr>vs_user_key = fst h, vs_values = [v]\<rparr>
           | None \<Rightarrow> None)"

lemma scan_hist_plain:
  assumes "\<forall>v\<in>set vs. v_version v \<noteq> TXN_INTENT_VERSION" "\<not> sc_include_raw_data req"
    and "\<not> is_exclude_boundary req k"
  shows "scan_hist X resolve req k vs ([], 0) =
    Inr (Some (case find (\<lambda>v. v_version v \<noteq> TXN_INTENT_VERSION \<and> v_version v \<le> sc_start_version req) vs of
                 Some v \<Rightarrow> scan_push req (v_content v) (v_version v) ([], 0)
               | None \<Rightarrow> ([], 0)))"
  using assms
  by (induction vs) (auto simp: scan_value_def not_less)

lemma scan_set_plain:
  assumes "\<forall>v\<in>set vs. v_version v \<noteq> TXN_INTENT_VERSION" "\<not> sc_include_raw_data req" "vs \<noteq> []"
  obtains b where "scan_set X resolve req k vs = Inr (map_option (\<lambda>x. (x, b)) (scan_pick req (k, vs)))"
proof (cases "is_exclude_boundary req k")
  case True
  with assms(3) that [of 0] show ?thesis
    by (cases vs) (simp_all add: scan_set_def scan_pick_def)
next
  case False
  let ?f = "find (\<lambda>v. v_version v \<noteq> TXN_INTENT_VERSION \<and> v_version v \<le> sc_start_version req) vs"
  note h = scan_hist_plain [OF assms(1,2) False]
  show ?thesis
  proof (cases ?f)
    case None
    with False that [of 0] show ?thesis
      by (simp add: scan_set_def h scan_pick_def)
  next
    case (Some v)
    then have "\<lparr>v_content = v_content v, v_version = v_version v\<rparr> = v"
      by simp
    with Some False assms(2) that [of "length k"] that [of "length (the (v_content v)) + length k"] show ?thesis
      by (cases "v_content v") (simp_all add: scan_set_def h scan_pick_def scan_push_def)
  qed
qed

lemma scan_spec_plain:
  assumes "\<forall>(k, vs)\<in>set hs. vs \<noteq> [] \<and> (\<forall>v\<in>set vs. v_version v \<noteq> TXN_INTENT_VERSION)"
    and "\<not> sc_include_raw_data req" and "sc_limit req \<noteq> 0 \<longrightarrow> length data < unat (sc_limit req)"
  defines "all \<equiv> List.map_filter (scan_pick req) (takeWhile (\<lambda>h. \<not> is_exceeds (sc_end_key req) (fst h)) hs)"
  shows "\<exists>ys more. scan_spec X resolve req hs data n = Inr \<lparr>sr_data = data @ ys, sr_has_more = more\<rparr> \<and>
    prefix ys all \<and> (\<not> more \<longrightarrow> ys = all) \<and>
    (sc_limit req = 0 \<and> sc_limit_bytes req = 0 \<longrightarrow> \<not> more) \<and>
    (sc_limit req \<noteq> 0 \<longrightarrow> length (data @ ys) \<le> unat (sc_limit req))"
  using assms(1,3) unfolding all_def
proof (induction hs arbitrary: data n)
  case Nil
  then show ?case
    by (intro exI [of _ "[]"] exI [of _ False]) (simp add: map_filter_simps less_imp_le)
next
  case (Cons h hs)
  obtain k vs where h: "h = (k, vs)"
    by fastforce
  show ?case
  proof (cases "is_exceeds (sc_end_key req) k")
    case True
    with Cons.prems(2) show ?thesis
      by (intro exI [of _ "[]"] exI [of _ False]) (simp add: h map_filter_simps less_imp_le)
  next
    case False
    have vs: "\<forall>v\<in>set vs. v_version v \<noteq> TXN_INTENT_VERSION" "vs \<noteq> []"
      using Cons.prems(1) h by auto
    obtain b where b: "scan_set X resolve req k vs = Inr (map_option (\<lambda>x. (x, b)) (scan_pick req (k, vs)))"
      by (rule scan_set_plain [OF vs(1) assms(2) vs(2)])
    have rest: "\<forall>(k, vs)\<in>set hs. vs \<noteq> [] \<and> (\<forall>v\<in>set vs. v_version v \<noteq> TXN_INTENT_VERSION)"
      using Cons.prems(1) by simp
    show ?thesis
    proof (cases "scan_pick req (k, vs)")
      case None
      with Cons.IH [OF rest Cons.prems(2)] False b show ?thesis
        by (simp add: h map_filter_simps)
    next
      case (Some x)
      show ?thesis
      proof (cases "limit_hit req (data @ [x]) (n + b)")
        case True
        then have "\<not> (sc_limit req = 0 \<and> sc_limit_bytes req = 0)"
          by (auto simp: limit_hit_def)
        with True Some False b Cons.prems(2) show ?thesis
          by (intro exI [of _ "[x]"] exI [of _ True]) (simp add: h map_filter_simps Suc_le_eq)
      next
        case go: False
        then have "sc_limit req \<noteq> 0 \<longrightarrow> length (data @ [x]) < unat (sc_limit req)"
          using Cons.prems(2) by (auto simp: limit_hit_def)
        from Cons.IH [OF rest this, of "n + b"] obtain ys more where
          "scan_spec X resolve req hs (data @ [x]) (n + b) = Inr \<lparr>sr_data = data @ x # ys, sr_has_more = more\<rparr>"
          "prefix ys (List.map_filter (scan_pick req) (takeWhile (\<lambda>h. \<not> is_exceeds (sc_end_key req) (fst h)) hs))"
          "\<not> more \<longrightarrow> ys = List.map_filter (scan_pick req) (takeWhile (\<lambda>h. \<not> is_exceeds (sc_end_key req) (fst h)) hs)"
          "sc_limit req = 0 \<and> sc_limit_bytes req = 0 \<longrightarrow> \<not> more"
          "sc_limit req \<noteq> 0 \<longrightarrow> length (data @ x # ys) \<le> unat (sc_limit req)"
          unfolding append_assoc append.simps by blast
        with go Some False b show ?thesis
          by (intro exI [of _ "x # ys"] exI [of _ more]) (simp add: h map_filter_simps)
      qed
    qed
  qed
qed

lemma latest_at_unique:
  assumes "latest_at r sv v" "latest_at r sv w"
  shows "v = w"
proof (cases v)
  case None
  with assms show ?thesis
    by (cases w) (auto simp: latest_at_def)
next
  case (Some x)
  then obtain y where w: "w = Some y"
    using assms by (cases w) (auto simp: latest_at_def)
  have xy: "v_version x \<noteq> TXN_INTENT_VERSION" "v_version x \<le> sv" "r (v_version x) = Some (v_content x)"
      "v_version y \<noteq> TXN_INTENT_VERSION" "v_version y \<le> sv" "r (v_version y) = Some (v_content y)"
    using assms by (simp_all add: Some w latest_at_def)
  then have "v_version x \<le> v_version y" "v_version y \<le> v_version x"
    using assms by (simp_all add: Some w latest_at_def)
  then have "v_version x = v_version y" by simp
  with xy have "x = y"
    by (intro kv_value.equality) simp_all
  with Some w show ?thesis by simp
qed

lemma set_map_filter: "set (List.map_filter f xs) = {y. \<exists>x\<in>set xs. f x = Some y}"
  by (induction xs) (auto simp: map_filter_simps split: option.splits)

lemma scan_pick_key: "scan_pick req h = Some x \<Longrightarrow> vs_user_key x = fst h"
  by (auto simp: scan_pick_def split: if_splits option.splits)

lemma sorted_map_filter_pick:
  "sorted_wrt (<) (map fst hs) \<Longrightarrow> sorted_wrt (<) (map vs_user_key (List.map_filter (scan_pick req) hs))"
proof (induction hs)
  case (Cons h hs)
  have "fst h < vs_user_key x" if "x \<in> set (List.map_filter (scan_pick req) hs)" for x
    using that Cons.prems by (auto simp: set_map_filter dest!: scan_pick_key)
  with Cons show ?case
    by (auto simp: map_filter_simps scan_pick_key split: option.split)
qed (simp add: map_filter_simps)

lemma exceeds_takeWhile:
  assumes "sorted_wrt (<) (map fst hs)"
  shows "takeWhile (\<lambda>h. \<not> is_exceeds stop (fst h)) hs = filter (\<lambda>h. \<not> is_exceeds stop (fst h)) hs"
proof (rule takeWhile_eq_filter)
  have "sorted_wrt (\<lambda>x y. fst x < fst y) hs"
    using assms by (simp add: sorted_wrt_map)
  then show "sorted_wrt (\<lambda>x y. \<not> is_exceeds stop (fst y) \<longrightarrow> \<not> is_exceeds stop (fst x)) hs"
    by (rule sorted_wrt_mono_rel [rotated]) (auto simp: is_exceeds_def split: option.splits)
qed

text \<open>The value sets a scan has to return, from the rows.\<close>

definition scan_answer ::
    "(bytes \<rightharpoonup> bytes) \<Rightarrow> shard_desc \<Rightarrow> shard_scan_request \<Rightarrow> value_set \<Rightarrow> bool" where
  "scan_answer m desc req x \<longleftrightarrow>
     scan_keys desc req (vs_user_key x) \<and> \<not> is_exceeds (sc_end_key req) (vs_user_key x) \<and>
     \<not> is_exclude_boundary (scan_req req) (vs_user_key x) \<and>
     (\<exists>v. vs_values x = [v] \<and> v_content v \<noteq> None \<and>
        latest_at (row m (sd_table_id desc) (vs_user_key x)) (sc_start_version req) (Some v))"

lemma scan_pick_answer:
  assumes "range_history m (sd_table_id desc) (scan_keys desc req) hs"
    and "sc_start_version req' = sc_start_version req"
    and ex: "\<And>k. \<exists>vs. is_history m (sd_table_id desc) k vs"
  shows "(\<exists>h\<in>set hs. \<not> is_exceeds (sc_end_key req) (fst h) \<and> scan_pick req' h = Some x) \<longleftrightarrow>
    scan_keys desc req (vs_user_key x) \<and> \<not> is_exceeds (sc_end_key req) (vs_user_key x) \<and>
    \<not> is_exclude_boundary req' (vs_user_key x) \<and>
    (\<exists>v. vs_values x = [v] \<and> v_content v \<noteq> None \<and>
       latest_at (row m (sd_table_id desc) (vs_user_key x)) (sc_start_version req) (Some v))"
    (is "?lhs = ?rhs")
proof
  assume ?lhs
  then obtain k vs where h: "(k, vs) \<in> set hs" "\<not> is_exceeds (sc_end_key req) k" "scan_pick req' (k, vs) = Some x"
    by auto
  have hist: "scan_keys desc req k" "is_history m (sd_table_id desc) k vs"
    using assms(1) h(1) by (auto simp: range_history_def)
  obtain v where v: "find (\<lambda>v. v_version v \<noteq> TXN_INTENT_VERSION \<and> v_version v \<le> sc_start_version req) vs = Some v"
      "v_content v \<noteq> None" "x = \<lparr>vs_user_key = k, vs_values = [v]\<rparr>" "\<not> is_exclude_boundary req' k"
    using h(3) assms(2) by (auto simp: scan_pick_def split: if_splits option.splits)
  have "latest_at (row m (sd_table_id desc) k) (sc_start_version req) (Some v)"
    using latest_at_history [OF hist(2), of "sc_start_version req"] v(1) by simp
  with hist h v show ?rhs by simp
next
  assume r: ?rhs
  then obtain v where v: "vs_values x = [v]" "v_content v \<noteq> None"
      "latest_at (row m (sd_table_id desc) (vs_user_key x)) (sc_start_version req) (Some v)"
    by blast
  obtain vs where hist: "is_history m (sd_table_id desc) (vs_user_key x) vs"
    using ex by blast
  have f: "find (\<lambda>v. v_version v \<noteq> TXN_INTENT_VERSION \<and> v_version v \<le> sc_start_version req) vs = Some v"
    using latest_at_unique [OF latest_at_history [OF hist] v(3)] .
  then have "vs \<noteq> []" by auto
  with hist r assms(1) have "(vs_user_key x, vs) \<in> set hs"
    by (auto simp: range_history_def)
  moreover have "scan_pick req' (vs_user_key x, vs) = Some x"
    using f v(1,2) r assms(2) by (cases x) (simp add: scan_pick_def)
  ultimately show ?lhs
    using r by force
qed

text \<open>
  C4. A scan that finds no intents returns, in key order, for each key of the range whose newest
  visible version is not a tombstone exactly that version; tombstones hide older versions. With a
  limit it returns the first part of that list, and says so unless the list is complete.
\<close>

theorem scan_complete:
  assumes "ordered_store X cont" "engine_inv X cont e"
    and "ge_shard_descs e (sc_shard_id req) = Some desc"
    and "sc_allow_scan_moving_shard req \<or> ec_move_shard_desc ctx = None"
    and "\<not> sc_include_raw_data req"
    and "\<And>k. row (cont (ge_db e)) (sd_table_id desc) k TXN_INTENT_VERSION = None"
  shows "\<exists>all resp. eval_scan X resolve ctx e req = Inr resp \<and>
    sorted_wrt (<) (map vs_user_key all) \<and>
    (\<forall>x. x \<in> set all \<longleftrightarrow> scan_answer (cont (ge_db e)) desc req x) \<and>
    prefix (sr_data resp) all \<and> (\<not> sr_has_more resp \<longrightarrow> sr_data resp = all) \<and>
    (sc_limit req = 0 \<and> sc_limit_bytes req = 0 \<longrightarrow> \<not> sr_has_more resp) \<and>
    (sc_limit req \<noteq> 0 \<longrightarrow> length (sr_data resp) \<le> unat (sc_limit req))"
proof -
  let ?m = "cont (ge_db e)" and ?t = "sd_table_id desc" and ?req = "scan_req req"
  note inv = ordered_store.engine_invD [OF assms(1-3)]
  obtain hs where hs: "range_history ?m ?t (scan_keys desc req) hs"
    and run: "eval_scan X resolve ctx e req = scan_spec X resolve ?req hs [] 0"
    using eval_scan_histories [OF assms(1-4)] by blast
  have same: "sc_include_raw_data ?req = sc_include_raw_data req" "sc_limit ?req = sc_limit req"
    "sc_limit_bytes ?req = sc_limit_bytes req" "sc_end_key ?req = sc_end_key req"
    "sc_start_version ?req = sc_start_version req"
    by (simp_all add: scan_req_def split: option.splits)
  have plain: "\<forall>(k, vs)\<in>set hs. vs \<noteq> [] \<and> (\<forall>v\<in>set vs. v_version v \<noteq> TXN_INTENT_VERSION)"
  proof clarify
    fix k vs assume "(k, vs) \<in> set hs"
    then have "vs \<noteq> []" and h: "is_history ?m ?t k vs"
      using hs by (auto simp: range_history_def)
    moreover have "v_version v \<noteq> TXN_INTENT_VERSION" if "v \<in> set vs" for v
      using is_historyD [OF h, of v] that assms(6) [of k] by auto
    ultimately show "vs \<noteq> [] \<and> (\<forall>v\<in>set vs. v_version v \<noteq> TXN_INTENT_VERSION)"
      by blast
  qed
  have srt: "sorted_wrt (<) (map fst hs)"
    using hs by (simp add: range_history_def)
  let ?hs = "filter (\<lambda>h. \<not> is_exceeds (sc_end_key req) (fst h)) hs"
  let ?all = "List.map_filter (scan_pick ?req) ?hs"
  have raw: "\<not> sc_include_raw_data ?req"
    and lim: "sc_limit ?req \<noteq> 0 \<longrightarrow> length ([] :: value_set list) < unat (sc_limit ?req)"
    using assms(5) by (simp_all add: same unat_gt_0)
  obtain ys more where ys: "scan_spec X resolve ?req hs [] 0 = Inr \<lparr>sr_data = ys, sr_has_more = more\<rparr>"
      "prefix ys ?all" "\<not> more \<longrightarrow> ys = ?all" "sc_limit req = 0 \<and> sc_limit_bytes req = 0 \<longrightarrow> \<not> more"
      "sc_limit req \<noteq> 0 \<longrightarrow> length ys \<le> unat (sc_limit req)"
    using scan_spec_plain [OF plain raw lim, of X resolve 0, unfolded same exceeds_takeWhile [OF srt] append_Nil]
    by blast
  have ex: "\<exists>vs. is_history ?m ?t k vs" for k
    using ordered_store.get_all_versions_history [OF assms(1) inv(1) assms(3) inv(2)] by blast
  have "x \<in> set ?all \<longleftrightarrow> scan_answer ?m desc req x" for x
  proof -
    have "x \<in> set ?all \<longleftrightarrow>
        (\<exists>h\<in>set hs. \<not> is_exceeds (sc_end_key req) (fst h) \<and> scan_pick ?req h = Some x)"
      unfolding set_map_filter set_filter by blast
    then show ?thesis
      unfolding scan_pick_answer [OF hs same(5) ex] scan_answer_def .
  qed
  moreover have "sorted_wrt (<) (map vs_user_key ?all)"
    using srt by (intro sorted_map_filter_pick) (simp add: sorted_wrt_map sorted_wrt_filter)
  ultimately show ?thesis
    using ys run by (intro exI [of _ ?all] exI [of _ "\<lparr>sr_data = ys, sr_has_more = more\<rparr>"]) simp
qed

theorem scan_complete_witness:
  "\<exists>all resp. eval_scan mem_ext (\<lambda>_ _ _ _. Inr None) exec_ctx_default (demo_with demo_rows) demo_scan = Inr resp \<and>
     sorted_wrt (<) (map vs_user_key all) \<and>
     (\<forall>x. x \<in> set all \<longleftrightarrow> scan_answer (RBT.lookup (ge_db (demo_with demo_rows))) demo_shard demo_scan x) \<and>
     sr_data resp = all"
proof -
  have "row (RBT.lookup (ge_db (demo_with demo_rows))) (sd_table_id demo_shard) k TXN_INTENT_VERSION = None" for k
    by (simp add: demo_with_row demo_rows_def TXN_INTENT_VERSION_def)
  from scan_complete [OF mem.ordered_store_axioms demo_rows_inv _ _ _ this, of demo_scan exec_ctx_default
      "\<lambda>_ _ _ _. Inr None"]
  show ?thesis
    by (simp add: demo_scan_def exec_ctx_default_def) blast
qed

section \<open>Merging responses\<close>

abbreviation set_keys :: "value_set list \<Rightarrow> bytes set" where
  "set_keys xs \<equiv> vs_user_key ` set xs"

lemma merge_sets_mem:
  assumes "sorted_wrt (<) (map vs_user_key xs)" "sorted_wrt (<) (map vs_user_key ys)"
  shows "x \<in> set (merge_sets hm xs ys) \<longleftrightarrow>
    x \<in> set xs \<or> x \<in> set ys \<and> vs_user_key x \<notin> set_keys xs \<and>
      (hm \<longrightarrow> (\<exists>z\<in>set xs. vs_user_key x < vs_user_key z))"
  using assms
proof (induction hm xs ys rule: merge_sets.induct)
  case (1 hm a xs b ys)
  note srt = "1.prems"
  have ys: "vs_user_key b < vs_user_key y" if "y \<in> set ys" for y
    using srt(2) that by simp
  have xs: "vs_user_key a < vs_user_key y" if "y \<in> set xs" for y
    using srt(1) that by simp
  consider "vs_user_key a < vs_user_key b" | "vs_user_key a = vs_user_key b" | "vs_user_key b < vs_user_key a"
    by fastforce
  then show ?case
  proof cases
    case lt: 1
    then have IH: "x \<in> set (merge_sets hm xs (b # ys)) \<longleftrightarrow> x \<in> set xs \<or> x \<in> set (b # ys) \<and>
        vs_user_key x \<notin> set_keys xs \<and> (hm \<longrightarrow> (\<exists>z\<in>set xs. vs_user_key x < vs_user_key z))"
      using "1.IH"(1) srt by simp
    have "vs_user_key a < vs_user_key x" if "x \<in> set (b # ys)"
      using that lt ys by fastforce
    then have "x \<in> set (b # ys) \<Longrightarrow> vs_user_key x \<noteq> vs_user_key a \<and> \<not> vs_user_key x < vs_user_key a"
      by auto
    with lt show ?thesis
      by (simp only: merge_sets.simps if_True list.set insert_iff IH image_insert bex_simps) blast
  next
    case eq: 2
    then have IH: "x \<in> set (merge_sets hm xs ys) \<longleftrightarrow> x \<in> set xs \<or> x \<in> set ys \<and>
        vs_user_key x \<notin> set_keys xs \<and> (hm \<longrightarrow> (\<exists>z\<in>set xs. vs_user_key x < vs_user_key z))"
      using "1.IH"(2) srt by simp
    have "x \<in> set ys \<Longrightarrow> vs_user_key x \<noteq> vs_user_key a \<and> \<not> vs_user_key x < vs_user_key a"
      using ys [of x] eq by auto
    with eq IH show ?thesis
      by auto
  next
    case gt: 3
    then have IH: "x \<in> set (merge_sets hm (a # xs) ys) \<longleftrightarrow> x \<in> set (a # xs) \<or> x \<in> set ys \<and>
        vs_user_key x \<notin> set_keys (a # xs) \<and> (hm \<longrightarrow> (\<exists>z\<in>set (a # xs). vs_user_key x < vs_user_key z))"
      using "1.IH"(3) srt by simp
    have "vs_user_key b \<notin> set_keys (a # xs)"
      using gt xs by fastforce
    with gt IH show ?thesis
      by auto
  qed
qed auto

lemma merge_sets_sorted:
  assumes "sorted_wrt (<) (map vs_user_key xs)" "sorted_wrt (<) (map vs_user_key ys)"
  shows "sorted_wrt (<) (map vs_user_key (merge_sets hm xs ys))"
  using assms
proof (induction hm xs ys rule: merge_sets.induct)
  case (1 hm a xs b ys)
  note srt = "1.prems"
  have sub: "set (merge_sets hm us ws) \<subseteq> set us \<union> set ws" for us ws
    by (induction hm us ws rule: merge_sets.induct) auto
  have less: "sorted_wrt (<) (map vs_user_key (c # merge_sets hm us ws))"
    if "sorted_wrt (<) (map vs_user_key (merge_sets hm us ws))"
      "\<And>y. y \<in> set us \<union> set ws \<Longrightarrow> vs_user_key c < vs_user_key y" for c us ws
    using that sub [of us ws] by auto
  consider "vs_user_key a < vs_user_key b" | "vs_user_key a = vs_user_key b" | "vs_user_key b < vs_user_key a"
    by fastforce
  then show ?case
  proof cases
    case lt: 1
    have "sorted_wrt (<) (map vs_user_key (a # merge_sets hm xs (b # ys)))"
      by (rule less) (use "1.IH"(1) srt lt in auto)
    with lt show ?thesis by simp
  next
    case eq: 2
    have "sorted_wrt (<) (map vs_user_key (a # merge_sets hm xs ys))"
      by (rule less) (use "1.IH"(2) srt eq in auto)
    with eq show ?thesis by simp
  next
    case gt: 3
    have "sorted_wrt (<) (map vs_user_key (b # merge_sets hm (a # xs) ys))"
      by (rule less) (use "1.IH"(3) srt gt in auto)
    with gt show ?thesis by auto
  qed
next
  case (2 hm x xs)
  have "merge_sets hm us [] = us" for us
    by (induction us) simp_all
  with 2 show ?case by simp
next
  case (3 hm y ys)
  have "\<not> hm \<Longrightarrow> merge_sets hm [] us = us" for us
    by (induction us) simp_all
  with 3 show ?case by simp
qed simp

text \<open>
  C12. Merging the scan of the destination group with that of the source group of a moving shard
  keeps the key order, prefers the destination's answer for a key both have, adds the source's
  answer for every other key, and, when the destination's answer was cut off, adds none beyond the
  destination's last key.
\<close>

theorem merge_scan_union:
  assumes "sorted_wrt (<) (map vs_user_key (sr_data target))"
    and "sorted_wrt (<) (map vs_user_key (sr_data source))"
  shows "sorted_wrt (<) (map vs_user_key (sr_data (merge_scan_response target source))) \<and>
    (\<forall>x. x \<in> set (sr_data (merge_scan_response target source)) \<longleftrightarrow>
       x \<in> set (sr_data target) \<or>
       x \<in> set (sr_data source) \<and> vs_user_key x \<notin> set_keys (sr_data target) \<and>
         (sr_has_more target \<longrightarrow> (\<exists>z\<in>set (sr_data target). vs_user_key x < vs_user_key z))) \<and>
    sr_has_more (merge_scan_response target source) = (sr_has_more target \<or> sr_has_more source)"
  using merge_sets_mem [OF assms] merge_sets_sorted [OF assms]
  by (simp add: merge_scan_response_def)

theorem merge_scan_union_witness:
  "let a = \<lparr>vs_user_key = [1], vs_values = [value_with_value [10] 1]\<rparr>;
       b = \<lparr>vs_user_key = [2], vs_values = [value_with_value [20] 1]\<rparr>;
       b' = \<lparr>vs_user_key = [2], vs_values = [value_with_value [21] 2]\<rparr>
   in b' \<in> set (sr_data (merge_scan_response \<lparr>sr_data = [b'], sr_has_more = False\<rparr>
           \<lparr>sr_data = [a, b], sr_has_more = False\<rparr>)) \<and>
      a \<in> set (sr_data (merge_scan_response \<lparr>sr_data = [b'], sr_has_more = False\<rparr>
           \<lparr>sr_data = [a, b], sr_has_more = False\<rparr>))"
  using merge_scan_union [of "\<lparr>sr_data = [\<lparr>vs_user_key = [2], vs_values = [value_with_value [21] 2]\<rparr>],
        sr_has_more = False\<rparr>"
      "\<lparr>sr_data = [\<lparr>vs_user_key = [1], vs_values = [value_with_value [10] 1]\<rparr>,
        \<lparr>vs_user_key = [2], vs_values = [value_with_value [20] 1]\<rparr>], sr_has_more = False\<rparr>"]
  by (simp add: Let_def)

end
