(* ===== verification/Eval_Write.thy ===== *)
theory Eval_Write
  imports Eval_Txn
begin

text \<open>
  The remaining commands a replica evaluates (\<open>replica/eval/cmd_write.rs\<close>, \<open>cmd_ingest.rs\<close>,
  \<open>cmd_split_shard.rs\<close>, \<open>cmd_merge_shard.rs\<close>, \<open>cmd_accept_shard.rs\<close> and \<open>add_shard\<close> of
  \<open>mod.rs\<close>). The readings of the clock by \<open>next_version\<close> are an argument \<open>now\<close>: the \<open>n\<close>th
  call of a request reads \<open>now n\<close>.
\<close>

section \<open>Batch writes\<close>

definition prev_version_of :: "kv_value option \<Rightarrow> u64" where
  "prev_version_of prev_value = (case prev_value of None \<Rightarrow> 0 | Some v \<Rightarrow> v_version v)"

fun batch_deletes ::
    "'db ext \<Rightarrow> (nat \<Rightarrow> u64) \<Rightarrow> 'db group_engine \<Rightarrow> u64 \<Rightarrow> nat \<Rightarrow> delete_request list \<Rightarrow>
     write_batch \<Rightarrow> write_response list \<Rightarrow> (write_batch \<times> write_response list) result" where
  "batch_deletes X now e shard_id idx [] wb resps = Inr (wb, resps)"
| "batch_deletes X now e shard_id idx (del # dels) wb resps =
     rbind (engine_get X e shard_id (del_key del)) (\<lambda>prev_value.
     rbind (eval_conditions prev_value (del_conditions del)) (\<lambda>failed.
       case failed of
         Some cond_idx \<Rightarrow> Inl (CasFailed (word_of_nat idx) (word_of_nat cond_idx) prev_value)
       | None \<Rightarrow>
           rbind (engine_tombstone e wb shard_id (del_key del)
                    (max (prev_version_of prev_value + 1) (now idx))) (\<lambda>wb.
             batch_deletes X now e shard_id (idx + 1) dels wb
               (resps @ [\<lparr>wr_prev_value = (if del_take_prev_value del then prev_value else None)\<rparr>]))))"

fun batch_puts ::
    "'db ext \<Rightarrow> (nat \<Rightarrow> u64) \<Rightarrow> 'db group_engine \<Rightarrow> u64 \<Rightarrow> nat \<Rightarrow> put_request list \<Rightarrow>
     write_batch \<Rightarrow> write_response list \<Rightarrow> (write_batch \<times> write_response list) result" where
  "batch_puts X now e shard_id idx [] wb resps = Inr (wb, resps)"
| "batch_puts X now e shard_id idx (put # puts) wb resps =
     (if put_put_type put \<noteq> put_type_i32 PutNone
      then Inl (Panic ''BatchWrite does not support put operation'')
      else
     rbind (engine_get X e shard_id (put_key put)) (\<lambda>prev_value.
     rbind (eval_conditions prev_value (put_conditions put)) (\<lambda>failed.
       case failed of
         Some cond_idx \<Rightarrow> Inl (CasFailed (word_of_nat idx) (word_of_nat cond_idx) prev_value)
       | None \<Rightarrow>
           rbind (engine_put e wb shard_id (put_key put) (put_value put)
                    (max (prev_version_of prev_value + 1) (now idx))) (\<lambda>wb.
             batch_puts X now e shard_id (idx + 1) puts wb
               (resps @ [\<lparr>wr_prev_value = (if put_take_prev_value put then prev_value else None)\<rparr>])))))"

definition batch_write ::
    "'db ext \<Rightarrow> (nat \<Rightarrow> u64) \<Rightarrow> exec_ctx \<Rightarrow> 'db group_engine \<Rightarrow> shard_write_request \<Rightarrow>
     (eval_result option \<times> shard_write_response) result" where
  "batch_write X now ctx e req =
     (if sw_deletes req = [] \<and> sw_puts req = []
      then Inr (None, \<lparr>swr_deletes = [], swr_puts = []\<rparr>)
      else
     rbind (forward_moving X ctx e (sw_shard_id req)
              (map del_key (sw_deletes req) @ map put_key (sw_puts req))) (\<lambda>_.
     rbind (batch_deletes X now e (sw_shard_id req) 0 (sw_deletes req) [] []) (\<lambda>(wb, deletes).
     rbind (batch_puts X now e (sw_shard_id req) (length (sw_deletes req)) (sw_puts req) wb []) (\<lambda>(wb, puts).
       Inr (Some (with_batch wb), \<lparr>swr_deletes = deletes, swr_puts = puts\<rparr>)))))"

section \<open>Ingesting the versions of a key\<close>

fun ingest_values ::
    "'db group_engine \<Rightarrow> write_batch \<Rightarrow> u64 \<Rightarrow> bytes \<Rightarrow> kv_value list \<Rightarrow> write_batch result" where
  "ingest_values e wb shard_id key [] = Inr wb"
| "ingest_values e wb shard_id key (v # vs) =
     rbind (case v_content v of
              Some content \<Rightarrow> engine_put e wb shard_id key content (v_version v)
            | None \<Rightarrow> engine_tombstone e wb shard_id key (v_version v)) (\<lambda>wb.
       ingest_values e wb shard_id key vs)"

definition ingest_value_set ::
    "'db ext \<Rightarrow> 'db group_engine \<Rightarrow> u64 \<Rightarrow> value_set \<Rightarrow> eval_result option result" where
  "ingest_value_set X e shard_id value_set =
     (if vs_values value_set = [] then Inr None
      else
     rbind (engine_get X e shard_id (vs_user_key value_set)) (\<lambda>v.
       if v \<noteq> None then Inr None
       else rbind (ingest_values e [] shard_id (vs_user_key value_set) (vs_values value_set)) (\<lambda>wb.
              Inr (Some (with_batch wb)))))"

section \<open>Shards\<close>

definition eval_split_shard ::
    "'db ext \<Rightarrow> 'db group_engine \<Rightarrow> split_shard_request \<Rightarrow> eval_result result" where
  "eval_split_shard X e req =
     rbind (engine_shard_desc e (sq_old_shard_id req)) (\<lambda>shard_desc.
     rbind (case sq_split_key req of
              Some split_key \<Rightarrow>
                if \<not> belong_to shard_desc split_key
                then Inl (InvalidArgument ''the user provided split key is not belong to the shard'')
                else Inr split_key
            | None \<Rightarrow>
                rbind (estimate_split_key X e (sq_old_shard_id req)) (\<lambda>key.
                  ok_or (InvalidArgument ''shard estimated split keys is empty'') key)) (\<lambda>split_key.
       Inr \<lparr>er_batch = None,
            er_op = Some (sync_op_default\<lparr>so_split_shard :=
              Some \<lparr>sps_old_shard_id = sq_old_shard_id req, sps_new_shard_id = sq_new_shard_id req,
                    sps_split_key = split_key\<rparr>\<rparr>)\<rparr>))"

definition eval_merge_shard ::
    "'db group_engine \<Rightarrow> merge_shard_request \<Rightarrow> eval_result result" where
  "eval_merge_shard e req =
     rbind (engine_shard_desc e (mq_left_shard_id req)) (\<lambda>left_shard.
     rbind (engine_shard_desc e (mq_right_shard_id req)) (\<lambda>right_shard.
     rbind (ok_or (InvalidData ''apply merge shard but left shard range is missing'')
              (sd_range left_shard)) (\<lambda>left_range.
     rbind (ok_or (InvalidData ''apply merge shard but right shard range is missing'')
              (sd_range right_shard)) (\<lambda>right_range.
       if rp_end left_range \<noteq> rp_start right_range
       then Inl (InvalidData ''the left shard is not mergeable with right shard'')
       else Inr \<lparr>er_batch = None,
              er_op = Some (sync_op_default\<lparr>so_merge_shard :=
                Some \<lparr>mgs_left_shard_id = mq_left_shard_id req,
                      mgs_right_shard_id = mq_right_shard_id req\<rparr>\<rparr>)\<rparr>))))"

definition eval_accept_shard :: "u64 \<Rightarrow> u64 \<Rightarrow> accept_shard_request \<Rightarrow> eval_result" where
  "eval_accept_shard group_id epoch req =
     \<lparr>er_batch = None,
      er_op = Some (sync_op_move_shard Setup
        \<lparr>msd_shard_desc = as_shard_desc req, msd_src_group_id = as_src_group_id req,
         msd_src_group_epoch = as_src_group_epoch req, msd_dest_group_id = group_id,
         msd_dest_group_epoch = epoch\<rparr>)\<rparr>"

definition eval_add_shard :: "shard_desc \<Rightarrow> eval_result" where
  "eval_add_shard shard = \<lparr>er_batch = None, er_op = Some (sync_op_add_shard shard)\<rparr>"

end
