(* ===== verification/Write_Props.thy ===== *)
theory Write_Props
  imports Eval_Write Txn_Props
begin

text \<open>
  What the non-transactional writes leave in the rows: a batch write gives every key a version newer
  than all it had, with the content of the last operation of the request on that key; ingesting the
  versions of a key copies its history to a group that has none.
\<close>

section \<open>Batches of writes as row operations\<close>

fun batch_rows ::
    "u64 \<Rightarrow> (bytes \<Rightarrow> u64) \<Rightarrow> (nat \<Rightarrow> u64) \<Rightarrow> nat \<Rightarrow> (bytes \<times> bytes option) list \<Rightarrow> row_op list" where
  "batch_rows t pv now idx [] = []"
| "batch_rows t pv now idx ((k, c) # items) =
     SetRow t k (max (pv k + 1) (now idx)) c # batch_rows t pv now (idx + 1) items"

lemma batch_rows_append:
  "batch_rows t pv now idx (xs @ ys) =
     batch_rows t pv now idx xs @ batch_rows t pv now (idx + length xs) ys"
  by (induction xs arbitrary: idx) auto

definition delete_items :: "delete_request list \<Rightarrow> (bytes \<times> bytes option) list" where
  "delete_items dels = map (\<lambda>d. (del_key d, None)) dels"

definition put_items :: "put_request list \<Rightarrow> (bytes \<times> bytes option) list" where
  "put_items puts = map (\<lambda>p. (put_key p, Some (put_value p))) puts"

definition write_items :: "shard_write_request \<Rightarrow> (bytes \<times> bytes option) list" where
  "write_items req = delete_items (sw_deletes req) @ put_items (sw_puts req)"

definition newest_version :: "'db ext \<Rightarrow> 'db group_engine \<Rightarrow> u64 \<Rightarrow> bytes \<Rightarrow> u64" where
  "newest_version X e sid k =
     (case engine_get X e sid k of Inr v \<Rightarrow> prev_version_of v | Inl _ \<Rightarrow> 0)"

lemma newest_version_get: "engine_get X e sid k = Inr v \<Longrightarrow> newest_version X e sid k = prev_version_of v"
  by (simp add: newest_version_def)

lemma batch_deletes_rows:
  assumes "batch_deletes X now e sid idx dels wb resps = Inr (wb', resps')"
    and "ge_shard_descs e sid = Some desc"
  shows "wb' = wb @ map row_op_wb
      (batch_rows (sd_table_id desc) (newest_version X e sid) now idx (delete_items dels)) \<and>
    (\<forall>d\<in>set dels. del_key d \<noteq> [])"
  using assms
proof (induction dels arbitrary: idx wb resps)
  case (Cons d dels)
  obtain v resps1 where get: "engine_get X e sid (del_key d) = Inr v" and k: "del_key d \<noteq> []"
    and rest: "batch_deletes X now e sid (idx + 1) dels
      (wb @ [row_op_wb (SetRow (sd_table_id desc) (del_key d) (max (prev_version_of v + 1) (now idx)) None)])
      resps1 = Inr (wb', resps')"
    using Cons.prems by (auto simp: bind_simps engine_tombstone_Inr split: option.splits)
  show ?case
    using Cons.IH [OF rest Cons.prems(2)] k by (simp add: delete_items_def newest_version_get [OF get])
qed (simp add: delete_items_def)

lemma batch_puts_rows:
  assumes "batch_puts X now e sid idx puts wb resps = Inr (wb', resps')"
    and "ge_shard_descs e sid = Some desc"
  shows "wb' = wb @ map row_op_wb
      (batch_rows (sd_table_id desc) (newest_version X e sid) now idx (put_items puts)) \<and>
    (\<forall>p\<in>set puts. put_key p \<noteq> [])"
  using assms
proof (induction puts arbitrary: idx wb resps)
  case (Cons p puts)
  obtain v resps1 where get: "engine_get X e sid (put_key p) = Inr v" and k: "put_key p \<noteq> []"
    and rest: "batch_puts X now e sid (idx + 1) puts
      (wb @ [row_op_wb (SetRow (sd_table_id desc) (put_key p) (max (prev_version_of v + 1) (now idx)) (Some (put_value p)))])
      resps1 = Inr (wb', resps')"
    using Cons.prems by (auto simp: bind_simps engine_put_Inr split: option.splits if_splits)
  show ?case
    using Cons.IH [OF rest Cons.prems(2)] k by (simp add: put_items_def newest_version_get [OF get])
qed (simp add: put_items_def)

lemma batch_write_rows:
  assumes "batch_write X now ctx e req = Inr (Some res, resp)"
    and "ge_shard_descs e (sw_shard_id req) = Some desc"
  shows "res = with_batch (map row_op_wb (batch_rows (sd_table_id desc)
      (newest_version X e (sw_shard_id req)) now 0 (write_items req))) \<and>
    (\<forall>(k, c)\<in>set (write_items req). k \<noteq> [])"
proof -
  obtain wb ds ps wb' where
    d: "batch_deletes X now e (sw_shard_id req) 0 (sw_deletes req) [] [] = Inr (wb, ds)" and
    p: "batch_puts X now e (sw_shard_id req) (length (sw_deletes req)) (sw_puts req) wb [] = Inr (wb', ps)"
    and res: "res = with_batch wb'"
    using assms(1) by (auto simp: batch_write_def bind_simps split: if_splits)
  show ?thesis
    using batch_deletes_rows [OF d assms(2)] batch_puts_rows [OF p assms(2)] res
    by (auto simp: write_items_def batch_rows_append delete_items_def put_items_def)
qed

lemma word_less_plus_one: "x < x + 1" if "x < - 1" for x :: "'a :: len word"
proof -
  have "unat (- 1 :: 'a word) < 2 ^ LENGTH('a)"
    by (rule unsigned_less)
  then have "unat x + 1 < 2 ^ LENGTH('a)"
    using that unfolding word_less_nat_alt by linarith
  then show ?thesis
    by (simp add: word_less_nat_alt unat_plus_if')
qed

text \<open>Over rows whose versions the clock does not overtake downwards, the last operation wins.\<close>

lemma batch_rows_effect:
  assumes old: "\<And>k w. R t k w \<noteq> None \<Longrightarrow> w \<le> pv k" and pv: "\<forall>k\<in>fst ` set items. pv k < - 1"
    and clock: "mono now"
  shows "(k \<notin> fst ` set items \<longrightarrow> fold do_row_op (batch_rows t pv now 0 items) R t k = R t k) \<and>
    (\<forall>n\<ge>length items. \<forall>w. fold do_row_op (batch_rows t pv now 0 items) R t k w \<noteq> None \<longrightarrow>
       k \<in> fst ` set items \<longrightarrow> w \<le> max (pv k + 1) (now n)) \<and>
    (\<forall>c. map_of (rev items) k = Some c \<longrightarrow>
       (\<exists>v. fold do_row_op (batch_rows t pv now 0 items) R t k v = Some c \<and> pv k < v \<and>
          (\<forall>w. fold do_row_op (batch_rows t pv now 0 items) R t k w \<noteq> None \<longrightarrow> w \<le> v)))"
  using pv
proof (induction items rule: rev_induct)
  case (snoc x items)
  obtain k0 c0 where x: "x = (k0, c0)" by fastforce
  let ?R = "fold do_row_op (batch_rows t pv now 0 items) R"
  let ?v = "max (pv k0 + 1) (now (length items))"
  have step: "fold do_row_op (batch_rows t pv now 0 (items @ [x])) R = row_upd t k0 ?v (Some c0) ?R"
    by (simp add: batch_rows_append x)
  have pv: "\<forall>k\<in>fst ` set items. pv k < - 1"
    using snoc.prems by simp
  note IH = snoc.IH [OF pv]
  show ?case
  proof (cases "k = k0")
    case False
    then have same: "row_upd t k0 ?v (Some c0) ?R t k = ?R t k"
      by (simp add: row_upd_def fun_eq_iff)
    show ?thesis
      using IH False unfolding step same by (simp add: x)
  next
    case True
    have lt: "pv k < pv k + 1"
      using snoc.prems True x by (simp add: word_less_plus_one)
    have le: "w \<le> ?v" if "?R t k w \<noteq> None" for w
    proof (cases "k \<in> fst ` set items")
      case True
      then show ?thesis
        using IH [THEN conjunct2, THEN conjunct1, rule_format, OF order_refl that] \<open>k = k0\<close> by simp
    next
      case False
      with IH have "w \<le> pv k"
        using old that by simp
      with lt show ?thesis
        using \<open>k = k0\<close> by (meson less_imp_le max.coboundedI1 order.trans)
    qed
    have new: "row_upd t k0 ?v (Some c0) ?R t k w \<noteq> None \<Longrightarrow> w \<le> ?v" for w
      using le [of w] by (cases "w = ?v") (simp_all add: row_upd_def True)
    have up: "?v \<le> max (pv k + 1) (now n)" if "length (items @ [x]) \<le> n" for n
      using monoD [OF clock, of "length items" n] that True by (intro max.mono) simp_all
    have gt: "pv k < ?v"
      using lt True by (simp add: less_max_iff_disj)
    have set: "row_upd t k0 ?v (Some c0) ?R t k ?v = Some c0"
      by (simp add: True)
    have "k \<in> fst ` set (items @ [x])" "map_of (rev (items @ [x])) k = Some c0"
      by (simp_all add: x True)
    then show ?thesis
      unfolding step
      by (intro conjI allI impI exI [of _ ?v] order.trans [OF new up]) (simp_all only: new gt set not_True_eq_False simp_thms option.inject)
  qed
qed simp

context ordered_store
begin

lemma engine_get_top:
  assumes "wf_store (cont (ge_db e))" "ge_shard_descs e sid = Some desc"
    and "sd_table_id desc \<noteq> LOCAL_TABLE_ID"
    and "row (cont (ge_db e)) (sd_table_id desc) k v = Some c"
    and "\<And>w. row (cont (ge_db e)) (sd_table_id desc) k w \<noteq> None \<Longrightarrow> w \<le> v"
  shows "engine_get X e sid k = Inr (Some \<lparr>v_content = c, v_version = v\<rparr>)"
proof (rule engine_get_newest [OF assms(1-3), of k])
  fix vs
  assume get: "engine_get X e sid k = Inr (case vs of [] \<Rightarrow> None | v # _ \<Rightarrow> Some v)"
    and h: "is_history (cont (ge_db e)) (sd_table_id desc) k vs"
  show ?thesis
  proof (cases vs)
    case Nil
    with h assms(4) show ?thesis by (simp add: is_history_Nil)
  next
    case (Cons x ws)
    have x: "row (cont (ge_db e)) (sd_table_id desc) k (v_version x) = Some (v_content x)"
      using is_historyD [OF h, of x] Cons by simp
    have "v_version x = v"
      using assms(5) [of "v_version x"] x is_history_newest [OF h [unfolded Cons] assms(4)] by simp
    with x assms(4) have "x = \<lparr>v_content = c, v_version = v\<rparr>"
      by (intro kv_value.equality) simp_all
    with get Cons show ?thesis by simp
  qed
qed

lemma newest_version_row:
  assumes "engine_inv X cont e" "ge_shard_descs e sid = Some desc"
  shows "row (cont (ge_db e)) (sd_table_id desc) k w \<noteq> None \<Longrightarrow> w \<le> newest_version X e sid k"
    and "newest_version X e sid k = 0 \<or>
      row (cont (ge_db e)) (sd_table_id desc) k (newest_version X e sid k) \<noteq> None"
  by (rule engine_get_row [OF assms, of k], simp add: newest_version_get prev_version_of_def split: option.splits)+

lemma batch_write_commit:
  assumes "engine_inv X cont e" "ge_shard_descs e (sw_shard_id req) = Some desc"
    and "batch_write X now ctx e req = Inr (Some res, resp)" "mono now" "plain_states st"
    and "\<forall>k\<in>fst ` set (write_items req).
      row (cont (ge_db e)) (sd_table_id desc) k TXN_INTENT_VERSION = None"
  obtains wb e' where "res = with_batch wb" "group_commit X e [wb] st = Inr e'"
    "\<And>k. k \<notin> fst ` set (write_items req) \<Longrightarrow>
       row (cont (ge_db e')) (sd_table_id desc) k = row (cont (ge_db e)) (sd_table_id desc) k"
    "\<And>k c. map_of (rev (write_items req)) k = Some c \<Longrightarrow>
       \<exists>v. engine_get X e' (sw_shard_id req) k = Inr (Some \<lparr>v_content = c, v_version = v\<rparr>) \<and>
         (\<forall>w. row (cont (ge_db e)) (sd_table_id desc) k w \<noteq> None \<longrightarrow> w < v)"
proof -
  let ?t = "sd_table_id desc" and ?pv = "newest_version X e (sw_shard_id req)"
  let ?ops = "batch_rows ?t ?pv now 0 (write_items req)"
  note inv = engine_invD [OF assms(1,2)]
  note rows = batch_write_rows [OF assms(3,2)]
  obtain e' where e': "group_commit X e [map row_op_wb ?ops] st = Inr e'"
    and sh: "ge_shard_descs e' = ge_shard_descs e"
    by (rule plain_commit [OF assms(5)])
  have keys: "\<forall>op\<in>set (batch_rows t pv now i items). row_op_key op \<in> fst ` set items" for t pv i items
    by (induction items arbitrary: i) auto
  have wf: "wf_store (cont (ge_db e'))"
    using group_commit_wf [OF e' inv(1)] keys [of ?t ?pv 0 "write_items req"] rows by fastforce
  have "?pv k < TXN_INTENT_VERSION" if "k \<in> fst ` set (write_items req)" for k
  proof -
    have "TXN_INTENT_VERSION \<noteq> 0" by (simp add: TXN_INTENT_VERSION_def)
    with newest_version_row(2) [OF assms(1,2), of k] assms(6) that show ?thesis
      unfolding less_intent_version by metis
  qed
  then have pv: "\<forall>k\<in>fst ` set (write_items req). ?pv k < - 1"
    unfolding TXN_INTENT_VERSION_def by blast
  note eff = batch_rows_effect [of "row (cont (ge_db e))" ?t ?pv,
      OF newest_version_row(1) [OF assms(1,2)] pv assms(4)]
  show thesis
  proof (rule that [OF conjunct1 [OF rows] e'])
    fix k assume "k \<notin> fst ` set (write_items req)"
    then show "row (cont (ge_db e')) ?t k = row (cont (ge_db e)) ?t k"
      unfolding group_commit_rows [OF e' inv(2)] using eff by blast
  next
    fix k c assume "map_of (rev (write_items req)) k = Some c"
    then obtain v where v: "row (cont (ge_db e')) ?t k v = Some c" "?pv k < v"
      "\<forall>w. row (cont (ge_db e')) ?t k w \<noteq> None \<longrightarrow> w \<le> v"
      unfolding group_commit_rows [OF e' inv(2)] using eff [THEN conjunct2, THEN conjunct2] by blast
    have "engine_get X e' (sw_shard_id req) k = Inr (Some \<lparr>v_content = c, v_version = v\<rparr>)"
      using v(3) by (intro engine_get_top [OF wf _ inv(2) v(1)]) (simp_all add: sh assms(2))
    moreover have "w < v" if "row (cont (ge_db e)) ?t k w \<noteq> None" for w
      using newest_version_row(1) [OF assms(1,2) that] v(2) by simp
    ultimately show "\<exists>v. engine_get X e' (sw_shard_id req) k = Inr (Some \<lparr>v_content = c, v_version = v\<rparr>) \<and>
        (\<forall>w. row (cont (ge_db e)) ?t k w \<noteq> None \<longrightarrow> w < v)"
      by blast
  qed
qed

end

section \<open>Properties\<close>

text \<open>
  C14. Last write wins: after a batch write, every key of the request has a newest version with the
  content of the last operation on it (deletes come before puts, a delete leaves a tombstone), newer
  than every version the key had; no other key of the table changes. The clock may stand still but
  not run backwards during the request, and none of the keys carries an intent.
\<close>

theorem batch_write_last_wins:
  assumes "ordered_store X cont" "engine_inv X cont e" "ge_shard_descs e (sw_shard_id req) = Some desc"
    and "batch_write X now ctx e req = Inr (Some res, resp)" "mono now" "plain_states st"
    and "\<forall>k\<in>fst ` set (write_items req).
      row (cont (ge_db e)) (sd_table_id desc) k TXN_INTENT_VERSION = None"
  shows "\<exists>wb e'. res = with_batch wb \<and> group_commit X e [wb] st = Inr e' \<and>
    (\<forall>k. k \<notin> fst ` set (write_items req) \<longrightarrow>
       row (cont (ge_db e')) (sd_table_id desc) k = row (cont (ge_db e)) (sd_table_id desc) k) \<and>
    (\<forall>k c. map_of (rev (write_items req)) k = Some c \<longrightarrow>
       (\<exists>v. engine_get X e' (sw_shard_id req) k = Inr (Some \<lparr>v_content = c, v_version = v\<rparr>) \<and>
          (\<forall>w. row (cont (ge_db e)) (sd_table_id desc) k w \<noteq> None \<longrightarrow> w < v)))"
  by (rule ordered_store.batch_write_commit [OF assms]) blast

definition demo_batch :: shard_write_request where
  "demo_batch = \<lparr>sw_shard_id = 1,
     sw_deletes = [\<lparr>del_key = [9], del_conditions = [], del_take_prev_value = False\<rparr>],
     sw_puts = [demo_put\<lparr>put_conditions := []\<rparr>]\<rparr>"

definition demo_old :: "(bytes, bytes) rbt group_engine" where
  "demo_old = demo_with [SetRow 2048 [9] 8 (Some [1])]"

lemma demo_old_inv: "engine_inv mem_ext RBT.lookup demo_old"
  unfolding demo_old_def by (rule demo_with_inv) (simp add: TXN_INTENT_VERSION_def)

lemma demo_old_get: "engine_get mem_ext demo_old 1 [9] = Inr (Some \<lparr>v_content = Some [1], v_version = 8\<rparr>)"
  by (rule mem.engine_get_top [of _ _ demo_shard])
    (use demo_old_inv in \<open>auto simp: demo_old_def engine_inv_def demo_with_row row_upd_def LOCAL_TABLE_ID_def
      split: if_splits\<close>)

lemma demo_batch_run:
  "\<exists>resp. batch_write mem_ext (\<lambda>_. 5) exec_ctx_default demo_old demo_batch =
     Inr (Some (with_batch [row_op_wb (SetRow 2048 [9] 9 None), row_op_wb (SetRow 2048 [9] 9 (Some [42]))]), resp)"
proof -
  have "ge_shard_descs demo_old 1 = Some demo_shard"
    by (simp add: demo_old_def)
  then show ?thesis
    by (simp add: batch_write_def demo_batch_def demo_put_def demo_old_get eval_conditions_def
        exec_ctx_default_def forward_moving_def engine_fill_simps prev_version_of_def)
qed

theorem batch_write_last_wins_witness:
  "\<exists>e' v. group_commit mem_ext demo_old
       [[row_op_wb (SetRow 2048 [9] 9 None), row_op_wb (SetRow 2048 [9] 9 (Some [42]))]] demo_states = Inr e' \<and>
     engine_get mem_ext e' 1 [9] = Inr (Some \<lparr>v_content = Some [42], v_version = v\<rparr>) \<and> 8 < v"
proof -
  obtain resp where run: "batch_write mem_ext (\<lambda>_. 5) exec_ctx_default demo_old demo_batch =
     Inr (Some (with_batch [row_op_wb (SetRow 2048 [9] 9 None), row_op_wb (SetRow 2048 [9] 9 (Some [42]))]), resp)"
    using demo_batch_run by blast
  have sh: "ge_shard_descs demo_old (sw_shard_id demo_batch) = Some demo_shard"
    by (simp add: demo_old_def demo_batch_def)
  have items: "write_items demo_batch = [([9], None), ([9], Some [42])]"
    by (simp add: write_items_def demo_batch_def delete_items_def put_items_def demo_put_def)
  have old: "row (RBT.lookup (ge_db demo_old)) 2048 [9] 8 \<noteq> None"
    and none: "\<forall>k\<in>fst ` set (write_items demo_batch).
      row (RBT.lookup (ge_db demo_old)) (sd_table_id demo_shard) k TXN_INTENT_VERSION = None"
    by (simp_all add: items demo_old_def demo_with_row TXN_INTENT_VERSION_def)
  have id: "sw_shard_id demo_batch = 1"
    by (simp add: demo_batch_def)
  from batch_write_last_wins [OF mem.ordered_store_axioms demo_old_inv sh run monoI demo_states_plain none]
  obtain wb e' where e': "wb = [row_op_wb (SetRow 2048 [9] 9 None), row_op_wb (SetRow 2048 [9] 9 (Some [42]))]"
    "group_commit mem_ext demo_old [wb] demo_states = Inr e'"
    and win: "\<exists>v. engine_get mem_ext e' 1 [9] = Inr (Some \<lparr>v_content = Some [42], v_version = v\<rparr>) \<and>
      (\<forall>w. row (RBT.lookup (ge_db demo_old)) 2048 [9] w \<noteq> None \<longrightarrow> w < v)"
    by (auto simp: items with_batch_def id)
  with old show ?thesis by blast
qed

section \<open>Ingesting\<close>

definition value_op :: "u64 \<Rightarrow> bytes \<Rightarrow> kv_value \<Rightarrow> row_op" where
  "value_op t k v = SetRow t k (v_version v) (v_content v)"

lemma ingest_values_ops:
  assumes "ge_shard_descs e sid = Some desc" "k \<noteq> []"
  shows "ingest_values e wb sid k vs = Inr (wb @ map (row_op_wb \<circ> value_op (sd_table_id desc) k) vs)"
  by (induction vs arbitrary: wb)
    (simp_all add: engine_fill_simps [OF assms] value_op_def split: option.split)

lemma value_ops_row:
  "fold do_row_op (map (value_op t k) vs) R t k w =
     (case find (\<lambda>v. v_version v = w) (rev vs) of Some v \<Rightarrow> Some (v_content v) | None \<Rightarrow> R t k w)"
  by (induction vs rule: rev_induct) (auto simp: value_op_def row_upd_def)

lemma history_find:
  assumes "is_history m t k vs"
  shows "(case find (\<lambda>v. v_version v = w) (rev vs) of Some v \<Rightarrow> Some (v_content v) | None \<Rightarrow> None)
    = row m t k w"
proof (cases "find (\<lambda>v. v_version v = w) (rev vs)")
  case None
  then have "\<forall>v\<in>set vs. v_version v \<noteq> w"
    by (simp add: find_None_iff)
  then have "row m t k w = None"
    using is_history_row [OF assms, of w] by (cases "row m t k w") force+
  with None show ?thesis by simp
next
  case (Some v)
  then have "v \<in> set vs" "v_version v = w"
    using find_SomeD [OF Some] by simp_all
  with Some show ?thesis
    using is_historyD [OF assms, of v] by simp
qed

lemma is_history_empty: "is_history m t k vs \<Longrightarrow> vs = [] \<longleftrightarrow> row m t k = Map.empty"
  using is_historyD [of m t k vs "hd vs"] by (cases vs) (auto simp: is_history_Nil fun_eq_iff)

text \<open>
  C15. Moving a key: reading all versions of a key in one group and ingesting them into a group that
  has no version of it gives that group the same history, tombstones and intents included. A group
  that already has a version of the key ignores the request.
\<close>

theorem ingest_copies_history:
  assumes "ordered_store X cont" "engine_inv X cont src" "engine_inv X cont dst" "k \<noteq> []"
    and "ge_shard_descs src sid = Some desc" "ge_shard_descs dst sid = Some desc" "plain_states st"
  defines "R \<equiv> (\<lambda>e. row (cont (ge_db e)) (sd_table_id desc) k)"
  shows "\<exists>vset. get_all_versions X src sid k = Inr vset \<and>
    (if R src = Map.empty \<or> R dst \<noteq> Map.empty then ingest_value_set X dst sid vset = Inr None
     else \<exists>wb dst'. ingest_value_set X dst sid vset = Inr (Some (with_batch wb)) \<and>
       group_commit X dst [wb] st = Inr dst' \<and> R dst' = R src \<and>
       ingest_value_set X dst' sid vset = Inr None)"
proof -
  note s = ordered_store.engine_invD [OF assms(1,2,5)] and d = ordered_store.engine_invD [OF assms(1,3,6)]
  obtain vs where vs: "get_all_versions X src sid k = Inr \<lparr>vs_user_key = k, vs_values = vs\<rparr>"
    and h: "is_history (cont (ge_db src)) (sd_table_id desc) k vs"
    by (rule ordered_store.get_all_versions_history [OF assms(1) s(1) assms(5) s(2)])
  have nil: "ws = [] \<longleftrightarrow> R e = Map.empty" if "is_history (cont (ge_db e)) (sd_table_id desc) k ws" for e ws
    unfolding R_def by (rule is_history_empty [OF that])
  have get: "\<exists>v. engine_get X e sid k = Inr v \<and> (v = None \<longleftrightarrow> R e = Map.empty)"
    if e: "wf_store (cont (ge_db e))" "ge_shard_descs e sid = Some desc" for e
  proof (rule ordered_store.engine_get_newest [OF assms(1) e d(2), of k])
    fix ws assume "engine_get X e sid k = Inr (case ws of [] \<Rightarrow> None | v # _ \<Rightarrow> Some v)"
      and "is_history (cont (ge_db e)) (sd_table_id desc) k ws"
    then show ?thesis
      using nil [of e ws] by (cases ws) simp_all
  qed
  show ?thesis
  proof (cases "R src = Map.empty \<or> R dst \<noteq> Map.empty")
    case True
    with get [OF d(1) assms(6)] nil [OF h] vs show ?thesis
      by (auto simp: ingest_value_set_def)
  next
    case False
    let ?ops = "map (value_op (sd_table_id desc) k) vs"
    have run: "ingest_value_set X dst sid \<lparr>vs_user_key = k, vs_values = vs\<rparr> =
        Inr (Some (with_batch (map row_op_wb ?ops)))"
      using get [OF d(1) assms(6)] False nil [OF h]
      by (auto simp: ingest_value_set_def ingest_values_ops [OF assms(6,4)])
    obtain dst' where c: "group_commit X dst [map row_op_wb ?ops] st = Inr dst'"
      and sh: "ge_shard_descs dst' = ge_shard_descs dst"
      by (rule ordered_store.plain_commit [OF assms(1,7)])
    have same: "R dst' = R src"
    proof
      fix w
      show "R dst' w = R src w"
        using False history_find [OF h, of w]
        by (simp add: R_def ordered_store.group_commit_rows [OF assms(1) c d(2)] value_ops_row
            split: option.splits)
    qed
    moreover have "wf_store (cont (ge_db dst'))"
      by (rule ordered_store.group_commit_wf [OF assms(1) c d(1)]) (simp add: value_op_def assms(4))
    ultimately have "ingest_value_set X dst' sid \<lparr>vs_user_key = k, vs_values = vs\<rparr> = Inr None"
      using get [of dst'] False sh assms(6) by (auto simp: ingest_value_set_def)
    with same run c vs False show ?thesis by auto
  qed
qed

theorem ingest_copies_history_witness:
  "\<exists>vset wb dst'. get_all_versions mem_ext demo_old 1 [9] = Inr vset \<and>
     ingest_value_set mem_ext demo_engine 1 vset = Inr (Some (with_batch wb)) \<and>
     group_commit mem_ext demo_engine [wb] demo_states = Inr dst' \<and>
     row (RBT.lookup (ge_db dst')) 2048 [9] 8 = Some (Some [1])"
proof -
  have "ge_shard_descs demo_old 1 = Some demo_shard" "ge_shard_descs demo_engine 1 = Some demo_shard"
    by (simp_all add: demo_old_def demo_engine_def)
  moreover have "row (RBT.lookup (ge_db demo_old)) 2048 [9] 8 = Some (Some [1])"
    by (simp add: demo_old_def demo_with_row)
  moreover have "row (RBT.lookup (ge_db demo_engine)) 2048 [9] = Map.empty"
    by (simp add: demo_engine_def row_def fun_eq_iff)
  moreover from calculation have "row (RBT.lookup (ge_db demo_old)) 2048 [9] \<noteq> Map.empty"
    by auto
  moreover note ingest_copies_history [OF mem.ordered_store_axioms demo_old_inv demo_inv, of "[9]" 1 demo_shard demo_states]
  ultimately show ?thesis
    by (simp add: demo_states_plain) metis
qed

end
