(* ===== verification/Fsm.thy ===== *)
theory Fsm
  imports Eval_Write
begin

text \<open>
  The state machine of a group (\<open>replica/fsm/mod.rs\<close>): what applying a committed raft entry does to
  the descriptor, to the state of a moving shard and to the write batches of a plug, and what
  finishing the plug publishes. Log messages are dropped. The observer is called with the values
  listed in \<open>sm_observed\<close>, the watchers receive the events listed in \<open>sm_sent\<close>; both lists grow
  at their end. Whether the receiver of a watcher is still there is the argument \<open>alive\<close>.
\<close>

section \<open>State\<close>

datatype change_replica_kind = Simple | EnterJoint | LeaveJoint

record watch_event =
  we_version :: u64
  we_value :: "bytes option"
  we_key :: bytes

type_synonym watch_trigger = nat
type_synonym watch_target = "u64 \<times> bytes"

record watch_hub =
  wh_receivers :: "(watch_target \<times> watch_trigger) list"
  wh_watchers :: "bytes \<rightharpoonup> watch_trigger list"

datatype observed =
    DescriptorUpdated group_desc
  | TermUpdated u64
  | MoveShardStateUpdated "move_shard_state option"

record 'db state_machine =
  sm_group_engine :: "'db group_engine"
  sm_watch_hub :: watch_hub
  sm_plugged_write_batches :: "write_batch list"
  sm_plugged_write_states :: write_states
  sm_move_out_shards :: "(u64 \<times> shard_desc) list"
  sm_desc_updated :: bool
  sm_move_shard_state_updated :: bool
  sm_last_applied_term :: u64
  sm_observed :: "observed list"
  sm_sent :: "(watch_trigger \<times> watch_event) list"

datatype apply_entry =
    EntryEmpty
  | EntryProposal eval_result
  | EntryConfigChange change_replicas

definition watch_hub_new :: "(watch_target \<times> watch_trigger) list \<Rightarrow> watch_hub" where
  "watch_hub_new receivers = \<lparr>wh_receivers = receivers, wh_watchers = Map.empty\<rparr>"

definition state_machine_new ::
    "'db ext \<Rightarrow> 'db group_engine \<Rightarrow> watch_hub \<Rightarrow> 'db state_machine result" where
  "state_machine_new X group_engine watch_hub =
     (case flushed_apply_state X group_engine of
        Inl _ \<Rightarrow> Inl (Panic ''access flushed index'')
      | Inr apply_state \<Rightarrow>
          Inr \<lparr>sm_group_engine = group_engine, sm_watch_hub = watch_hub,
               sm_plugged_write_batches = [], sm_plugged_write_states = write_states_default,
               sm_move_out_shards = [], sm_desc_updated = False,
               sm_move_shard_state_updated = False, sm_last_applied_term = ei_term apply_state,
               sm_observed = [], sm_sent = []\<rparr>)"

definition sm_descriptor :: "'db state_machine \<Rightarrow> group_desc" where
  "sm_descriptor sm =
     (case ws_descriptor (sm_plugged_write_states sm) of
        Some desc \<Rightarrow> desc
      | None \<Rightarrow> ge_group_desc (sm_group_engine sm))"

section \<open>Replica changes\<close>

definition change_replica_kind_new :: "change_replicas \<Rightarrow> change_replica_kind" where
  "change_replica_kind_new changes =
     (if length changes = 0 then LeaveJoint else if length changes = 1 then Simple else EnterJoint)"

definition find_replica :: "group_desc \<Rightarrow> u64 \<Rightarrow> replica_desc option" where
  "find_replica desc replica_id = find (\<lambda>rep. rd_id rep = replica_id) (gd_replicas desc)"

definition set_replica_role :: "group_desc \<Rightarrow> u64 \<Rightarrow> replica_role \<Rightarrow> group_desc" where
  "set_replica_role desc replica_id role =
     desc\<lparr>gd_replicas := update_first (\<lambda>rep. rd_id rep = replica_id)
       (\<lambda>rep. rep\<lparr>rd_role := replica_role_i32 role\<rparr>) (gd_replicas desc)\<rparr>"

definition push_replica :: "group_desc \<Rightarrow> u64 \<Rightarrow> u64 \<Rightarrow> replica_role \<Rightarrow> group_desc" where
  "push_replica desc replica_id node_id role =
     desc\<lparr>gd_replicas := gd_replicas desc @
       [\<lparr>rd_id = replica_id, rd_node_id = node_id, rd_role = replica_role_i32 role\<rparr>]\<rparr>"

definition check_not_in_joint_state :: "replica_desc option \<Rightarrow> unit result" where
  "check_not_in_joint_state exist =
     (case Option.bind exist (\<lambda>rep. replica_role_from_i32 (rd_role rep)) of
        Some IncomingVoter \<Rightarrow> Inl (Panic ''execute conf change but still in joint state'')
      | Some DemotingVoter \<Rightarrow> Inl (Panic ''execute conf change but still in joint state'')
      | _ \<Rightarrow> Inr ())"

definition apply_simple_change :: "group_desc \<Rightarrow> change_replica \<Rightarrow> group_desc result" where
  "apply_simple_change desc change =
     (let replica_id = cr_replica_id change;
          node_id = cr_node_id change;
          exist = find_replica desc replica_id
      in rbind (check_not_in_joint_state exist) (\<lambda>_.
           case change_replica_type_from_i32 (cr_change_type change) of
             Some Add \<Rightarrow>
               Inr (if exist \<noteq> None then set_replica_role desc replica_id Voter
                    else push_replica desc replica_id node_id Voter)
           | Some AddLearner \<Rightarrow>
               Inr (if exist \<noteq> None then set_replica_role desc replica_id Learner
                    else push_replica desc replica_id node_id Learner)
           | Some Remove \<Rightarrow>
               Inr (desc\<lparr>gd_replicas := filter (\<lambda>rep. rd_id rep \<noteq> replica_id) (gd_replicas desc)\<rparr>)
           | None \<Rightarrow> Inl (Panic ''such change replica operation isn't supported'')))"

definition enter_joint_step ::
    "group_desc \<Rightarrow> u64 list \<Rightarrow> change_replica \<Rightarrow> (group_desc \<times> u64 list) result" where
  "enter_joint_step desc outgoing_learners change =
     (let replica_id = cr_replica_id change;
          node_id = cr_node_id change;
          exist = find_replica desc replica_id
      in rbind (check_not_in_joint_state exist) (\<lambda>_.
         rbind (ok_or (Panic ''such change replica operation isn't supported'')
                  (change_replica_type_from_i32 (cr_change_type change))) (\<lambda>ty.
           case (Option.bind exist (\<lambda>r. replica_role_from_i32 (rd_role r)), ty) of
             (Some Learner, Add) \<Rightarrow> Inr (set_replica_role desc replica_id IncomingVoter, outgoing_learners)
           | (Some Voter, AddLearner) \<Rightarrow> Inr (set_replica_role desc replica_id DemotingVoter, outgoing_learners)
           | (Some Voter, Remove) \<Rightarrow> Inr (set_replica_role desc replica_id DemotingVoter, outgoing_learners)
           | (None, Add) \<Rightarrow> Inr (push_replica desc replica_id node_id IncomingVoter, outgoing_learners)
           | (None, AddLearner) \<Rightarrow> Inr (push_replica desc replica_id node_id Learner, outgoing_learners)
           | (Some Learner, Remove) \<Rightarrow> Inr (desc, outgoing_learners @ [replica_id])
           | (Some Voter, Add) \<Rightarrow> Inr (desc, outgoing_learners)
           | (Some Learner, AddLearner) \<Rightarrow> Inr (desc, outgoing_learners)
           | (None, Remove) \<Rightarrow> Inr (desc, outgoing_learners)
           | _ \<Rightarrow> Inl (Panic ''internal error: entered unreachable code''))))"

fun enter_joint_steps ::
    "group_desc \<Rightarrow> u64 list \<Rightarrow> change_replica list \<Rightarrow> (group_desc \<times> u64 list) result" where
  "enter_joint_steps desc outgoing_learners [] = Inr (desc, outgoing_learners)"
| "enter_joint_steps desc outgoing_learners (change # changes) =
     rbind (enter_joint_step desc outgoing_learners change) (\<lambda>(desc, outgoing_learners).
       enter_joint_steps desc outgoing_learners changes)"

definition apply_enter_joint :: "group_desc \<Rightarrow> change_replica list \<Rightarrow> group_desc result" where
  "apply_enter_joint desc changes =
     rbind (enter_joint_steps desc [] changes) (\<lambda>(desc, outgoing_learners).
       Inr (desc\<lparr>gd_replicas := filter (\<lambda>r. rd_id r \<notin> set outgoing_learners) (gd_replicas desc)\<rparr>))"

definition leave_joint_replica :: "replica_desc \<Rightarrow> replica_desc" where
  "leave_joint_replica replica =
     (case replica_role_from_i32 (rd_role replica) of
        Some IncomingVoter \<Rightarrow> replica\<lparr>rd_role := replica_role_i32 Voter\<rparr>
      | Some DemotingVoter \<Rightarrow> replica\<lparr>rd_role := replica_role_i32 Learner\<rparr>
      | _ \<Rightarrow> replica)"

definition apply_leave_joint :: "group_desc \<Rightarrow> group_desc" where
  "apply_leave_joint desc = desc\<lparr>gd_replicas := map leave_joint_replica (gd_replicas desc)\<rparr>"

definition change_replicas_desc :: "group_desc \<Rightarrow> change_replicas \<Rightarrow> group_desc result" where
  "change_replicas_desc desc changes =
     (case change_replica_kind_new changes of
        LeaveJoint \<Rightarrow> Inr (apply_leave_joint desc)
      | EnterJoint \<Rightarrow> apply_enter_joint desc changes
      | Simple \<Rightarrow> apply_simple_change desc (changes ! 0))"

definition apply_change_replicas ::
    "'db state_machine \<Rightarrow> change_replicas \<Rightarrow> 'db state_machine result" where
  "apply_change_replicas sm changes =
     rbind (change_replicas_desc (sm_descriptor sm) changes) (\<lambda>desc.
       let desc = desc\<lparr>gd_epoch := apply_config_delta (gd_epoch desc)\<rparr>
       in Inr (sm\<lparr>sm_desc_updated := True,
                 sm_plugged_write_states := (sm_plugged_write_states sm)\<lparr>ws_descriptor := Some desc\<rparr>\<rparr>))"

section \<open>Splitting and merging shards\<close>

definition apply_split_shard :: "group_desc \<Rightarrow> split_shard \<Rightarrow> group_desc result" where
  "apply_split_shard group_desc split =
     rbind (ok_or (InvalidData ''apply split shard but old shard is not exists'')
              (group_shard group_desc (sps_old_shard_id split))) (\<lambda>old_shard.
     rbind (ok_or (InvalidData ''shard desc range fields is missing'') (sd_range old_shard)) (\<lambda>rng.
       if \<not> belong_to old_shard (sps_split_key split)
       then Inl (InvalidData ''the split shard key is not belong to the old shard range'')
       else let new_shard = shard_with_range (sps_new_shard_id split) (sd_table_id old_shard)
                              (sps_split_key split) (rp_end rng);
                old_range = \<lparr>rp_start = rp_start rng, rp_end = sps_split_key split\<rparr>;
                group_desc = shard_mut group_desc (sps_old_shard_id split)
                               (\<lambda>shard. shard\<lparr>sd_range := Some old_range\<rparr>)
            in Inr (group_desc\<lparr>gd_shards := gd_shards group_desc @ [new_shard],
                      gd_epoch := apply_shard_delta (gd_epoch group_desc)\<rparr>)))"

definition apply_merge_shard :: "group_desc \<Rightarrow> merge_shard \<Rightarrow> group_desc result" where
  "apply_merge_shard group_desc merge =
     rbind (ok_or (InvalidData ''apply merge shard but left shard is not exists'')
              (group_shard group_desc (mgs_left_shard_id merge))) (\<lambda>left_shard.
     rbind (ok_or (InvalidData ''apply merge shard but right shard is not exists'')
              (group_shard group_desc (mgs_right_shard_id merge))) (\<lambda>right_shard.
       if sd_table_id left_shard \<noteq> sd_table_id right_shard
       then Inl (InvalidData ''apply merge shard but two shard from different table'')
       else
     rbind (ok_or (InvalidData ''apply merge shard but left shard range is missing'')
              (sd_range left_shard)) (\<lambda>left_range.
     rbind (ok_or (InvalidData ''apply merge shard but right shard range is missing'')
              (sd_range right_shard)) (\<lambda>right_range.
       if rp_end left_range \<noteq> rp_start right_range
       then Inl (InvalidData ''the left shard is not mergeable with right shard'')
       else let new_shard = shard_with_range (sd_id left_shard) (sd_table_id left_shard)
                              (rp_start left_range) (rp_end right_range);
                group_desc = drop_shard group_desc (mgs_left_shard_id merge);
                group_desc = drop_shard group_desc (mgs_right_shard_id merge)
            in Inr (group_desc\<lparr>gd_shards := gd_shards group_desc @ [new_shard],
                      gd_epoch := apply_shard_delta (gd_epoch group_desc)\<rparr>)))))"

section \<open>Moving shards\<close>

definition must_move_shard_state :: "'db state_machine \<Rightarrow> move_shard_state result" where
  "must_move_shard_state sm =
     (case ws_move_shard_state (sm_plugged_write_states sm) of
        Some state \<Rightarrow> Inr state
      | None \<Rightarrow> ok_or (Panic ''The MoveShardState should exist'')
                 (ge_move_shard_state (sm_group_engine sm)))"

definition put_move_shard_state :: "'db state_machine \<Rightarrow> move_shard_state \<Rightarrow> 'db state_machine" where
  "put_move_shard_state sm state =
     sm\<lparr>sm_plugged_write_states := (sm_plugged_write_states sm)\<lparr>ws_move_shard_state := Some state\<rparr>\<rparr>"

definition insert_shard :: "(u64 \<times> shard_desc) list \<Rightarrow> shard_desc \<Rightarrow> (u64 \<times> shard_desc) list" where
  "insert_shard shards shard =
     filter (\<lambda>p. fst p \<noteq> sd_id shard) shards @ [(sd_id shard, shard)]"

definition apply_moving_shard ::
    "'db state_machine \<Rightarrow> group_desc \<Rightarrow> move_shard_desc \<Rightarrow> ('db state_machine \<times> group_desc) result" where
  "apply_moving_shard sm group_desc desc =
     rbind (get_shard_desc desc) (\<lambda>shard_desc.
       let inherited_epoch = max (msd_src_group_epoch desc) (msd_dest_group_epoch desc);
           inherited_epoch = max (gd_epoch group_desc) inherited_epoch;
           group_desc = group_desc\<lparr>gd_epoch := apply_shard_delta inherited_epoch\<rparr>
       in Inr (if msd_src_group_id desc = gd_id group_desc
               then (sm\<lparr>sm_move_out_shards := insert_shard (sm_move_out_shards sm) shard_desc,
                        sm_desc_updated := True\<rparr>,
                     group_desc\<lparr>gd_shards := filter (\<lambda>r. sd_id r \<noteq> sd_id shard_desc) (gd_shards group_desc)\<rparr>)
               else (sm\<lparr>sm_desc_updated := True\<rparr>,
                     group_desc\<lparr>gd_shards := gd_shards group_desc @ [shard_desc]\<rparr>)))"

definition apply_move_shard_event ::
    "'db state_machine \<Rightarrow> move_shard \<Rightarrow> group_desc \<Rightarrow> ('db state_machine \<times> group_desc) result" where
  "apply_move_shard_event sm m group_desc =
     rbind (ok_or (Panic ''unknown moving shard event'') (move_shard_event_from_i32 (ms_event m))) (\<lambda>event.
       case event of
         Setup \<Rightarrow>
           (case ms_desc m of
              None \<Rightarrow> Inr (sm, group_desc)
            | Some desc \<Rightarrow>
                Inr ((put_move_shard_state sm
                        \<lparr>mss_move_shard = Some desc, mss_last_moved_key = None,
                         mss_step = move_shard_step_i32 Prepare\<rparr>)\<lparr>sm_move_shard_state_updated := True\<rparr>,
                     group_desc))
       | Ingest \<Rightarrow>
           rbind (must_move_shard_state sm) (\<lambda>state.
             let (state, sm) =
                   (if mss_step state = move_shard_step_i32 Prepare
                    then (state\<lparr>mss_step := move_shard_step_i32 StepMoving\<rparr>,
                          sm\<lparr>sm_move_shard_state_updated := True\<rparr>)
                    else (state, sm));
                 state = state\<lparr>mss_last_moved_key := Some (ms_last_ingested_key m)\<rparr>
             in Inr (put_move_shard_state sm state, group_desc))
       | Commit \<Rightarrow>
           rbind (must_move_shard_state sm) (\<lambda>state.
             Inr ((put_move_shard_state sm (state\<lparr>mss_step := move_shard_step_i32 Moved\<rparr>))
                    \<lparr>sm_move_shard_state_updated := True\<rparr>, group_desc))
       | Apply \<Rightarrow>
           rbind (must_move_shard_state sm) (\<lambda>state.
           rbind (get_move_shard_desc state) (\<lambda>desc.
           rbind (apply_moving_shard sm group_desc desc) (\<lambda>(sm, group_desc).
             Inr ((put_move_shard_state sm (state\<lparr>mss_step := move_shard_step_i32 Finished\<rparr>))
                    \<lparr>sm_move_shard_state_updated := True\<rparr>, group_desc))))
       | Abort \<Rightarrow>
           rbind (must_move_shard_state sm) (\<lambda>state.
             Inr ((put_move_shard_state sm (state\<lparr>mss_step := move_shard_step_i32 StepAborted\<rparr>))
                    \<lparr>sm_move_shard_state_updated := True\<rparr>, group_desc)))"

section \<open>Proposals\<close>

definition sm_apply_split_shard ::
    "'db state_machine \<Rightarrow> split_shard \<Rightarrow> group_desc \<Rightarrow> ('db state_machine \<times> group_desc) result" where
  "sm_apply_split_shard sm split group_desc =
     rbind (apply_split_shard group_desc split) (\<lambda>group_desc.
       Inr (sm\<lparr>sm_desc_updated := True\<rparr>, group_desc))"

definition sm_apply_merge_shard ::
    "'db state_machine \<Rightarrow> merge_shard \<Rightarrow> group_desc \<Rightarrow> ('db state_machine \<times> group_desc) result" where
  "sm_apply_merge_shard sm merge group_desc =
     rbind (apply_merge_shard group_desc merge) (\<lambda>group_desc.
       Inr (sm\<lparr>sm_desc_updated := True\<rparr>, group_desc))"

definition sm_apply_add_shard ::
    "'db state_machine \<Rightarrow> shard_desc \<Rightarrow> group_desc \<Rightarrow> ('db state_machine \<times> group_desc) result" where
  "sm_apply_add_shard sm shard desc =
     (if \<exists>existed_shard\<in>set (gd_shards desc). sd_id existed_shard = sd_id shard
      then Inl (Panic ''not yet implemented: shard already existed in group'')
      else Inr (sm\<lparr>sm_desc_updated := True\<rparr>,
                desc\<lparr>gd_epoch := apply_shard_delta (gd_epoch desc), gd_shards := gd_shards desc @ [shard]\<rparr>))"

definition apply_proposal :: "'db state_machine \<Rightarrow> eval_result \<Rightarrow> 'db state_machine result" where
  "apply_proposal sm res =
     (let sm = (case er_batch res of
                  Some wb \<Rightarrow> sm\<lparr>sm_plugged_write_batches := sm_plugged_write_batches sm @ [wb]\<rparr>
                | None \<Rightarrow> sm)
      in case er_op res of
           None \<Rightarrow> Inr sm
         | Some op \<Rightarrow>
             rbind (case so_add_shard op of
                      Some (Some shard) \<Rightarrow> sm_apply_add_shard sm shard (sm_descriptor sm)
                    | _ \<Rightarrow> Inr (sm, sm_descriptor sm)) (\<lambda>(sm, desc).
             rbind (case so_move_shard op of
                      Some m \<Rightarrow> apply_move_shard_event sm m desc
                    | None \<Rightarrow> Inr (sm, desc)) (\<lambda>(sm, desc).
             rbind (case so_split_shard op of
                      Some split \<Rightarrow> sm_apply_split_shard sm split desc
                    | None \<Rightarrow> Inr (sm, desc)) (\<lambda>(sm, desc).
             rbind (case so_merge_shard op of
                      Some merge \<Rightarrow> sm_apply_merge_shard sm merge desc
                    | None \<Rightarrow> Inr (sm, desc)) (\<lambda>(sm, desc).
               Inr (sm\<lparr>sm_plugged_write_states :=
                     (sm_plugged_write_states sm)\<lparr>ws_descriptor := Some desc\<rparr>\<rparr>))))))"

section \<open>Watchers\<close>

fun handle_register_events ::
    "group_desc \<Rightarrow> (watch_target \<times> watch_trigger) list \<Rightarrow> (bytes \<rightharpoonup> watch_trigger list) \<Rightarrow>
     (bytes \<rightharpoonup> watch_trigger list)" where
  "handle_register_events desc [] watchers = watchers"
| "handle_register_events desc (((shard_id, key), trigger) # events) watchers =
     handle_register_events desc events
       (case group_shard desc shard_id of
          None \<Rightarrow> watchers
        | Some shard \<Rightarrow>
            if \<not> belong_to shard key then watchers
            else case watchers key of
                   Some triggers \<Rightarrow> watchers(key \<mapsto> triggers @ [trigger])
                 | None \<Rightarrow> watchers(key \<mapsto> [trigger]))"

definition watch_put ::
    "(watch_trigger \<Rightarrow> bool) \<Rightarrow> 'db state_machine \<Rightarrow> bytes \<Rightarrow> bytes \<Rightarrow> 'db state_machine result" where
  "watch_put alive sm key v =
     rbind (mvcc_entry_new key v) (\<lambda>entry.
       case wh_watchers (sm_watch_hub sm) (me_user_key entry) of
         None \<Rightarrow> Inr sm
       | Some senders \<Rightarrow>
           rbind (if senders = [] then Inr None else entry_value entry) (\<lambda>content.
             let event = \<lparr>we_version = entry_version entry, we_value = content,
                          we_key = me_user_key entry\<rparr>;
                 live = filter alive senders
             in Inr (sm\<lparr>sm_sent := sm_sent sm @ map (\<lambda>sender. (sender, event)) live,
                        sm_watch_hub := (sm_watch_hub sm)\<lparr>wh_watchers :=
                          (wh_watchers (sm_watch_hub sm))(me_user_key entry :=
                            if live = [] then None else Some live)\<rparr>\<rparr>)))"

fun watch_batch ::
    "(watch_trigger \<Rightarrow> bool) \<Rightarrow> write_batch \<Rightarrow> 'db state_machine \<Rightarrow> 'db state_machine result" where
  "watch_batch alive [] sm = Inr sm"
| "watch_batch alive (WbPut key v # ops) sm =
     rbind (watch_put alive sm key v) (watch_batch alive ops)"
| "watch_batch alive (WbDelete key # ops) sm = watch_batch alive ops sm"

definition trigger_updation_watchers ::
    "(watch_trigger \<Rightarrow> bool) \<Rightarrow> 'db state_machine \<Rightarrow> 'db state_machine result" where
  "trigger_updation_watchers alive sm =
     (let desc = ge_group_desc (sm_group_engine sm);
          hub = sm_watch_hub sm;
          batches = sm_plugged_write_batches sm;
          sm = sm\<lparr>sm_watch_hub := \<lparr>wh_receivers = [],
                    wh_watchers = handle_register_events desc (wh_receivers hub) (wh_watchers hub)\<rparr>,
                  sm_plugged_write_batches := []\<rparr>
      in rbind (watch_batch alive (concat batches) sm) (\<lambda>sm.
           Inr (sm\<lparr>sm_move_out_shards := [],
                   sm_watch_hub := (sm_watch_hub sm)\<lparr>wh_watchers := (\<lambda>key.
                     if \<exists>(shard_id, shard_desc)\<in>set (sm_move_out_shards sm). belong_to shard_desc key
                     then None else wh_watchers (sm_watch_hub sm) key)\<rparr>\<rparr>)))"

section \<open>The interface used by the raft group\<close>

definition flush_updated_events :: "'db state_machine \<Rightarrow> u64 \<Rightarrow> 'db state_machine" where
  "flush_updated_events sm term =
     (let sm = (if sm_desc_updated sm
                then sm\<lparr>sm_desc_updated := False,
                        sm_observed := sm_observed sm @ [DescriptorUpdated (ge_group_desc (sm_group_engine sm))]\<rparr>
                else sm);
          sm = (if sm_last_applied_term sm < term
                then sm\<lparr>sm_last_applied_term := term,
                        sm_observed := sm_observed sm @ [TermUpdated term]\<rparr>
                else sm)
      in if sm_move_shard_state_updated sm
         then sm\<lparr>sm_move_shard_state_updated := False,
                 sm_observed := sm_observed sm @
                   [MoveShardStateUpdated (ge_move_shard_state (sm_group_engine sm))]\<rparr>
         else sm)"

definition start_plug :: "'db state_machine \<Rightarrow> unit result" where
  "start_plug sm =
     (if sm_plugged_write_batches sm \<noteq> []
      then Inl (Panic ''assertion failed: self.plugged_write_batches.is_empty()'')
      else if ws_apply_state (sm_plugged_write_states sm) \<noteq> None
      then Inl (Panic ''assertion failed: self.plugged_write_states.apply_state.is_none()'')
      else Inr ())"

definition sm_apply ::
    "'db state_machine \<Rightarrow> u64 \<Rightarrow> u64 \<Rightarrow> apply_entry \<Rightarrow> 'db state_machine result" where
  "sm_apply sm index term entry =
     rbind (case entry of
              EntryEmpty \<Rightarrow> Inr sm
            | EntryConfigChange change_replicas \<Rightarrow> apply_change_replicas sm change_replicas
            | EntryProposal res \<Rightarrow> apply_proposal sm res) (\<lambda>sm.
       Inr (sm\<lparr>sm_plugged_write_states :=
         (sm_plugged_write_states sm)\<lparr>ws_apply_state := Some \<lparr>ei_index = index, ei_term = term\<rparr>\<rparr>\<rparr>))"

definition finish_plug ::
    "'db ext \<Rightarrow> (watch_trigger \<Rightarrow> bool) \<Rightarrow> 'db state_machine \<Rightarrow> 'db state_machine result" where
  "finish_plug X alive sm =
     (case ws_apply_state (sm_plugged_write_states sm) of
        None \<Rightarrow> Inl (Panic ''invoke GroupStateMachine::finish_plug but WriteStates::apply_states is None'')
      | Some apply_state \<Rightarrow>
          rbind (group_commit X (sm_group_engine sm) (sm_plugged_write_batches sm)
                   (sm_plugged_write_states sm)) (\<lambda>e.
          rbind (trigger_updation_watchers alive
                   (sm\<lparr>sm_group_engine := e, sm_plugged_write_states := write_states_default\<rparr>)) (\<lambda>sm.
            Inr (flush_updated_events sm (ei_term apply_state)))))"

text \<open>
  \<open>apply_snapshot\<close> of \<open>checkpoint.rs\<close> lists the files of the directory and gives the sorted
  \<open>.sst\<close> files to \<open>ingest\<close>. The directory is an argument: \<^const>\<open>None\<close> when it is no directory,
  otherwise the column family its files hold, or \<^const>\<open>None\<close> when there are none.
\<close>

definition checkpoint_apply_snapshot ::
    "'db ext \<Rightarrow> 'db group_engine \<Rightarrow> 'db result option option \<Rightarrow> 'db group_engine result" where
  "checkpoint_apply_snapshot X e snap_dir =
     (case snap_dir of
        None \<Rightarrow> Inl (InvalidArgument ''is not a directory'')
      | Some None \<Rightarrow> Inl (InvalidArgument ''is empty'')
      | Some (Some files) \<Rightarrow> engine_ingest X e files)"

definition apply_snapshot ::
    "'db ext \<Rightarrow> 'db state_machine \<Rightarrow> 'db result option option \<Rightarrow> 'db state_machine result" where
  "apply_snapshot X sm snap_dir =
     rbind (checkpoint_apply_snapshot X (sm_group_engine sm) snap_dir) (\<lambda>e.
       case flushed_apply_state X e of
         Inl _ \<Rightarrow> Inl (Panic ''access flushed index'')
       | Inr apply_state \<Rightarrow>
           Inr (sm\<lparr>sm_group_engine := e,
                   sm_observed := sm_observed sm @
                     [DescriptorUpdated (ge_group_desc e), TermUpdated (ei_term apply_state)]\<rparr>))"

definition flushed_index :: "'db ext \<Rightarrow> 'db state_machine \<Rightarrow> u64 result" where
  "flushed_index X sm =
     (case flushed_apply_state X (sm_group_engine sm) of
        Inl _ \<Rightarrow> Inl (Panic ''access flushed index'')
      | Inr apply_state \<Rightarrow> Inr (ei_index apply_state))"

end
