(* ===== verification/Shard_Props.thy ===== *)
theory Shard_Props
  imports Fsm
begin

text \<open>
  The shards of a group partition the keys they serve: splitting and merging shards, adding a shard
  and moving one keep the partition, and change the owner of exactly the keys they should.
\<close>

section \<open>Ownership\<close>

definition owners :: "group_desc \<Rightarrow> u64 \<Rightarrow> bytes \<Rightarrow> u64 set" where
  "owners desc t k = sd_id ` {s \<in> set (gd_shards desc). sd_table_id s = t \<and> belong_to s k}"

definition range_ok :: "shard_desc \<Rightarrow> bool" where
  "range_ok s \<longleftrightarrow> (case sd_range s of None \<Rightarrow> False | Some r \<Rightarrow> rp_end r = [] \<or> rp_start r \<le> rp_end r)"

definition apart :: "shard_desc \<Rightarrow> shard_desc \<Rightarrow> bool" where
  "apart s s' \<longleftrightarrow> sd_table_id s \<noteq> sd_table_id s' \<or> (\<forall>k. \<not> (belong_to s k \<and> belong_to s' k))"

definition wf_shards :: "group_desc \<Rightarrow> bool" where
  "wf_shards desc \<longleftrightarrow>
     distinct (map sd_id (gd_shards desc)) \<and> (\<forall>s\<in>set (gd_shards desc). range_ok s) \<and>
     (\<forall>s\<in>set (gd_shards desc). \<forall>s'\<in>set (gd_shards desc). sd_id s \<noteq> sd_id s' \<longrightarrow> apart s s')"

lemma image_Collect_insert:
  "f ` {x \<in> insert a A. P x} = (if P a then {f a} else {}) \<union> f ` {x \<in> A. P x}"
  by auto

lemma apart_commute: "apart s s' \<longleftrightarrow> apart s' s"
  by (auto simp: apart_def)

lemma owners_list:
  "owners desc t k = set (map sd_id (filter (\<lambda>s. sd_table_id s = t \<and> belong_to s k) (gd_shards desc)))"
  by (simp add: owners_def)

lemma owners_elim:
  assumes "i \<in> owners desc t k"
  obtains s where "s \<in> set (gd_shards desc)" "sd_table_id s = t" "belong_to s k" "sd_id s = i"
  using assms by (auto simp: owners_def)

lemma wf_shards_apart:
  "wf_shards desc \<Longrightarrow> s \<in> set (gd_shards desc) \<Longrightarrow> s' \<in> set (gd_shards desc) \<Longrightarrow> sd_id s \<noteq> sd_id s' \<Longrightarrow>
    apart s s'"
  by (simp add: wf_shards_def)

lemma wf_shards_owner:
  assumes "wf_shards desc" "s \<in> set (gd_shards desc)" "sd_table_id s = t" "belong_to s k"
  shows "owners desc t k = {sd_id s}"
proof -
  have "i = sd_id s" if own: "i \<in> owners desc t k" for i
  proof (rule ccontr)
    obtain s' where s': "s' \<in> set (gd_shards desc)" "sd_table_id s' = t" "belong_to s' k" "i = sd_id s'"
      using own by (auto simp: owners_def)
    assume "i \<noteq> sd_id s"
    with s' have "apart s' s"
      by (intro wf_shards_apart [OF assms(1)] assms(2)) simp_all
    with s' show False
      using assms by (simp add: apart_def)
  qed
  moreover have "sd_id s \<in> owners desc t k"
    using assms by (auto simp: owners_def)
  ultimately show ?thesis by blast
qed

lemma wf_shards_id:
  "wf_shards desc \<Longrightarrow> s \<in> set (gd_shards desc) \<Longrightarrow> s' \<in> set (gd_shards desc) \<Longrightarrow> sd_id s = sd_id s' \<Longrightarrow> s = s'"
  unfolding wf_shards_def by (meson inj_onD distinct_map)

lemma update_first_distinct:
  "distinct (map f xs) \<Longrightarrow> update_first (\<lambda>x. f x = i) g xs = map (\<lambda>x. if f x = i then g x else x) xs"
proof (induction xs)
  case (Cons x xs)
  have "map (\<lambda>y. if f y = i then g y else y) xs = xs" if "f x = i"
    using Cons.prems that by (intro map_idI) (metis distinct.simps(2) image_eqI list.map(2) list.set_map)
  with Cons show ?case by simp
qed simp

lemma wf_shards_insert:
  assumes "distinct (map sd_id (gd_shards desc))" and set: "set (gd_shards desc) = insert n rest"
    and "range_ok n" "\<And>x. x \<in> rest \<Longrightarrow> range_ok x" "\<And>x. x \<in> rest \<Longrightarrow> apart n x"
    and "\<And>x y. x \<in> rest \<Longrightarrow> y \<in> rest \<Longrightarrow> sd_id x \<noteq> sd_id y \<Longrightarrow> apart x y"
  shows "wf_shards desc"
  unfolding wf_shards_def set
proof (intro conjI ballI impI)
  fix s s' assume "s \<in> insert n rest" "s' \<in> insert n rest" "sd_id s \<noteq> sd_id s'"
  then show "apart s s'"
    using assms(5,6) apart_commute by (metis insert_iff)
qed (use assms in auto)

section \<open>Splitting\<close>

lemma apply_split_shard_Inr:
  assumes "apply_split_shard desc sp = Inr desc'"
  obtains s r where "group_shard desc (sps_old_shard_id sp) = Some s" "sd_range s = Some r"
    "in_range (rp_start r) (rp_end r) (sps_split_key sp)"
    "gd_shards desc' = update_first (\<lambda>x. sd_id x = sps_old_shard_id sp)
        (\<lambda>x. x\<lparr>sd_range := Some \<lparr>rp_start = rp_start r, rp_end = sps_split_key sp\<rparr>\<rparr>) (gd_shards desc) @
      [shard_with_range (sps_new_shard_id sp) (sd_table_id s) (sps_split_key sp) (rp_end r)]"
    "gd_epoch desc' = apply_shard_delta (gd_epoch desc)" "gd_id desc' = gd_id desc"
    "gd_replicas desc' = gd_replicas desc"
  using assms
  by (auto simp: apply_split_shard_def bind_simps shard_mut_def Let_def belong_to_def split: if_splits)

lemma split_wf:
  assumes wf: "wf_shards desc" and run: "apply_split_shard desc sp = Inr desc'"
    and new: "sps_new_shard_id sp \<notin> sd_id ` set (gd_shards desc)" and key: "sps_split_key sp \<noteq> []"
  shows "wf_shards desc' \<and> gd_epoch desc' = apply_shard_delta (gd_epoch desc) \<and>
    owners desc' t k =
      (if owners desc t k = {sps_old_shard_id sp} \<and> sps_split_key sp \<le> k
       then {sps_new_shard_id sp} else owners desc t k)"
proof (rule apply_split_shard_Inr [OF run])
  fix s :: shard_desc and r :: range_partition
  let ?m = "sps_split_key sp" and ?old = "sps_old_shard_id sp"
  let ?s = "s\<lparr>sd_range := Some \<lparr>rp_start = rp_start r, rp_end = ?m\<rparr>\<rparr>"
  let ?n = "shard_with_range (sps_new_shard_id sp) (sd_table_id s) ?m (rp_end r)"
  assume s: "group_shard desc ?old = Some s" and r: "sd_range s = Some r"
    and m: "in_range (rp_start r) (rp_end r) ?m"
    and shards: "gd_shards desc' = update_first (\<lambda>x. sd_id x = ?old)
        (\<lambda>x. x\<lparr>sd_range := Some \<lparr>rp_start = rp_start r, rp_end = ?m\<rparr>\<rparr>) (gd_shards desc) @ [?n]"
    and ep: "gd_epoch desc' = apply_shard_delta (gd_epoch desc)"
  have s': "s \<in> set (gd_shards desc)" "sd_id s = ?old"
    using group_shard_SomeD [OF s] by auto
  let ?rest = "{x \<in> set (gd_shards desc). sd_id x \<noteq> ?old}"
  have list: "gd_shards desc' = map (\<lambda>x. if sd_id x = ?old then ?s else x) (gd_shards desc) @ [?n]"
  proof -
    have "(if sd_id x = ?old then x\<lparr>sd_range := Some \<lparr>rp_start = rp_start r, rp_end = ?m\<rparr>\<rparr> else x)
        = (if sd_id x = ?old then ?s else x)" if "x \<in> set (gd_shards desc)" for x
      using wf_shards_id [OF wf that s'(1)] s'(2) by auto
    then show ?thesis
      using wf by (simp add: shards update_first_distinct wf_shards_def)
  qed
  have set: "set (gd_shards desc') = insert ?s (insert ?n ?rest)"
    using s' by (auto simp: list)
  have ids: "map sd_id (gd_shards desc') = map sd_id (gd_shards desc) @ [sps_new_shard_id sp]"
    using s'(2) by (auto simp: list shard_with_range_def)
  have bs: "belong_to ?s x \<longleftrightarrow> in_range (rp_start r) ?m x" "belong_to s x \<longleftrightarrow> in_range (rp_start r) (rp_end r) x"
    for x by (simp_all add: belong_to_def r)
  have part: "belong_to s x \<longleftrightarrow> belong_to ?s x \<or> belong_to ?n x" "\<not> (belong_to ?s x \<and> belong_to ?n x)" for x
    using in_range_split [OF m key, of x] by (simp_all add: bs)
  have rest: "apart s x" "range_ok x" if "x \<in> ?rest" for x
    using wf that s' by (auto simp: wf_shards_def)
  have ap: "apart ?s x" "apart ?n x" if "x \<in> ?rest" for x
    using rest(1) [OF that] part(1) unfolding apart_def by (auto simp: shard_with_range_def)
  have "apart ?s ?n"
    using part(2) by (simp add: apart_def)
  moreover have "range_ok ?s" "range_ok ?n"
    using m by (auto simp: range_ok_def in_range_def shard_with_range_def)
  moreover have "distinct (map sd_id (gd_shards desc'))"
    using wf new by (simp only: ids) (simp add: wf_shards_def)
  moreover have "apart x y" if "x \<in> ?rest" "y \<in> ?rest" "sd_id x \<noteq> sd_id y" for x y
    using wf that by (auto simp: wf_shards_def)
  ultimately have wf': "wf_shards desc'"
    using ap rest(2) unfolding wf_shards_def set by (auto simp: apart_commute)
  have own: "owners desc' t k = (if sd_table_id s = t \<and> belong_to ?s k then {?old} else {}) \<union>
      (if sd_table_id s = t \<and> belong_to ?n k then {sps_new_shard_id sp} else {}) \<union>
      sd_id ` {x \<in> ?rest. sd_table_id x = t \<and> belong_to x k}"
  proof -
    have "sd_id ?s = ?old" "sd_table_id ?s = sd_table_id s" "sd_id ?n = sps_new_shard_id sp"
      "sd_table_id ?n = sd_table_id s"
      using s'(2) by (simp_all add: shard_with_range_def)
    then show ?thesis
      by (simp only: owners_def set image_Collect_insert Un_assoc)
  qed
  show ?thesis
  proof (cases "belong_to s k \<and> sd_table_id s = t")
    case True
    have "sd_id ` {x \<in> ?rest. sd_table_id x = t \<and> belong_to x k} = {}"
      using True rest(1) by (auto simp: apart_def)
    note own' = own [unfolded this]
    have "owners desc t k = {?old}"
      using wf_shards_owner [OF wf s'(1)] True s'(2) by simp
    moreover have "belong_to ?n k \<longleftrightarrow> ?m \<le> k" "belong_to ?s k \<longleftrightarrow> \<not> ?m \<le> k"
      using True part key by (auto simp: bs in_range_def)
    ultimately show ?thesis
      using True wf' ep by (simp add: own')
  next
    case False
    have ne: "sd_id x \<noteq> ?old" if "x \<in> set (gd_shards desc)" "sd_table_id x = t" "belong_to x k" for x
      using False wf_shards_id [OF wf that(1) s'(1)] s'(2) that(2,3) by metis
    then have "?old \<notin> owners desc t k"
      by (metis owners_elim)
    moreover have "owners desc' t k = owners desc t k"
    proof -
      have "{x \<in> ?rest. sd_table_id x = t \<and> belong_to x k} =
          {x \<in> set (gd_shards desc). sd_table_id x = t \<and> belong_to x k}"
        using ne by blast
      moreover have "\<not> (sd_table_id s = t \<and> belong_to ?s k)" "\<not> (sd_table_id s = t \<and> belong_to ?n k)"
        using False part(1) [of k] by blast+
      ultimately show ?thesis
        unfolding own by (simp only: owners_def if_False Un_empty_left)
    qed
    ultimately show ?thesis
      using wf' ep by auto
  qed
qed

section \<open>Merging\<close>

lemma apply_merge_shard_Inr:
  assumes "apply_merge_shard desc mg = Inr desc'"
  obtains l r lr rr where
    "group_shard desc (mgs_left_shard_id mg) = Some l" "group_shard desc (mgs_right_shard_id mg) = Some r"
    "sd_table_id l = sd_table_id r" "sd_range l = Some lr" "sd_range r = Some rr" "rp_end lr = rp_start rr"
    "gd_shards desc' =
       filter (\<lambda>s. sd_id s \<noteq> mgs_left_shard_id mg \<and> sd_id s \<noteq> mgs_right_shard_id mg) (gd_shards desc) @
       [shard_with_range (sd_id l) (sd_table_id l) (rp_start lr) (rp_end rr)]"
    "gd_epoch desc' = apply_shard_delta (gd_epoch desc)"
  using assms
  by (auto simp: apply_merge_shard_def bind_simps drop_shard_def Let_def conj_commute split: if_splits)

lemma in_range_join:
  assumes "a \<le> m" "m \<noteq> []" "b = [] \<or> m \<le> b"
  shows "in_range a b k \<longleftrightarrow> in_range a m k \<or> in_range m b k"
  using assms by (auto simp: in_range_def)

lemma merge_wf:
  assumes wf: "wf_shards desc" and run: "apply_merge_shard desc mg = Inr desc'"
    and ids: "mgs_left_shard_id mg \<noteq> mgs_right_shard_id mg"
    and bounded: "\<And>l. group_shard desc (mgs_left_shard_id mg) = Some l \<Longrightarrow> end_key l \<noteq> []"
  shows "wf_shards desc' \<and> gd_epoch desc' = apply_shard_delta (gd_epoch desc) \<and>
    owners desc' t k =
      (if owners desc t k = {mgs_right_shard_id mg} then {mgs_left_shard_id mg} else owners desc t k)"
proof (rule apply_merge_shard_Inr [OF run])
  fix l r :: shard_desc and lr rr :: range_partition
  let ?L = "mgs_left_shard_id mg" and ?R = "mgs_right_shard_id mg"
  let ?n = "shard_with_range (sd_id l) (sd_table_id l) (rp_start lr) (rp_end rr)"
  assume l: "group_shard desc ?L = Some l" and r: "group_shard desc ?R = Some r"
    and tb: "sd_table_id l = sd_table_id r" and lr: "sd_range l = Some lr" and rr: "sd_range r = Some rr"
    and meet: "rp_end lr = rp_start rr"
    and list: "gd_shards desc' = filter (\<lambda>s. sd_id s \<noteq> ?L \<and> sd_id s \<noteq> ?R) (gd_shards desc) @ [?n]"
    and ep: "gd_epoch desc' = apply_shard_delta (gd_epoch desc)"
  have l': "l \<in> set (gd_shards desc)" "sd_id l = ?L" and r': "r \<in> set (gd_shards desc)" "sd_id r = ?R"
    using group_shard_SomeD [OF l] group_shard_SomeD [OF r] by auto
  let ?rest = "{x \<in> set (gd_shards desc). sd_id x \<noteq> ?L \<and> sd_id x \<noteq> ?R}"
  have set: "set (gd_shards desc') = insert ?n ?rest"
    by (auto simp: list)
  have ok: "range_ok x" if "x \<in> set (gd_shards desc)" for x
    using wf that by (simp add: wf_shards_def)
  have m: "rp_start rr \<noteq> []" "rp_start lr \<le> rp_start rr" "rp_end rr = [] \<or> rp_start rr \<le> rp_end rr"
    using bounded [OF l] ok [OF l'(1)] ok [OF r'(1)] lr rr meet by (auto simp: end_key_def range_ok_def)
  have part: "belong_to ?n x \<longleftrightarrow> belong_to l x \<or> belong_to r x" for x
    using in_range_join [OF m(2,1,3), of x] by (simp add: belong_to_def lr rr meet shard_with_range_def)
  have rest: "apart l x" "apart r x" if "x \<in> ?rest" for x
    using that l' r' by (auto intro!: wf_shards_apart [OF wf])
  have ap: "apart ?n x" if "x \<in> ?rest" for x
    using rest [OF that] part tb unfolding apart_def by (auto simp: shard_with_range_def)
  have "distinct (map sd_id (gd_shards desc'))"
    using wf l'(2) by (auto simp: list wf_shards_def distinct_map_filter shard_with_range_def)
  moreover have "range_ok ?n"
    using m by (auto simp: range_ok_def shard_with_range_def)
  moreover have "apart x y" if "x \<in> ?rest" "y \<in> ?rest" "sd_id x \<noteq> sd_id y" for x y
    using that by (intro wf_shards_apart [OF wf]) auto
  ultimately have wf': "wf_shards desc'"
    using ap ok by (intro wf_shards_insert [OF _ set]) simp_all
  have own: "owners desc' t k = (if sd_table_id l = t \<and> belong_to ?n k then {?L} else {}) \<union>
      sd_id ` {x \<in> ?rest. sd_table_id x = t \<and> belong_to x k}"
  proof -
    have "sd_id ?n = ?L" "sd_table_id ?n = sd_table_id l"
      using l'(2) by (simp_all add: shard_with_range_def)
    then show ?thesis
      by (simp only: owners_def set image_Collect_insert)
  qed
  show ?thesis
  proof (cases "sd_table_id l = t \<and> belong_to ?n k")
    case True
    then have "\<not> (sd_table_id x = t \<and> belong_to x k)" if "x \<in> ?rest" for x
      using ap [OF that] by (auto simp: apart_def shard_with_range_def)
    then have none: "{x \<in> ?rest. sd_table_id x = t \<and> belong_to x k} = {}"
      by blast
    have "owners desc' t k = {?L}"
      using True own [unfolded none] by simp
    moreover have "owners desc t k = {?L} \<or> owners desc t k = {?R}"
      using True part wf_shards_owner [OF wf l'(1), of t k] wf_shards_owner [OF wf r'(1), of t k] l' r' tb
      by auto
    ultimately show ?thesis
      using wf' ep by auto
  next
    case False
    have ne: "sd_id x \<noteq> ?L \<and> sd_id x \<noteq> ?R"
      if "x \<in> set (gd_shards desc)" "sd_table_id x = t" "belong_to x k" for x
      using False part that(2,3) tb wf_shards_id [OF wf that(1) l'(1)] wf_shards_id [OF wf that(1) r'(1)]
        l'(2) r'(2) by metis
    then have "{x \<in> ?rest. sd_table_id x = t \<and> belong_to x k} =
        {x \<in> set (gd_shards desc). sd_table_id x = t \<and> belong_to x k}"
      by blast
    then have same: "owners desc' t k = owners desc t k"
      unfolding own using False by (simp only: owners_def if_False Un_empty_left)
    moreover have "?R \<notin> owners desc t k"
      using ne by (metis owners_elim)
    ultimately show ?thesis
      using wf' ep by auto
  qed
qed

section \<open>Properties\<close>

text \<open>
  C16. Splitting a shard keeps the shards of the group a partition of the keys they serve: keys of the
  old shard from the split key on belong to the new shard, all other keys keep their owner, and the
  shard epoch goes up by one. The new shard id must be fresh and the split key must not be empty.
\<close>

theorem split_shard_partition:
  assumes "wf_shards desc" "apply_split_shard desc sp = Inr desc'"
    and "sps_new_shard_id sp \<notin> sd_id ` set (gd_shards desc)" "sps_split_key sp \<noteq> []"
  shows "wf_shards desc' \<and> shard_epoch (gd_epoch desc') = shard_epoch (gd_epoch desc) + 1 \<and>
    config_epoch (gd_epoch desc') = config_epoch (gd_epoch desc) \<and>
    (\<forall>t k. owners desc' t k =
      (if owners desc t k = {sps_old_shard_id sp} \<and> sps_split_key sp \<le> k
       then {sps_new_shard_id sp} else owners desc t k))"
  using split_wf [OF assms] by (simp add: apply_shard_delta_shard apply_shard_delta_config)

definition two_shards :: group_desc where
  "two_shards = \<lparr>gd_id = 7, gd_epoch = INITIAL_EPOCH,
     gd_shards = [shard_with_range 1 2048 [] [5], shard_with_range 2 2048 [5] []], gd_replicas = []\<rparr>"

lemma two_shards_wf: "wf_shards two_shards"
  by (auto simp: wf_shards_def two_shards_def shard_with_range_def range_ok_def apart_def belong_to_def
      in_range_def)

theorem split_shard_partition_witness:
  "\<exists>desc'. apply_split_shard two_shards \<lparr>sps_old_shard_id = 1, sps_new_shard_id = 3, sps_split_key = [2]\<rparr>
      = Inr desc' \<and> wf_shards desc' \<and> owners desc' 2048 [3] = {3} \<and> owners desc' 2048 [7] = {2}"
proof -
  let ?sp = "\<lparr>sps_old_shard_id = 1, sps_new_shard_id = 3, sps_split_key = [2]\<rparr>"
  obtain desc' where run: "apply_split_shard two_shards ?sp = Inr desc'"
    by (simp add: apply_split_shard_def two_shards_def group_shard_def shard_with_range_def belong_to_def
        in_range_def Let_def)
  have "owners two_shards 2048 [3] = {1}" "owners two_shards 2048 [7] = {2}"
    by (simp_all add: owners_list two_shards_def shard_with_range_def belong_to_def in_range_def
        )
  moreover note split_shard_partition [OF two_shards_wf run]
  ultimately show ?thesis
    using run by (simp add: two_shards_def shard_with_range_def)
qed

text \<open>
  C17. Merging two shards whose common boundary is a key hands all keys of the right shard to the left
  one and changes no other owner; the result is again a partition and the shard epoch goes up by one.
\<close>

theorem merge_shard_partition:
  assumes "wf_shards desc" "apply_merge_shard desc mg = Inr desc'"
    and "mgs_left_shard_id mg \<noteq> mgs_right_shard_id mg"
    and "\<forall>l. group_shard desc (mgs_left_shard_id mg) = Some l \<longrightarrow> end_key l \<noteq> []"
  shows "wf_shards desc' \<and> shard_epoch (gd_epoch desc') = shard_epoch (gd_epoch desc) + 1 \<and>
    (\<forall>t k. owners desc' t k =
      (if owners desc t k = {mgs_right_shard_id mg} then {mgs_left_shard_id mg} else owners desc t k))"
  using merge_wf [OF assms(1-3)] assms(4) by (simp add: apply_shard_delta_shard)

theorem merge_shard_partition_witness:
  "\<exists>desc'. apply_merge_shard two_shards \<lparr>mgs_left_shard_id = 1, mgs_right_shard_id = 2\<rparr> = Inr desc' \<and>
     wf_shards desc' \<and> owners desc' 2048 [7] = {1}"
proof -
  let ?mg = "\<lparr>mgs_left_shard_id = 1, mgs_right_shard_id = 2\<rparr>"
  obtain desc' where run: "apply_merge_shard two_shards ?mg = Inr desc'"
    by (simp add: apply_merge_shard_def two_shards_def group_shard_def shard_with_range_def Let_def)
  have "owners two_shards 2048 [7] = {2}"
    by (simp add: owners_list two_shards_def shard_with_range_def belong_to_def in_range_def
        )
  moreover note merge_shard_partition [OF two_shards_wf run]
  ultimately show ?thesis
    using run by (simp add: two_shards_def shard_with_range_def group_shard_def end_key_def)
qed

text \<open>
  The two hypotheses cannot be dropped. The empty key belongs to a shard that starts at the minimum,
  and an empty end means no bound: splitting there leaves the old shard with every key of the table.
  Likewise the missing upper bound of a shard counts as equal to the missing lower bound of another,
  so two shards that are far apart merge into a range that loses keys.
\<close>

theorem split_at_empty_key:
  "\<exists>desc'. apply_split_shard two_shards \<lparr>sps_old_shard_id = 1, sps_new_shard_id = 3, sps_split_key = []\<rparr>
      = Inr desc' \<and> owners desc' 2048 [3] = {1, 3} \<and> owners desc' 2048 [7] = {1, 2}"
  by (simp add: apply_split_shard_def two_shards_def group_shard_def shard_with_range_def belong_to_def
      in_range_def owners_list Let_def shard_mut_def insert_commute del: set_map set_filter)

theorem merge_unbounded_shards:
  "\<exists>desc'. apply_merge_shard two_shards \<lparr>mgs_left_shard_id = 2, mgs_right_shard_id = 1\<rparr> = Inr desc' \<and>
     owners desc' 2048 [3] = {} \<and> owners desc' 2048 [7] = {}"
  by (simp add: apply_merge_shard_def two_shards_def group_shard_def shard_with_range_def belong_to_def
      in_range_def owners_list Let_def drop_shard_def)

text \<open>
  The evaluation of a merge does not compare the tables of the shards, applying it does. The applier
  panics on the error.
\<close>

theorem merge_across_tables:
  fixes e :: "'db group_engine"
  assumes "ge_group_desc e = \<lparr>gd_id = 7, gd_epoch = INITIAL_EPOCH,
      gd_shards = [shard_whole 1 2048, shard_whole 2 2049], gd_replicas = []\<rparr>"
    and "ge_shard_descs e = internal_shard_descs (ge_group_desc e)"
  shows "\<exists>res op. eval_merge_shard e \<lparr>mq_left_shard_id = 1, mq_right_shard_id = 2\<rparr> = Inr res \<and>
    er_op res = Some op \<and>
    (\<exists>mg err. so_merge_shard op = Some mg \<and> apply_merge_shard (ge_group_desc e) mg = Inl err)"
  using assms
  by (auto simp: eval_merge_shard_def engine_shard_desc_def internal_shard_descs_def shard_whole_def
      apply_merge_shard_def group_shard_def)

end
