(* ===== verification/Config_Props.thy ===== *)
theory Config_Props
  imports Fsm
begin

text \<open>
  Changing the replicas of a group. A joint configuration counts the voters of the old and of the new
  configuration: entering it leaves the old voters as they were, and leaving it makes the new voters
  the only ones.
\<close>

section \<open>Roles\<close>

definition role_of :: "group_desc \<Rightarrow> u64 \<Rightarrow> replica_role option" where
  "role_of desc i = Option.bind (find_replica desc i) (\<lambda>r. replica_role_from_i32 (rd_role r))"

definition known_roles :: "group_desc \<Rightarrow> bool" where
  "known_roles desc \<longleftrightarrow> (\<forall>r\<in>set (gd_replicas desc). replica_role_from_i32 (rd_role r) \<noteq> None)"

definition settled :: "group_desc \<Rightarrow> bool" where
  "settled desc \<longleftrightarrow> known_roles desc \<and> (\<forall>i. role_of desc i \<in> {None, Some Voter, Some Learner})"

definition node_of :: "group_desc \<Rightarrow> u64 \<Rightarrow> u64 option" where
  "node_of desc i = map_option rd_node_id (find_replica desc i)"

definition old_voters :: "group_desc \<Rightarrow> u64 set" where
  "old_voters desc = {i. role_of desc i \<in> {Some Voter, Some DemotingVoter}}"

definition new_voters :: "group_desc \<Rightarrow> u64 set" where
  "new_voters desc = {i. role_of desc i \<in> {Some Voter, Some IncomingVoter}}"

lemma from_i32_role [simp]: "replica_role_from_i32 (replica_role_i32 r) = Some r"
  by (cases r) (simp_all add: replica_role_from_i32_def)

lemma find_update_first_if:
  assumes "\<And>x. g x = i \<Longrightarrow> g (f x) = i"
  shows "find (\<lambda>x. g x = j) (update_first (\<lambda>x. g x = i) f xs) =
    (if j = i then map_option f (find (\<lambda>x. g x = i) xs) else find (\<lambda>x. g x = j) xs)"
  using assms by (induction xs) auto

lemma find_append: "find p (xs @ ys) = (case find p xs of None \<Rightarrow> find p ys | Some x \<Rightarrow> Some x)"
  by (induction xs) auto

lemma find_filter_key:
  "find (\<lambda>x. g x = j) (filter (\<lambda>x. g x \<notin> S) xs) = (if j \<in> S then None else find (\<lambda>x. g x = j) xs)"
  by (induction xs) auto

lemma find_map_key:
  "(\<And>x. g (f x) = g x) \<Longrightarrow> find (\<lambda>x. g x = j) (map f xs) = map_option f (find (\<lambda>x. g x = j) xs)"
  by (induction xs) auto

lemma role_of_None: "known_roles desc \<Longrightarrow> role_of desc i = None \<longleftrightarrow> find_replica desc i = None"
proof (cases "find_replica desc i")
  case (Some r)
  then have "r \<in> set (gd_replicas desc)"
    using find_SomeD [OF Some [unfolded find_replica_def]] by simp
  with Some show "known_roles desc \<Longrightarrow> ?thesis"
    by (simp add: role_of_def known_roles_def)
qed (simp add: role_of_def)

lemma role_of_set:
  "find_replica desc i \<noteq> None \<Longrightarrow> role_of (set_replica_role desc i r) j = (if j = i then Some r else role_of desc j)"
  by (auto simp: role_of_def find_replica_def set_replica_role_def find_update_first_if)

lemma role_of_push:
  "find_replica desc i = None \<Longrightarrow> role_of (push_replica desc i n r) j = (if j = i then Some r else role_of desc j)"
  by (auto simp: role_of_def find_replica_def push_replica_def find_append split: option.split)

lemma node_of_set: "node_of (set_replica_role desc i r) j = node_of desc j"
  by (auto simp: node_of_def find_replica_def set_replica_role_def find_update_first_if option.map_comp comp_def)

lemma node_of_push:
  "find_replica desc i = None \<Longrightarrow> node_of (push_replica desc i n r) j = (if j = i then Some n else node_of desc j)"
  by (auto simp: node_of_def find_replica_def push_replica_def find_append split: option.split)

lemma node_of_None: "node_of desc i = None \<longleftrightarrow> find_replica desc i = None"
  by (simp add: node_of_def)

lemma leave_joint_replica_ids [simp]:
  "rd_id (leave_joint_replica r) = rd_id r" "rd_node_id (leave_joint_replica r) = rd_node_id r"
  by (auto simp: leave_joint_replica_def split: option.split replica_role.split)

lemma find_leave: "find_replica (apply_leave_joint desc) i = map_option leave_joint_replica (find_replica desc i)"
  by (simp add: find_replica_def apply_leave_joint_def find_map_key)

lemma node_of_leave: "node_of (apply_leave_joint desc) i = node_of desc i"
  by (simp add: node_of_def find_leave option.map_comp comp_def)

lemma role_of_leave:
  "role_of (apply_leave_joint desc) i =
     (case role_of desc i of
        Some IncomingVoter \<Rightarrow> Some Voter
      | Some DemotingVoter \<Rightarrow> Some Learner
      | r \<Rightarrow> r)"
  by (cases "find_replica desc i")
    (auto simp: role_of_def find_leave leave_joint_replica_def replica_role_from_i32_def split: if_splits)

lemma known_set: "known_roles desc \<Longrightarrow> known_roles (set_replica_role desc i r)"
  using set_update_first_subset [of "\<lambda>rep. rd_id rep = i" "\<lambda>rep. rep\<lparr>rd_role := replica_role_i32 r\<rparr>"
      "gd_replicas desc"]
  by (auto simp: known_roles_def set_replica_role_def)

lemma known_push: "known_roles desc \<Longrightarrow> known_roles (push_replica desc i n r)"
  by (auto simp: known_roles_def push_replica_def)

lemma known_leave: "known_roles desc \<Longrightarrow> known_roles (apply_leave_joint desc)"
  by (auto simp: known_roles_def apply_leave_joint_def leave_joint_replica_def
      replica_role_from_i32_def split: option.splits replica_role.splits if_splits)

section \<open>Entering a joint configuration\<close>

text \<open>The role a replica has in the joint configuration, given its role before and the change.\<close>

fun joint_role :: "replica_role option \<Rightarrow> change_replica_type option \<Rightarrow> replica_role option" where
  "joint_role (Some Learner) (Some Add) = Some IncomingVoter"
| "joint_role (Some Voter) (Some AddLearner) = Some DemotingVoter"
| "joint_role (Some Voter) (Some Remove) = Some DemotingVoter"
| "joint_role None (Some Add) = Some IncomingVoter"
| "joint_role None (Some AddLearner) = Some Learner"
| "joint_role r _ = r"

definition change_of :: "change_replica list \<Rightarrow> u64 \<Rightarrow> change_replica_type option" where
  "change_of changes i =
     Option.bind (find (\<lambda>c. cr_replica_id c = i) changes) (\<lambda>c. change_replica_type_from_i32 (cr_change_type c))"

text \<open>The node a change names for a replica that it adds.\<close>

definition change_node :: "change_replica list \<Rightarrow> u64 \<Rightarrow> u64 option" where
  "change_node changes i =
     (if change_of changes i \<in> {Some Add, Some AddLearner}
      then map_option cr_node_id (find (\<lambda>c. cr_replica_id c = i) changes) else None)"

lemma enter_joint_step_ok:
  assumes "change_replica_type_from_i32 (cr_change_type c) \<noteq> None"
    "role_of desc (cr_replica_id c) \<in> {None, Some Voter, Some Learner}"
  shows "\<exists>r. enter_joint_step desc out c = Inr r"
proof -
  obtain ty where ty: "change_replica_type_from_i32 (cr_change_type c) = Some ty" using assms(1) by blast
  show ?thesis
    using assms(2) unfolding enter_joint_step_def Let_def check_not_in_joint_state_def ty role_of_def [symmetric]
    by (cases ty) auto
qed

lemma enter_joint_step_role:
  assumes "enter_joint_step desc out c = Inr (desc', out')" "known_roles desc"
    and "role_of desc (cr_replica_id c) \<in> {None, Some Voter, Some Learner}"
  obtains ty where "change_replica_type_from_i32 (cr_change_type c) = Some ty" "known_roles desc'"
    "\<And>j. role_of desc' j =
       (if j = cr_replica_id c then joint_role (role_of desc j) (Some ty) else role_of desc j)"
    "\<And>j. node_of desc' j =
       (if j = cr_replica_id c \<and> node_of desc j = None \<and> ty \<noteq> Remove then Some (cr_node_id c) else node_of desc j)"
    "set out' = set out \<union>
       (if role_of desc (cr_replica_id c) = Some Learner \<and> ty = Remove then {cr_replica_id c} else {})"
proof -
  let ?i = "cr_replica_id c"
  obtain ty where ty: "change_replica_type_from_i32 (cr_change_type c) = Some ty"
    using assms(1) by (auto simp: enter_joint_step_def Let_def bind_simps)
  have ex: "find_replica desc ?i = None \<longleftrightarrow> role_of desc ?i = None"
    using role_of_None [OF assms(2)] by simp
  note step = assms(1) [unfolded enter_joint_step_def Let_def, folded role_of_def, unfolded ty]
  show ?thesis
  proof (rule that [OF ty])
    show "known_roles desc'"
      using step assms(2,3)
      by (cases ty) (auto simp: bind_simps known_set known_push)
    show "role_of desc' j = (if j = ?i then joint_role (role_of desc j) (Some ty) else role_of desc j)" for j
      using step assms(3) ex
      by (cases ty) (auto simp: bind_simps role_of_set role_of_push)
    show "node_of desc' j =
        (if j = ?i \<and> node_of desc j = None \<and> ty \<noteq> Remove then Some (cr_node_id c) else node_of desc j)" for j
      using step assms(3) ex node_of_None [of desc ?i]
      by (cases ty) (auto simp: bind_simps node_of_set node_of_push)
    show "set out' = set out \<union> (if role_of desc ?i = Some Learner \<and> ty = Remove then {?i} else {})"
      using step assms(3) by (cases ty) (auto simp: bind_simps)
  qed
qed

lemma joint_role_None [simp]: "joint_role r None = r"
  by (cases r rule: option.exhaust) auto

lemma change_of_Cons:
  "change_of (c # cs) j =
     (if j = cr_replica_id c then change_replica_type_from_i32 (cr_change_type c) else change_of cs j)"
  by (simp add: change_of_def)

lemma change_of_absent: "j \<notin> cr_replica_id ` set cs \<Longrightarrow> change_of cs j = None"
  by (induction cs) (auto simp: change_of_Cons, simp add: change_of_def)

lemma change_node_Cons:
  "change_node (c # cs) j =
     (if j = cr_replica_id c
      then if change_replica_type_from_i32 (cr_change_type c) \<in> {Some Add, Some AddLearner}
           then Some (cr_node_id c) else None
      else change_node cs j)"
  by (simp add: change_node_def change_of_Cons)

lemma change_node_absent: "j \<notin> cr_replica_id ` set cs \<Longrightarrow> change_node cs j = None"
  by (simp add: change_node_def change_of_absent)

lemma settled_after:
  assumes role: "\<And>j. role_of desc1 j = (if j = i then f j else role_of desc j)"
    and "i \<notin> ids" "\<forall>j\<in>ids. role_of desc j \<in> S"
  shows "\<forall>j\<in>ids. role_of desc1 j \<in> S"
  using assms by (metis (full_types))

lemma enter_joint_steps_ok:
  assumes "known_roles desc" "distinct (map cr_replica_id changes)"
    "\<forall>i\<in>cr_replica_id ` set changes. role_of desc i \<in> {None, Some Voter, Some Learner}"
    "\<forall>c\<in>set changes. change_replica_type_from_i32 (cr_change_type c) \<noteq> None"
  shows "\<exists>r. enter_joint_steps desc out changes = Inr r"
  using assms
proof (induction changes arbitrary: desc out)
  case (Cons c cs)
  let ?i = "cr_replica_id c"
  have r: "role_of desc ?i \<in> {None, Some Voter, Some Learner}" using Cons.prems(3) by simp
  obtain desc1 out1 where step: "enter_joint_step desc out c = Inr (desc1, out1)"
    using enter_joint_step_ok [OF _ r] Cons.prems(4) by (metis list.set_intros(1) prod.exhaust)
  obtain ty where known: "known_roles desc1"
    and role: "\<And>j. role_of desc1 j = (if j = ?i then joint_role (role_of desc j) (Some ty) else role_of desc j)"
    using enter_joint_step_role [OF step Cons.prems(1) r] by metis
  have new: "?i \<notin> cr_replica_id ` set cs" "distinct (map cr_replica_id cs)" using Cons.prems(2) by simp_all
  have "\<forall>i\<in>cr_replica_id ` set cs. role_of desc1 i \<in> {None, Some Voter, Some Learner}"
    by (rule settled_after [OF role new(1)]) (use Cons.prems(3) in simp)
  then show ?case using Cons.IH [OF known new(2)] Cons.prems(4) step by simp
qed simp

lemma enter_joint_steps_role:
  assumes "enter_joint_steps desc out changes = Inr (desc', out')" "known_roles desc"
    and "distinct (map cr_replica_id changes)"
    and "\<forall>i\<in>cr_replica_id ` set changes. role_of desc i \<in> {None, Some Voter, Some Learner}"
  shows "known_roles desc' \<and> (\<forall>j. role_of desc' j = joint_role (role_of desc j) (change_of changes j)) \<and>
    (\<forall>j. node_of desc' j = (case node_of desc j of Some n \<Rightarrow> Some n | None \<Rightarrow> change_node changes j)) \<and>
    set out' = set out \<union> {j. role_of desc j = Some Learner \<and> change_of changes j = Some Remove}"
  using assms
proof (induction changes arbitrary: desc out)
  case Nil
  then show ?case by (simp add: change_of_def change_node_def split: option.split)
next
  case (Cons c cs)
  let ?i = "cr_replica_id c"
  obtain desc1 out1 where step: "enter_joint_step desc out c = Inr (desc1, out1)"
    and rest: "enter_joint_steps desc1 out1 cs = Inr (desc', out')"
    using Cons.prems(1) by (auto simp: bind_simps)
  have r: "role_of desc ?i \<in> {None, Some Voter, Some Learner}"
    using Cons.prems(4) by simp
  obtain ty where ty: "change_replica_type_from_i32 (cr_change_type c) = Some ty" and known: "known_roles desc1"
    and role: "\<And>j. role_of desc1 j = (if j = ?i then joint_role (role_of desc j) (Some ty) else role_of desc j)"
    and node: "\<And>j. node_of desc1 j =
       (if j = ?i \<and> node_of desc j = None \<and> ty \<noteq> Remove then Some (cr_node_id c) else node_of desc j)"
    and out: "set out1 = set out \<union>
       (if role_of desc ?i = Some Learner \<and> ty = Remove then {?i} else {})"
    using enter_joint_step_role [OF step Cons.prems(2) r] by metis
  have new: "?i \<notin> cr_replica_id ` set cs" and dist: "distinct (map cr_replica_id cs)"
    using Cons.prems(3) by simp_all
  have roles: "\<forall>i\<in>cr_replica_id ` set cs. role_of desc1 i \<in> {None, Some Voter, Some Learner}"
    by (rule settled_after [OF role new]) (use Cons.prems(4) in simp)
  note IH = Cons.IH [OF rest known dist roles]
  show ?case
  proof (intro conjI allI)
    show "known_roles desc'"
      using IH by blast
    show "role_of desc' j = joint_role (role_of desc j) (change_of (c # cs) j)" for j
      using IH role [of j] ty change_of_absent [OF new] by (auto simp: change_of_Cons)
    show "node_of desc' j = (case node_of desc j of Some n \<Rightarrow> Some n | None \<Rightarrow> change_node (c # cs) j)" for j
      using IH node [of j] ty change_node_absent [OF new]
      by (cases ty) (auto simp: change_node_Cons split: option.splits)
    have "role_of desc1 j = Some Learner \<and> change_of cs j = Some Remove \<longleftrightarrow>
        j \<noteq> ?i \<and> role_of desc j = Some Learner \<and> change_of cs j = Some Remove" for j
      using role [of j] change_of_absent [OF new] by auto
    then show "set out' = set out \<union> {j. role_of desc j = Some Learner \<and> change_of (c # cs) j = Some Remove}"
      using IH out ty by (auto simp: change_of_Cons split: if_splits)
  qed
qed

text \<open>A learner that is removed leaves at once, every other replica keeps a role.\<close>

definition joint_target :: "group_desc \<Rightarrow> change_replica list \<Rightarrow> u64 \<Rightarrow> replica_role option" where
  "joint_target desc changes i =
     (if role_of desc i = Some Learner \<and> change_of changes i = Some Remove then None
      else joint_role (role_of desc i) (change_of changes i))"

lemma apply_enter_joint_role:
  assumes "apply_enter_joint desc changes = Inr desc'" "settled desc" "distinct (map cr_replica_id changes)"
  shows "known_roles desc' \<and> (\<forall>i. role_of desc' i = joint_target desc changes i) \<and>
    (\<forall>i. node_of desc' i =
       (if role_of desc i = Some Learner \<and> change_of changes i = Some Remove then None
        else case node_of desc i of Some n \<Rightarrow> Some n | None \<Rightarrow> change_node changes i))"
proof -
  obtain desc1 out where run: "enter_joint_steps desc [] changes = Inr (desc1, out)"
    and desc': "desc' = desc1\<lparr>gd_replicas := filter (\<lambda>r. rd_id r \<notin> set out) (gd_replicas desc1)\<rparr>"
    using assms(1) by (auto simp: apply_enter_joint_def bind_simps)
  note steps = enter_joint_steps_role [OF run _ assms(3)]
  have known: "known_roles desc" "\<forall>i\<in>cr_replica_id ` set changes. role_of desc i \<in> {None, Some Voter, Some Learner}"
    using assms(2) by (simp_all add: settled_def)
  have "known_roles desc'"
    using steps [OF known] by (auto simp: desc' known_roles_def)
  moreover have "role_of desc' i = (if i \<in> set out then None else role_of desc1 i)" for i
    by (simp add: role_of_def find_replica_def desc' find_filter_key)
  moreover have "node_of desc' i = (if i \<in> set out then None else node_of desc1 i)" for i
    by (simp add: node_of_def find_replica_def desc' find_filter_key)
  ultimately show ?thesis
    using steps [OF known] by (auto simp: joint_target_def)
qed

lemma joint_target_cases:
  assumes "role_of desc i \<in> {None, Some Voter, Some Learner}"
  shows "joint_target desc changes i \<in> {Some Voter, Some DemotingVoter} \<longleftrightarrow> role_of desc i = Some Voter"
    and "joint_target desc changes i \<in> {Some Voter, Some IncomingVoter} \<longleftrightarrow>
      (case change_of changes i of Some Add \<Rightarrow> True | Some _ \<Rightarrow> False | None \<Rightarrow> role_of desc i = Some Voter)"
  using assms
  by (cases "change_of changes i"; cases "the (change_of changes i)"; auto simp: joint_target_def)+

section \<open>Properties\<close>

text \<open>
  The role a replica has when the joint configuration is left: the one asked for, except that a voter
  whose removal is asked for stays as a learner.
\<close>

fun final_role :: "replica_role option \<Rightarrow> change_replica_type option \<Rightarrow> replica_role option" where
  "final_role r None = r"
| "final_role r (Some Add) = Some Voter"
| "final_role r (Some AddLearner) = Some Learner"
| "final_role r (Some Remove) = (if r = Some Voter then Some Learner else None)"

text \<open>
  C18. Joint consensus: from a settled configuration, changes of known types to different replicas are accepted. In the
  joint configuration the old voters are still voters, and the new voters are the replicas added as
  voters together with the voters no change names. Once it is left the group is settled, the new voters are the
  voters, and every replica has the role asked for, on the node it was on or the change names: added as
  a voter, added as a learner, or gone. The exception is a voter whose removal is asked for, which stays in the
  descriptor as a learner.
\<close>

theorem joint_consensus_voters:
  assumes "settled desc" "distinct (map cr_replica_id changes)"
    "\<forall>c\<in>set changes. change_replica_type_from_i32 (cr_change_type c) \<noteq> None"
  shows "\<exists>desc'. apply_enter_joint desc changes = Inr desc' \<and> old_voters desc' = old_voters desc \<and>
    new_voters desc' = {i. case change_of changes i of
        Some Add \<Rightarrow> True | Some _ \<Rightarrow> False | None \<Rightarrow> i \<in> old_voters desc} \<and>
    settled (apply_leave_joint desc') \<and> old_voters (apply_leave_joint desc') = new_voters desc' \<and>
    new_voters (apply_leave_joint desc') = new_voters desc' \<and>
    (\<forall>i. role_of (apply_leave_joint desc') i = final_role (role_of desc i) (change_of changes i) \<and>
       node_of (apply_leave_joint desc') i =
         (if role_of (apply_leave_joint desc') i = None then None
          else case node_of desc i of Some n \<Rightarrow> Some n | None \<Rightarrow> change_node changes i))"
proof -
  have st: "role_of desc i \<in> {None, Some Voter, Some Learner}" for i
    using assms(1) by (simp add: settled_def)
  have known: "known_roles desc" using assms(1) by (simp add: settled_def)
  obtain desc' where run: "apply_enter_joint desc changes = Inr desc'"
    using enter_joint_steps_ok [OF known assms(2) _ assms(3), of "[]"] st by (auto simp: apply_enter_joint_def)
  note role = apply_enter_joint_role [OF run assms(1,2)]
  have old: "i \<in> old_voters desc \<longleftrightarrow> role_of desc i = Some Voter" for i
    using st [of i] by (auto simp: old_voters_def)
  have leave: "role_of (apply_leave_joint desc') i =
      (if i \<in> new_voters desc' then Some Voter else if role_of desc' i = None then None else Some Learner)" for i
    by (auto simp: role_of_leave new_voters_def split: option.split replica_role.split)
  have final: "role_of (apply_leave_joint desc') i = final_role (role_of desc i) (change_of changes i)" for i
    using role st [of i]
    by (cases "change_of changes i"; cases "the (change_of changes i)") (auto simp: role_of_leave joint_target_def)
  have node: "node_of (apply_leave_joint desc') i =
      (if role_of (apply_leave_joint desc') i = None then None
       else case node_of desc i of Some n \<Rightarrow> Some n | None \<Rightarrow> change_node changes i)" for i
  proof -
    have "role_of desc i = None \<longleftrightarrow> node_of desc i = None" using role_of_None [OF known] node_of_None by simp
    then show ?thesis
      using role st [of i] final [of i]
      by (cases "change_of changes i"; cases "the (change_of changes i)")
        (auto simp: node_of_leave change_node_def split: option.split)
  qed
  have "old_voters desc' = old_voters desc"
    using role joint_target_cases(1) [OF st] old by (auto simp: old_voters_def)
  moreover have "i \<in> new_voters desc' \<longleftrightarrow>
      (case change_of changes i of Some Add \<Rightarrow> True | Some _ \<Rightarrow> False | None \<Rightarrow> i \<in> old_voters desc)" for i
    unfolding new_voters_def mem_Collect_eq
    by (simp only: role [THEN conjunct2, THEN conjunct1, rule_format] joint_target_cases(2) [OF st] old)
  moreover have "settled (apply_leave_joint desc')"
    using role by (auto simp: settled_def known_leave leave)
  moreover have "old_voters (apply_leave_joint desc') = new_voters desc'"
    "new_voters (apply_leave_joint desc') = new_voters desc'"
    by (auto simp: old_voters_def [of "apply_leave_joint desc'"] new_voters_def [of "apply_leave_joint desc'"] leave)
  ultimately show ?thesis using run final node by (intro exI [of _ desc'] conjI allI) auto
qed

definition demo_group :: group_desc where
  "demo_group = \<lparr>gd_id = 7, gd_epoch = INITIAL_EPOCH, gd_shards = [],
     gd_replicas = [\<lparr>rd_id = 1, rd_node_id = 1, rd_role = 0\<rparr>, \<lparr>rd_id = 2, rd_node_id = 2, rd_role = 0\<rparr>]\<rparr>"

definition demo_changes :: "change_replica list" where
  "demo_changes = [\<lparr>cr_change_type = 0, cr_replica_id = 3, cr_node_id = 3\<rparr>,
     \<lparr>cr_change_type = 1, cr_replica_id = 2, cr_node_id = 2\<rparr>]"

lemma demo_group_settled: "settled demo_group"
  by (auto simp: settled_def known_roles_def role_of_def find_replica_def demo_group_def
      replica_role_from_i32_def)

theorem joint_consensus_voters_witness:
  "\<exists>desc'. apply_enter_joint demo_group demo_changes = Inr desc' \<and> 2 \<in> old_voters desc' \<and>
     2 \<notin> new_voters desc' \<and> 3 \<in> new_voters desc' \<and> settled (apply_leave_joint desc') \<and>
     role_of (apply_leave_joint desc') 3 = Some Voter \<and> node_of (apply_leave_joint desc') 3 = Some 3"
proof -
  have c: "change_of demo_changes 2 = Some Remove" "change_of demo_changes 3 = Some Add"
    "change_node demo_changes 3 = Some 3" "distinct (map cr_replica_id demo_changes)"
    "\<forall>c\<in>set demo_changes. change_replica_type_from_i32 (cr_change_type c) \<noteq> None"
    by (simp_all add: change_of_def change_node_def demo_changes_def change_replica_type_from_i32_def)
  have o: "2 \<in> old_voters demo_group" "node_of demo_group 3 = None"
    by (simp_all add: old_voters_def role_of_def node_of_def find_replica_def demo_group_def replica_role_from_i32_def)
  obtain desc' where d: "apply_enter_joint demo_group demo_changes = Inr desc'" "old_voters desc' = old_voters demo_group"
    "new_voters desc' = {i. case change_of demo_changes i of
        Some Add \<Rightarrow> True | Some _ \<Rightarrow> False | None \<Rightarrow> i \<in> old_voters demo_group}"
    "settled (apply_leave_joint desc')"
    "role_of (apply_leave_joint desc') 3 = final_role (role_of demo_group 3) (change_of demo_changes 3)"
    "node_of (apply_leave_joint desc') 3 = (if role_of (apply_leave_joint desc') 3 = None then None
       else case node_of demo_group 3 of Some n \<Rightarrow> Some n | None \<Rightarrow> change_node demo_changes 3)"
    using joint_consensus_voters [OF demo_group_settled c(4,5)] by blast
  show ?thesis using d c o by (intro exI [of _ desc']) simp
qed

end
