(* ===== verification/Lease.thy ===== *)
theory Lease
  imports Fsm
begin

text \<open>
  What a replica knows about its lease (\<open>replica/state.rs\<close>): the raft role, the newest term the state
  machine has applied, the descriptor and the state of a moving shard. The observer of the state
  machine and of the raft worker keeps it up to date, one call under the lock at a time. What the
  observer broadcasts is the list \<open>lo_broadcast\<close>, what it tells the move shard controller the list
  \<open>ls_sent_moves\<close>; a waker of a task that waits for leadership is a number.
\<close>

section \<open>State\<close>

datatype replica_local_state = Initial | Pending | Normal | Terminated | Tombstone

record replica_info =
  ri_replica_id :: u64
  ri_group_id :: u64
  ri_node_id :: u64
  ri_local_state :: replica_local_state

definition replica_info_new :: "replica_desc \<Rightarrow> u64 \<Rightarrow> replica_local_state \<Rightarrow> replica_info" where
  "replica_info_new replica_desc group_id local_state =
     \<lparr>ri_replica_id = rd_id replica_desc, ri_group_id = group_id, ri_node_id = rd_node_id replica_desc,
      ri_local_state = local_state\<rparr>"

definition is_terminated :: "replica_info \<Rightarrow> bool" where
  "is_terminated info \<longleftrightarrow> ri_local_state info = Terminated"

text \<open>The loop of \<open>terminate\<close> ends with the state it writes, whatever other threads wrote before.\<close>

definition info_terminate :: "replica_info \<Rightarrow> replica_info" where
  "info_terminate info = info\<lparr>ri_local_state := Terminated\<rparr>"

definition as_normal_state :: "replica_info \<Rightarrow> replica_info" where
  "as_normal_state info = info\<lparr>ri_local_state := Normal\<rparr>"

record lease_state =
  ls_leader_id :: u64
  ls_applied_term :: u64
  ls_replica_state :: replica_state
  ls_descriptor :: group_desc
  ls_move_shard_state :: "move_shard_state option"
  ls_sent_moves :: "move_shard_state list"
  ls_channel_closed :: bool
  ls_schedule_state :: schedule_state
  ls_leader_subscribers :: "(string \<times> nat) list"
  ls_woken :: "nat list"

definition replica_state_default :: replica_state where
  "replica_state_default =
     \<lparr>rs_replica_id = 0, rs_group_id = 0, rs_term = 0, rs_voted_for = 0, rs_role = 0, rs_node_id = 0\<rparr>"

definition schedule_state_default :: schedule_state where
  "schedule_state_default =
     \<lparr>ss_group_id = 0, ss_epoch = 0, ss_incoming_replicas = [], ss_outgoing_replicas = []\<rparr>"

definition lease_state_new :: "group_desc \<Rightarrow> move_shard_state option \<Rightarrow> lease_state" where
  "lease_state_new descriptor move_shard_state =
     \<lparr>ls_leader_id = 0, ls_applied_term = 0, ls_replica_state = replica_state_default,
      ls_descriptor = descriptor, ls_move_shard_state = move_shard_state, ls_sent_moves = [],
      ls_channel_closed = False, ls_schedule_state = schedule_state_default,
      ls_leader_subscribers = [], ls_woken = []\<rparr>"

section \<open>Queries\<close>

definition is_raft_leader :: "lease_state \<Rightarrow> bool" where
  "is_raft_leader ls \<longleftrightarrow> rs_role (ls_replica_state ls) = raft_role_i32 Leader"

definition is_log_term_matched :: "lease_state \<Rightarrow> bool" where
  "is_log_term_matched ls \<longleftrightarrow> ls_applied_term ls = rs_term (ls_replica_state ls)"

definition is_ready_for_serving :: "lease_state \<Rightarrow> bool" where
  "is_ready_for_serving ls \<longleftrightarrow> is_raft_leader ls \<and> is_log_term_matched ls"

definition has_shard_moving :: "lease_state \<Rightarrow> bool" where
  "has_shard_moving ls \<longleftrightarrow> ls_move_shard_state ls \<noteq> None"

definition is_shard_in_moving :: "lease_state \<Rightarrow> u64 \<Rightarrow> bool result" where
  "is_shard_in_moving ls shard_id =
     (case ls_move_shard_state ls of
        None \<Rightarrow> Inr False
      | Some s \<Rightarrow> rbind (state_shard_id s) (\<lambda>i. Inr (i = shard_id)))"

definition is_same_shard_moving :: "lease_state \<Rightarrow> move_shard_desc \<Rightarrow> bool result" where
  "is_same_shard_moving ls desc =
     rbind (ok_or (Panic ''called `Option::unwrap()` on a `None` value'') (ls_move_shard_state ls)) (\<lambda>s.
     rbind (get_move_shard_desc s) (\<lambda>d. Inr (d = desc)))"

definition leader_descriptor :: "lease_state \<Rightarrow> replica_desc option" where
  "leader_descriptor ls = find (\<lambda>r. rd_id r = ls_leader_id ls) (gd_replicas (ls_descriptor ls))"

section \<open>Updates\<close>

definition wake_all_waiters :: "lease_state \<Rightarrow> lease_state" where
  "wake_all_waiters ls =
     ls\<lparr>ls_leader_subscribers := [], ls_woken := ls_woken ls @ map snd (ls_leader_subscribers ls)\<rparr>"

definition lease_terminate :: "lease_state \<Rightarrow> lease_state" where
  "lease_terminate ls = (wake_all_waiters ls)\<lparr>ls_channel_closed := True\<rparr>"

text \<open>Sending on a closed channel fails and the result is ignored.\<close>

definition send_move_shard_state :: "lease_state \<Rightarrow> move_shard_state \<Rightarrow> lease_state" where
  "send_move_shard_state ls state =
     (if ls_channel_closed ls then ls else ls\<lparr>ls_sent_moves := ls_sent_moves ls @ [state]\<rparr>)"

datatype broadcast =
    BroadcastReplicaState replica_state
  | BroadcastGroupDescriptor group_desc
  | BroadcastScheduleState schedule_state

record lease_observer =
  lo_info :: replica_info
  lo_lease_state :: lease_state
  lo_broadcast :: "broadcast list"

definition update_replica_state ::
    "lease_observer \<Rightarrow> u64 \<Rightarrow> u64 \<Rightarrow> u64 \<Rightarrow> raft_role \<Rightarrow> lease_observer \<times> replica_state \<times> group_desc option" where
  "update_replica_state ob leader_id voted_for term role =
     (let replica_state =
            \<lparr>rs_replica_id = ri_replica_id (lo_info ob), rs_group_id = ri_group_id (lo_info ob),
             rs_term = term, rs_voted_for = voted_for, rs_role = raft_role_i32 role,
             rs_node_id = ri_node_id (lo_info ob)\<rparr>;
          ls = (lo_lease_state ob)\<lparr>ls_leader_id := leader_id, ls_replica_state := replica_state\<rparr>
      in (ob\<lparr>lo_lease_state := ls\<rparr>, replica_state,
          if role = Leader then Some (ls_descriptor ls) else None))"

definition on_state_updated ::
    "lease_observer \<Rightarrow> u64 \<Rightarrow> u64 \<Rightarrow> u64 \<Rightarrow> raft_role \<Rightarrow> lease_observer" where
  "on_state_updated ob leader_id voted_for term role =
     (case update_replica_state ob leader_id voted_for term role of
        (ob, state, desc) \<Rightarrow>
          ob\<lparr>lo_broadcast := lo_broadcast ob @ [BroadcastReplicaState state] @
               (case desc of Some d \<Rightarrow> [BroadcastGroupDescriptor d] | None \<Rightarrow> [])\<rparr>)"

definition update_descriptor :: "lease_observer \<Rightarrow> group_desc \<Rightarrow> lease_observer \<times> bool" where
  "update_descriptor ob descriptor =
     (let ls = (lo_lease_state ob)\<lparr>ls_descriptor := descriptor\<rparr>
      in (ob\<lparr>lo_lease_state := ls\<rparr>, rs_role (ls_replica_state ls) = raft_role_i32 Leader))"

definition on_descriptor_updated :: "lease_observer \<Rightarrow> group_desc \<Rightarrow> lease_observer" where
  "on_descriptor_updated ob descriptor =
     (case update_descriptor ob descriptor of
        (ob, leader) \<Rightarrow>
          if leader then ob\<lparr>lo_broadcast := lo_broadcast ob @ [BroadcastGroupDescriptor descriptor]\<rparr> else ob)"

definition on_term_updated :: "lease_observer \<Rightarrow> u64 \<Rightarrow> lease_observer" where
  "on_term_updated ob term =
     (let ls = (lo_lease_state ob)\<lparr>ls_applied_term := term\<rparr>;
          ls = (if is_ready_for_serving ls
                then let ls = wake_all_waiters ls
                     in case ls_move_shard_state ls of
                          Some state \<Rightarrow> send_move_shard_state ls state
                        | None \<Rightarrow> ls
                else ls)
      in ob\<lparr>lo_lease_state := ls\<rparr>)"

definition on_move_shard_state_updated ::
    "lease_observer \<Rightarrow> move_shard_state option \<Rightarrow> lease_observer" where
  "on_move_shard_state_updated ob move_shard_state =
     (let ls = (lo_lease_state ob)\<lparr>ls_move_shard_state := move_shard_state\<rparr>;
          ls = (case move_shard_state of
                  Some state \<Rightarrow> if is_ready_for_serving ls then send_move_shard_state ls state else ls
                | None \<Rightarrow> ls)
      in ob\<lparr>lo_lease_state := ls\<rparr>)"

definition on_schedule_state_updated :: "lease_observer \<Rightarrow> schedule_state \<Rightarrow> lease_observer" where
  "on_schedule_state_updated ob schedule_state =
     ob\<lparr>lo_lease_state := (lo_lease_state ob)\<lparr>ls_schedule_state := schedule_state\<rparr>,
        lo_broadcast := lo_broadcast ob @ [BroadcastScheduleState schedule_state]\<rparr>"

text \<open>The calls of the state machine, in order.\<close>

fun observe :: "observed list \<Rightarrow> lease_observer \<Rightarrow> lease_observer" where
  "observe [] ob = ob"
| "observe (DescriptorUpdated d # es) ob = observe es (on_descriptor_updated ob d)"
| "observe (TermUpdated t # es) ob = observe es (on_term_updated ob t)"
| "observe (MoveShardStateUpdated m # es) ob = observe es (on_move_shard_state_updated ob m)"

lemma observe_append: "observe (xs @ ys) ob = observe ys (observe xs ob)"
  by (induction xs ob rule: observe.induct) simp_all

section \<open>The lease follows the state machine\<close>

lemma lease_simps [simp]:
  "ls_descriptor (wake_all_waiters ls) = ls_descriptor ls"
  "ls_move_shard_state (wake_all_waiters ls) = ls_move_shard_state ls"
  "ls_applied_term (wake_all_waiters ls) = ls_applied_term ls"
  "ls_replica_state (wake_all_waiters ls) = ls_replica_state ls"
  "ls_descriptor (send_move_shard_state ls s) = ls_descriptor ls"
  "ls_move_shard_state (send_move_shard_state ls s) = ls_move_shard_state ls"
  "ls_applied_term (send_move_shard_state ls s) = ls_applied_term ls"
  "ls_replica_state (send_move_shard_state ls s) = ls_replica_state ls"
  by (simp_all add: wake_all_waiters_def send_move_shard_state_def)

lemma on_descriptor_updated_simps [simp]:
  "lo_lease_state (on_descriptor_updated ob d) = (lo_lease_state ob)\<lparr>ls_descriptor := d\<rparr>"
  by (simp add: on_descriptor_updated_def update_descriptor_def Let_def)

lemma on_term_updated_simps [simp]:
  "ls_descriptor (lo_lease_state (on_term_updated ob t)) = ls_descriptor (lo_lease_state ob)"
  "ls_move_shard_state (lo_lease_state (on_term_updated ob t)) = ls_move_shard_state (lo_lease_state ob)"
  "ls_applied_term (lo_lease_state (on_term_updated ob t)) = t"
  by (auto simp: on_term_updated_def Let_def split: option.split)

lemma on_move_shard_state_updated_simps [simp]:
  "ls_descriptor (lo_lease_state (on_move_shard_state_updated ob m)) = ls_descriptor (lo_lease_state ob)"
  "ls_move_shard_state (lo_lease_state (on_move_shard_state_updated ob m)) = m"
  "ls_applied_term (lo_lease_state (on_move_shard_state_updated ob m)) = ls_applied_term (lo_lease_state ob)"
  by (auto simp: on_move_shard_state_updated_def Let_def split: option.split)

end
