(* ===== verification/Quorum.thy ===== *)
theory Quorum
  imports Prelude
begin

text \<open>
  Majority and joint quorums of the raft library (\<open>third/raft-rs/src/quorum\<close>). A \<open>HashSet<u64>\<close> is the
  list of its elements in the order its iterator gives them: \<open>List.insert\<close> and \<open>removeAll\<close> are its
  \<open>insert\<close> and \<open>remove\<close>, and the lemmas assume the list distinct and nothing about its order.
\<close>

section \<open>Definitions\<close>

type_synonym hash_set = "u64 list"
type_synonym majority_config = hash_set

definition majority :: "nat \<Rightarrow> nat" where
  "majority n = n div 2 + 1"

datatype vote_result = VotePending | VoteLost | VoteWon

record raft_index =
  ix_index :: u64
  ix_group_id :: u64

definition raft_index_default :: raft_index where
  "raft_index_default = \<lparr>ix_index = 0, ix_group_id = 0\<rparr>"

type_synonym acked_indexer = "u64 \<Rightarrow> raft_index option"

record joint_config =
  jc_incoming :: majority_config
  jc_outgoing :: majority_config

text \<open>The indexes of the voters, sorted with the largest first by a stable sort.\<close>

definition matched_indexes :: "majority_config \<Rightarrow> acked_indexer \<Rightarrow> raft_index list" where
  "matched_indexes voters l =
     sort_key (\<lambda>m. - uint (ix_index m))
       (map (\<lambda>v. case l v of None \<Rightarrow> raft_index_default | Some i \<Rightarrow> i) voters)"

fun group_commit_scan :: "u64 \<Rightarrow> u64 \<Rightarrow> bool \<Rightarrow> raft_index list \<Rightarrow> u64 option \<times> bool" where
  "group_commit_scan quorum_commit_index checked_group_id single_group [] = (None, single_group)"
| "group_commit_scan quorum_commit_index checked_group_id single_group (m # ms) =
     (if ix_group_id m = 0 then group_commit_scan quorum_commit_index checked_group_id False ms
      else if checked_group_id = 0
        then group_commit_scan quorum_commit_index (ix_group_id m) single_group ms
      else if checked_group_id = ix_group_id m
        then group_commit_scan quorum_commit_index checked_group_id single_group ms
      else (Some (min (ix_index m) quorum_commit_index), single_group))"

definition majority_committed_index ::
  "majority_config \<Rightarrow> bool \<Rightarrow> acked_indexer \<Rightarrow> u64 \<times> bool" where
  "majority_committed_index voters use_group_commit l =
     (if voters = [] then (- 1, True)
      else let matched = matched_indexes voters l;
               quorum_index = matched ! (majority (length matched) - 1)
           in if \<not> use_group_commit then (ix_index quorum_index, False)
              else case group_commit_scan (ix_index quorum_index) (ix_group_id quorum_index) True matched of
                     (Some i, _) \<Rightarrow> (i, True)
                   | (None, True) \<Rightarrow> (ix_index quorum_index, False)
                   | (None, False) \<Rightarrow> (ix_index (last matched), False))"

fun count_votes :: "(u64 \<Rightarrow> bool option) \<Rightarrow> u64 list \<Rightarrow> nat \<Rightarrow> nat \<Rightarrow> nat \<times> nat" where
  "count_votes check [] yes missing = (yes, missing)"
| "count_votes check (v # vs) yes missing =
     (case check v of
        Some True \<Rightarrow> count_votes check vs (yes + 1) missing
      | None \<Rightarrow> count_votes check vs yes (missing + 1)
      | Some False \<Rightarrow> count_votes check vs yes missing)"

definition majority_vote_result :: "majority_config \<Rightarrow> (u64 \<Rightarrow> bool option) \<Rightarrow> vote_result" where
  "majority_vote_result voters check =
     (if voters = [] then VoteWon
      else let (yes, missing) = count_votes check voters 0 0;
               q = majority (length voters)
           in if q \<le> yes then VoteWon
              else if q \<le> yes + missing then VotePending
              else VoteLost)"

definition joint_config_new :: "hash_set \<Rightarrow> joint_config" where
  "joint_config_new voters = \<lparr>jc_incoming = voters, jc_outgoing = []\<rparr>"

definition joint_committed_index :: "joint_config \<Rightarrow> bool \<Rightarrow> acked_indexer \<Rightarrow> u64 \<times> bool" where
  "joint_committed_index c use_group_commit l =
     (let (i_idx, i_use_gc) = majority_committed_index (jc_incoming c) use_group_commit l;
          (o_idx, o_use_gc) = majority_committed_index (jc_outgoing c) use_group_commit l
      in (min i_idx o_idx, i_use_gc \<and> o_use_gc))"

definition joint_vote_result :: "joint_config \<Rightarrow> (u64 \<Rightarrow> bool option) \<Rightarrow> vote_result" where
  "joint_vote_result c check =
     (case (majority_vote_result (jc_incoming c) check, majority_vote_result (jc_outgoing c) check) of
        (VoteWon, VoteWon) \<Rightarrow> VoteWon
      | (VoteLost, _) \<Rightarrow> VoteLost
      | (_, VoteLost) \<Rightarrow> VoteLost
      | _ \<Rightarrow> VotePending)"

definition joint_clear :: "joint_config \<Rightarrow> joint_config" where
  "joint_clear c = c\<lparr>jc_incoming := [], jc_outgoing := []\<rparr>"

definition joint_is_singleton :: "joint_config \<Rightarrow> bool" where
  "joint_is_singleton c \<longleftrightarrow> jc_outgoing c = [] \<and> length (jc_incoming c) = 1"

definition joint_ids :: "joint_config \<Rightarrow> hash_set" where
  "joint_ids c = jc_incoming c @ filter (\<lambda>i. i \<notin> set (jc_incoming c)) (jc_outgoing c)"

definition joint_contains :: "joint_config \<Rightarrow> u64 \<Rightarrow> bool" where
  "joint_contains c i \<longleftrightarrow> i \<in> set (jc_incoming c) \<or> i \<in> set (jc_outgoing c)"

definition wf_joint :: "joint_config \<Rightarrow> bool" where
  "wf_joint c \<longleftrightarrow> distinct (jc_incoming c) \<and> distinct (jc_outgoing c)"

section \<open>Quorums\<close>

text \<open>A set of replicas that holds a majority of the voters; everything is a quorum of no voters.\<close>

definition is_quorum :: "hash_set \<Rightarrow> u64 set \<Rightarrow> bool" where
  "is_quorum voters S \<longleftrightarrow> voters = [] \<or> length voters < 2 * card (set voters \<inter> S)"

definition joint_quorum :: "joint_config \<Rightarrow> u64 set \<Rightarrow> bool" where
  "joint_quorum c S \<longleftrightarrow> is_quorum (jc_incoming c) S \<and> is_quorum (jc_outgoing c) S"

definition acked_upto :: "acked_indexer \<Rightarrow> u64 \<Rightarrow> u64 set" where
  "acked_upto l i = {v. i \<le> ix_index (case l v of None \<Rightarrow> raft_index_default | Some x \<Rightarrow> x)}"

lemma is_quorum_majority:
  "is_quorum voters S \<longleftrightarrow> voters = [] \<or> majority (length voters) \<le> card (set voters \<inter> S)"
  by (auto simp: is_quorum_def majority_def)

lemma is_quorum_mono: "is_quorum voters S \<Longrightarrow> S \<subseteq> T \<Longrightarrow> is_quorum voters T"
  unfolding is_quorum_majority
  by (meson List.finite_set finite_Int Int_mono card_mono order_refl order_trans)

lemma quorums_meet:
  assumes "distinct voters" "voters \<noteq> []" "is_quorum voters S" "is_quorum voters T"
  shows "set voters \<inter> S \<inter> T \<noteq> {}"
proof
  assume "set voters \<inter> S \<inter> T = {}"
  then have "card (set voters \<inter> S) + card (set voters \<inter> T) = card ((set voters \<inter> S) \<union> (set voters \<inter> T))"
    by (intro card_Un_disjoint [symmetric]) auto
  also have "\<dots> \<le> card (set voters)"
    by (rule card_mono) auto
  also have "\<dots> = length voters"
    using assms(1) by (rule distinct_card)
  finally show False
    using assms by (simp add: is_quorum_majority majority_def)
qed

lemma length_filter_card: "distinct xs \<Longrightarrow> length (filter P xs) = card (set xs \<inter> {x. P x})"
  using distinct_card [of "filter P xs"] by (simp add: Int_def)

section \<open>The committed index\<close>

lemma sorted_nth_filter:
  fixes f :: "'a \<Rightarrow> 'b :: linorder"
  assumes "sorted_wrt (\<lambda>a b. b \<le> a) (map f xs)" "k < length xs"
  shows "i \<le> f (xs ! k) \<longleftrightarrow> k < length (filter (\<lambda>x. i \<le> f x) xs)"
  using assms
proof (induction xs arbitrary: k)
  case (Cons x xs)
  show ?case
  proof (cases "i \<le> f x")
    case True
    with Cons show ?thesis by (cases k) auto
  next
    case False
    with Cons.prems have "\<forall>y\<in>set (x # xs). \<not> i \<le> f y" by auto
    then have none: "filter (\<lambda>x. i \<le> f x) (x # xs) = []" by (simp add: filter_empty_conv)
    have "(x # xs) ! k \<in> set (x # xs)" using Cons.prems(2) by (rule nth_mem)
    with \<open>\<forall>y\<in>set (x # xs). \<not> i \<le> f y\<close> show ?thesis by (simp only: none) auto
  qed
qed simp

lemma length_matched_indexes [simp]: "length (matched_indexes voters l) = length voters"
  by (simp add: matched_indexes_def)

lemma sorted_matched_indexes:
  "sorted_wrt (\<lambda>a b. b \<le> a) (map ix_index (matched_indexes voters l))"
proof -
  have "sorted (map (\<lambda>m. - uint (ix_index m)) (matched_indexes voters l))"
    unfolding matched_indexes_def by (rule sorted_sort_key)
  then show ?thesis
    by (simp add: sorted_wrt_map word_le_def)
qed

lemma filter_matched_indexes:
  "length (filter (\<lambda>m. i \<le> ix_index m) (matched_indexes voters l)) =
    length (filter (\<lambda>v. v \<in> acked_upto l i) voters)"
proof -
  have "length (filter (\<lambda>m. i \<le> ix_index m) (matched_indexes voters l)) =
    length (filter (\<lambda>m. i \<le> ix_index m)
      (map (\<lambda>v. case l v of None \<Rightarrow> raft_index_default | Some x \<Rightarrow> x) voters))"
    by (simp add: matched_indexes_def filter_sort)
  then show ?thesis
    by (simp add: filter_map o_def acked_upto_def)
qed

lemma majority_le: "voters \<noteq> [] \<Longrightarrow> majority (length voters) - 1 < length voters"
  by (simp add: majority_def)

lemma quorum_index:
  assumes "distinct voters" "voters \<noteq> []"
  shows "i \<le> ix_index (matched_indexes voters l ! (majority (length voters) - 1)) \<longleftrightarrow>
    is_quorum voters (acked_upto l i)"
proof -
  have "i \<le> ix_index (matched_indexes voters l ! (majority (length voters) - 1)) \<longleftrightarrow>
    majority (length voters) - 1 < length (filter (\<lambda>v. v \<in> acked_upto l i) voters)"
    using sorted_nth_filter [OF sorted_matched_indexes, of "majority (length voters) - 1" voters l i]
      majority_le [OF assms(2)] by (simp add: filter_matched_indexes)
  then show ?thesis
    using assms by (auto simp: is_quorum_majority length_filter_card majority_def)
qed

lemma majority_committed_index_quorum:
  "distinct voters \<Longrightarrow>
    i \<le> fst (majority_committed_index voters False l) \<longleftrightarrow> is_quorum voters (acked_upto l i)"
  using quorum_index [of voters i l]
  by (cases "voters = []") (simp_all add: majority_committed_index_def Let_def is_quorum_majority)

text \<open>
  C19. Without group commit an index is at most the committed index of a joint configuration exactly
  when a majority of the incoming voters and, while there are outgoing voters, a majority of those
  have acknowledged it: the committed index is the largest index that both majorities hold.
\<close>

theorem committed_index_quorum:
  assumes "wf_joint c"
  shows "i \<le> fst (joint_committed_index c False l) \<longleftrightarrow> joint_quorum c (acked_upto l i)"
  using assms
  by (simp add: joint_committed_index_def joint_quorum_def wf_joint_def case_prod_unfold Let_def
      majority_committed_index_quorum)

definition demo_joint :: joint_config where
  "demo_joint = \<lparr>jc_incoming = [1, 2, 3], jc_outgoing = [3, 4]\<rparr>"

definition demo_acked :: acked_indexer where
  "demo_acked v =
     (if v = 1 then Some \<lparr>ix_index = 9, ix_group_id = 1\<rparr>
      else if v = 2 then Some \<lparr>ix_index = 5, ix_group_id = 2\<rparr>
      else if v = 3 then Some \<lparr>ix_index = 7, ix_group_id = 2\<rparr>
      else if v = 4 then Some \<lparr>ix_index = 8, ix_group_id = 1\<rparr> else None)"

lemma wf_demo_joint: "wf_joint demo_joint"
  by (simp add: wf_joint_def demo_joint_def)

theorem committed_index_quorum_witness:
  "joint_quorum demo_joint (acked_upto demo_acked 7) \<and> \<not> joint_quorum demo_joint (acked_upto demo_acked 8)"
proof -
  have "joint_committed_index demo_joint False demo_acked = (7, False)" by code_simp
  then show ?thesis
    using committed_index_quorum [OF wf_demo_joint, of 7 demo_acked]
      committed_index_quorum [OF wf_demo_joint, of 8 demo_acked] by simp
qed

section \<open>Group commit\<close>

lemma group_commit_scan_Some:
  assumes "group_commit_scan q g single ms = (Some i, s)"
  shows "i \<le> q \<and> (\<exists>m\<in>set ms. i \<le> ix_index m \<and> ix_group_id m \<noteq> 0 \<and> ix_group_id m \<noteq> g \<and>
    (g = 0 \<longrightarrow> sorted_wrt (\<lambda>a b. b \<le> a) (map ix_index ms) \<longrightarrow>
      (\<exists>n\<in>set ms. i \<le> ix_index n \<and> ix_group_id n \<noteq> 0 \<and> ix_group_id n \<noteq> ix_group_id m)))"
  using assms
proof (induction ms arbitrary: g single)
  case (Cons m ms)
  show ?case
  proof (cases "ix_group_id m = 0 \<or> g = ix_group_id m")
    case True
    then have "\<exists>single'. group_commit_scan q g single' ms = (Some i, s)"
      using Cons.prems by (auto split: if_splits)
    then obtain single' where scan: "group_commit_scan q g single' ms = (Some i, s)" ..
    from Cons.IH [OF scan] show ?thesis by auto
  next
    case other: False
    show ?thesis
    proof (cases "g = 0")
      case True
      with other Cons.prems have "group_commit_scan q (ix_group_id m) single ms = (Some i, s)" by simp
      from Cons.IH [OF this] other True obtain n
        where n: "i \<le> q" "n \<in> set ms" "i \<le> ix_index n" "ix_group_id n \<noteq> 0" "ix_group_id n \<noteq> ix_group_id m"
        by auto
      have "i \<le> ix_index m" if "sorted_wrt (\<lambda>a b. b \<le> a) (map ix_index (m # ms))"
        using that n(2,3) by auto
      with n other True show ?thesis by auto
    next
      case False
      with other Cons.prems show ?thesis by auto
    qed
  qed
qed simp

lemma acked_upto_mono: "i \<le> j \<Longrightarrow> acked_upto l j \<subseteq> acked_upto l i"
  by (auto simp: acked_upto_def)

lemma in_matched_indexes:
  "m \<in> set (matched_indexes voters l) \<longleftrightarrow>
    (\<exists>v\<in>set voters. m = (case l v of None \<Rightarrow> raft_index_default | Some x \<Rightarrow> x))"
  by (auto simp: matched_indexes_def)

lemma last_matched_le:
  assumes "m \<in> set (matched_indexes voters l)"
  shows "ix_index (last (matched_indexes voters l)) \<le> ix_index m"
proof -
  let ?ms = "matched_indexes voters l"
  have ne: "?ms \<noteq> []" using assms by auto
  then have split: "?ms = butlast ?ms @ [last ?ms]" by simp
  have "sorted_wrt (\<lambda>a b. b \<le> a) (map ix_index (butlast ?ms @ [last ?ms]))"
    using sorted_matched_indexes [of voters l] split by simp
  then have "\<forall>x\<in>set (butlast ?ms). ix_index (last ?ms) \<le> ix_index x"
    by (simp add: sorted_wrt_append)
  moreover have "m \<in> set (butlast ?ms) \<or> m = last ?ms"
    using assms by (subst (asm) split) auto
  ultimately show ?thesis by auto
qed

definition group_of :: "acked_indexer \<Rightarrow> u64 \<Rightarrow> u64" where
  "group_of l v = ix_group_id (case l v of None \<Rightarrow> raft_index_default | Some x \<Rightarrow> x)"

definition two_groups :: "hash_set \<Rightarrow> acked_indexer \<Rightarrow> u64 \<Rightarrow> bool" where
  "two_groups voters l i \<longleftrightarrow>
     (\<exists>v\<in>set voters \<inter> acked_upto l i. \<exists>w\<in>set voters \<inter> acked_upto l i.
        group_of l v \<noteq> 0 \<and> group_of l w \<noteq> 0 \<and> group_of l v \<noteq> group_of l w)"

lemma two_groupsI:
  assumes "m \<in> set (matched_indexes voters l)" "n \<in> set (matched_indexes voters l)"
    "i \<le> ix_index m" "i \<le> ix_index n"
    "ix_group_id m \<noteq> 0" "ix_group_id n \<noteq> 0" "ix_group_id m \<noteq> ix_group_id n"
  shows "two_groups voters l i"
proof -
  from assms(1) obtain v where "v \<in> set voters" "m = (case l v of None \<Rightarrow> raft_index_default | Some x \<Rightarrow> x)"
    by (auto simp: in_matched_indexes)
  moreover from assms(2) obtain w where "w \<in> set voters" "n = (case l w of None \<Rightarrow> raft_index_default | Some x \<Rightarrow> x)"
    by (auto simp: in_matched_indexes)
  ultimately show ?thesis
    using assms(3-) unfolding two_groups_def acked_upto_def group_of_def
    by (intro bexI [of _ v] bexI [of _ w]) auto
qed

lemma majority_group_commit:
  assumes "majority_committed_index voters True l = (i, b)" "voters \<noteq> []"
  shows "i \<le> fst (majority_committed_index voters False l) \<and> (b \<longrightarrow> two_groups voters l i)"
proof -
  let ?ms = "matched_indexes voters l"
  let ?q = "?ms ! (majority (length voters) - 1)"
  have q: "?q \<in> set ?ms" using majority_le [OF assms(2)] by (simp add: nth_mem)
  obtain r s where scan: "group_commit_scan (ix_index ?q) (ix_group_id ?q) True ?ms = (r, s)"
    by (cases "group_commit_scan (ix_index ?q) (ix_group_id ?q) True ?ms")
  show ?thesis
  proof (cases r)
    case None
    with assms scan last_matched_le [OF q] show ?thesis
      by (cases s) (auto simp: majority_committed_index_def Let_def)
  next
    case (Some j)
    with assms scan have i: "j = i" and b by (auto simp: majority_committed_index_def Let_def)
    have found: "i \<le> ix_index ?q \<and> (\<exists>m\<in>set ?ms. i \<le> ix_index m \<and> ix_group_id m \<noteq> 0 \<and>
      ix_group_id m \<noteq> ix_group_id ?q \<and> (ix_group_id ?q = 0 \<longrightarrow>
        (\<exists>n\<in>set ?ms. i \<le> ix_index n \<and> ix_group_id n \<noteq> 0 \<and> ix_group_id n \<noteq> ix_group_id m)))"
      using group_commit_scan_Some [OF scan [unfolded Some i]] sorted_matched_indexes [of voters l] by blast
    then obtain m where m: "m \<in> set ?ms" "i \<le> ix_index m" "ix_group_id m \<noteq> 0"
      "ix_group_id m \<noteq> ix_group_id ?q" "ix_group_id ?q = 0 \<longrightarrow>
        (\<exists>n\<in>set ?ms. i \<le> ix_index n \<and> ix_group_id n \<noteq> 0 \<and> ix_group_id n \<noteq> ix_group_id m)" by blast
    have "two_groups voters l i"
    proof (cases "ix_group_id ?q = 0")
      case True
      with m obtain n where "n \<in> set ?ms" "i \<le> ix_index n" "ix_group_id n \<noteq> 0" "ix_group_id n \<noteq> ix_group_id m"
        by blast
      with m show ?thesis by (intro two_groupsI [of m voters l n]) auto
    next
      case False
      with m q found show ?thesis by (intro two_groupsI [of m voters l ?q]) auto
    qed
    with found assms show ?thesis by (simp add: majority_committed_index_def Let_def)
  qed
qed

text \<open>
  C20. Group commit never commits more than the majorities hold, and when it reports that it took
  effect in a configuration with voters on the incoming side, replicas of two different groups hold
  the committed index.
\<close>

theorem group_commit_safe:
  assumes "wf_joint c" "jc_incoming c \<noteq> []" "joint_committed_index c True l = (i, b)"
  shows "joint_quorum c (acked_upto l i) \<and> (b \<longrightarrow> two_groups (jc_incoming c) l i)"
proof -
  obtain i1 b1 where inc: "majority_committed_index (jc_incoming c) True l = (i1, b1)"
    by (cases "majority_committed_index (jc_incoming c) True l")
  obtain i2 b2 where out: "majority_committed_index (jc_outgoing c) True l = (i2, b2)"
    by (cases "majority_committed_index (jc_outgoing c) True l")
  from assms(3) inc out have i: "i = min i1 i2" and b: "b \<longleftrightarrow> b1 \<and> b2"
    by (auto simp: joint_committed_index_def)
  have "i \<le> fst (majority_committed_index (jc_incoming c) False l)"
    using majority_group_commit [OF inc assms(2)] i by (auto simp: min_le_iff_disj)
  moreover have "i \<le> fst (majority_committed_index (jc_outgoing c) False l)"
  proof (cases "jc_outgoing c = []")
    case False
    then show ?thesis using majority_group_commit [OF out] i by (auto simp: min_le_iff_disj)
  qed (simp add: majority_committed_index_def)
  moreover have "two_groups (jc_incoming c) l i" if b
    using majority_group_commit [OF inc assms(2)] that b i acked_upto_mono [of i i1 l]
    unfolding two_groups_def by fastforce
  ultimately show ?thesis
    using assms(1) by (simp add: joint_quorum_def wf_joint_def majority_committed_index_quorum)
qed

theorem group_commit_safe_witness:
  "joint_quorum demo_joint (acked_upto demo_acked 7) \<and> two_groups (jc_incoming demo_joint) demo_acked 7"
proof -
  have "joint_committed_index demo_joint True demo_acked = (7, True)" by code_simp
  then show ?thesis
    using group_commit_safe [OF wf_demo_joint] by (simp add: demo_joint_def)
qed

section \<open>Votes\<close>

lemma count_votes:
  "count_votes check vs y m =
    (y + length (filter (\<lambda>v. check v = Some True) vs), m + length (filter (\<lambda>v. check v = None) vs))"
  by (induction vs arbitrary: y m) (auto split: option.split bool.split)

lemma filter_or:
  "(\<And>x. \<not> (P x \<and> Q x)) \<Longrightarrow> length (filter P xs) + length (filter Q xs) = length (filter (\<lambda>x. P x \<or> Q x) xs)"
  by (induction xs) auto

lemma majority_vote_result:
  assumes "distinct voters"
  shows "majority_vote_result voters check =
    (if is_quorum voters {v. check v = Some True} then VoteWon
     else if is_quorum voters {v. check v \<noteq> Some False} then VotePending else VoteLost)"
proof -
  have "check v \<noteq> Some False \<longleftrightarrow> check v = Some True \<or> check v = None" for v
    by (cases "check v") auto
  then have "length (filter (\<lambda>v. check v = Some True) voters) + length (filter (\<lambda>v. check v = None) voters) =
    length (filter (\<lambda>v. check v \<noteq> Some False) voters)"
    by (subst filter_or) auto
  with assms show ?thesis
    by (simp add: majority_vote_result_def count_votes is_quorum_majority length_filter_card)
qed

definition extends :: "(u64 \<Rightarrow> bool option) \<Rightarrow> (u64 \<Rightarrow> bool option) \<Rightarrow> bool" where
  "extends check' check \<longleftrightarrow> (\<forall>v. check v \<noteq> None \<longrightarrow> check' v = check v)"

lemma extends_refl [simp]: "extends check check"
  by (simp add: extends_def)

lemma extends_granted:
  assumes "extends check' check"
  shows "{v. check v = Some True} \<subseteq> {v. check' v = Some True}"
    and "{v. check' v = Some True} \<subseteq> {v. check v \<noteq> Some False}"
  using assms by (auto simp: extends_def)

lemma joint_quorum_mono: "joint_quorum c A \<Longrightarrow> A \<subseteq> B \<Longrightarrow> joint_quorum c B"
  using is_quorum_mono by (auto simp: joint_quorum_def)

lemma joint_vote_result_won:
  "wf_joint c \<Longrightarrow> joint_vote_result c check = VoteWon \<longleftrightarrow> joint_quorum c {v. check v = Some True}"
  by (simp add: joint_vote_result_def joint_quorum_def wf_joint_def majority_vote_result
      split: vote_result.split)

lemma joint_vote_result_lost:
  "wf_joint c \<Longrightarrow> joint_vote_result c check = VoteLost \<longleftrightarrow> \<not> joint_quorum c {v. check v \<noteq> Some False}"
proof -
  have "is_quorum vs {v. check v \<noteq> Some False}" if "is_quorum vs {v. check v = Some True}" for vs
    using that by (rule is_quorum_mono) auto
  then show "wf_joint c \<Longrightarrow> ?thesis"
    by (auto simp: joint_vote_result_def joint_quorum_def wf_joint_def majority_vote_result
        split: vote_result.split if_splits)
qed

text \<open>
  C21. The result of a vote over a joint configuration is exactly what is decided. It is won when the voters that
  have granted are more than half of each half of the configuration that is not empty in every way in which the missing
  votes may still arrive, it is lost when they are in none, and it is pending otherwise.
\<close>

theorem vote_result_decided:
  assumes "wf_joint c"
  shows "joint_vote_result c check =
    (if \<forall>check'. extends check' check \<longrightarrow> joint_quorum c {v. check' v = Some True} then VoteWon
     else if \<forall>check'. extends check' check \<longrightarrow> \<not> joint_quorum c {v. check' v = Some True} then VoteLost
     else VotePending)"
proof -
  let ?all = "\<lambda>v. case check v of None \<Rightarrow> Some True | r \<Rightarrow> r"
  have all: "{v. ?all v = Some True} = {v. check v \<noteq> Some False}" "extends ?all check"
    by (auto simp: extends_def split: option.splits)
  have "(\<forall>check'. extends check' check \<longrightarrow> joint_quorum c {v. check' v = Some True}) \<longleftrightarrow>
      joint_quorum c {v. check v = Some True}"
    using joint_quorum_mono [OF _ extends_granted(1)] extends_refl by blast
  moreover have "(\<forall>check'. extends check' check \<longrightarrow> \<not> joint_quorum c {v. check' v = Some True}) \<longleftrightarrow>
      \<not> joint_quorum c {v. check v \<noteq> Some False}"
    using joint_quorum_mono [OF _ extends_granted(2)] all by metis
  ultimately show ?thesis
    using joint_vote_result_won [OF assms, of check] joint_vote_result_lost [OF assms, of check]
    by (cases "joint_vote_result c check") auto
qed

definition demo_votes :: "u64 \<Rightarrow> bool option" where
  "demo_votes v = (if v = 1 \<or> v = 3 then Some True else if v = 2 then Some False else None)"

theorem vote_result_decided_witness:
  "joint_vote_result demo_joint demo_votes = VotePending \<and>
    (\<exists>check'. extends check' demo_votes \<and> joint_quorum demo_joint {v. check' v = Some True})"
proof -
  have "joint_vote_result demo_joint demo_votes = VotePending" by code_simp
  then show ?thesis
    using vote_result_decided [OF wf_demo_joint, of demo_votes] by (auto split: if_splits)
qed

end
