(* ===== verification/Inflights.thy ===== *)
theory Inflights
  imports Prelude
begin

text \<open>
  Flow control of the raft library (\<open>third/raft-rs/src/tracker\<close>): the ring buffer of messages in
  flight to a follower and the progress of a follower, which pauses replication when the buffer is full.
  The buffer is shown to be a bounded queue. The allocation of its vector is left out: the code
  tests \<open>capacity\<close> only to allocate an empty vector where an empty vector is already. A count of
  messages is a natural number.
\<close>

section \<open>Errors of the raft library\<close>

datatype raft_error =
    RaftPanic string
  | StoreCompacted
  | StoreUnavailable
  | LogTemporarilyUnavailable
  | SnapshotOutOfDate
  | SnapshotTemporarilyUnavailable
  | StoreOther string
  | StepLocalMsg
  | StepPeerNotFound
  | ProposalDropped
  | ConfChangeError string
  | RequestSnapshotDropped

type_synonym 'a raft_result = "raft_error + 'a"

section \<open>The buffer of messages in flight\<close>

record inflights =
  if_start :: nat
  if_count :: nat
  if_buffer :: "u64 list"
  if_cap :: nat
  if_incoming_cap :: "nat option"

definition inflights_new :: "nat \<Rightarrow> inflights" where
  "inflights_new cap = \<lparr>if_start = 0, if_count = 0, if_buffer = [], if_cap = cap, if_incoming_cap = None\<rparr>"

definition set_cap :: "inflights \<Rightarrow> nat \<Rightarrow> inflights" where
  "set_cap f incoming_cap =
     (if if_cap f = incoming_cap then f\<lparr>if_incoming_cap := None\<rparr>
      else if if_cap f < incoming_cap
      then (if if_start f + if_count f \<le> if_cap f then f
            else f\<lparr>if_buffer := drop (if_start f) (if_buffer f) @
                     take (if_count f - (if_cap f - if_start f)) (if_buffer f),
                   if_start := 0\<rparr>)\<lparr>if_cap := incoming_cap, if_incoming_cap := None\<rparr>
      else if if_count f = 0
      then f\<lparr>if_cap := incoming_cap, if_incoming_cap := None, if_start := 0, if_buffer := []\<rparr>
      else f\<lparr>if_incoming_cap := Some incoming_cap\<rparr>)"

definition inflights_full :: "inflights \<Rightarrow> bool" where
  "inflights_full f \<longleftrightarrow> if_count f = if_cap f \<or>
     (case if_incoming_cap f of None \<Rightarrow> False | Some cap \<Rightarrow> cap \<le> if_count f)"

definition inflights_add :: "inflights \<Rightarrow> u64 \<Rightarrow> inflights raft_result" where
  "inflights_add f inflight =
     (if inflights_full f then Inl (RaftPanic ''cannot add into a full inflights'')
      else let next = (let n = if_start f + if_count f in if if_cap f \<le> n then n - if_cap f else n)
           in if length (if_buffer f) < next then Inl (RaftPanic ''assertion failed'')
              else Inr (f\<lparr>if_buffer := (if next = length (if_buffer f) then if_buffer f @ [inflight]
                                        else (if_buffer f)[next := inflight]),
                         if_count := if_count f + 1\<rparr>))"

text \<open>The loop of \<open>free_to\<close>: how many messages are freed, and the index after them.\<close>

fun free_loop :: "inflights \<Rightarrow> u64 \<Rightarrow> nat \<Rightarrow> nat \<Rightarrow> nat \<Rightarrow> (nat \<times> nat) raft_result" where
  "free_loop f to i idx 0 = Inr (i, idx)"
| "free_loop f to i idx (Suc left) =
     (if length (if_buffer f) \<le> idx then Inl (RaftPanic ''index out of bounds'')
      else if to < if_buffer f ! idx then Inr (i, idx)
      else free_loop f to (i + 1) (if if_cap f \<le> idx + 1 then idx + 1 - if_cap f else idx + 1) left)"

definition free_to :: "inflights \<Rightarrow> u64 \<Rightarrow> inflights raft_result" where
  "free_to f to =
     (if if_count f = 0 then Inr f
      else if length (if_buffer f) \<le> if_start f then Inl (RaftPanic ''index out of bounds'')
      else if to < if_buffer f ! if_start f then Inr f
      else rbind (free_loop f to 0 (if_start f) (if_count f)) (\<lambda>(i, idx).
           let f = f\<lparr>if_count := if_count f - i, if_start := idx\<rparr>
           in Inr (case if_incoming_cap f of
                     Some incoming_cap \<Rightarrow>
                       if if_count f = 0
                       then f\<lparr>if_incoming_cap := None, if_start := 0, if_cap := incoming_cap, if_buffer := []\<rparr>
                       else f
                   | None \<Rightarrow> f)))"

definition free_first_one :: "inflights \<Rightarrow> inflights raft_result" where
  "free_first_one f =
     (if 0 < if_count f
      then if length (if_buffer f) \<le> if_start f then Inl (RaftPanic ''index out of bounds'')
           else free_to f (if_buffer f ! if_start f)
      else Inr f)"

definition inflights_reset :: "inflights \<Rightarrow> inflights" where
  "inflights_reset f =
     f\<lparr>if_count := 0, if_start := 0, if_buffer := [],
       if_cap := (case if_incoming_cap f of None \<Rightarrow> if_cap f | Some c \<Rightarrow> c), if_incoming_cap := None\<rparr>"

section \<open>A bounded queue\<close>

definition slot :: "inflights \<Rightarrow> nat \<Rightarrow> nat" where
  "slot f i = (if if_cap f \<le> if_start f + i then if_start f + i - if_cap f else if_start f + i)"

definition queue_of :: "inflights \<Rightarrow> u64 list" where
  "queue_of f = map (\<lambda>i. if_buffer f ! slot f i) [0..<if_count f]"

definition limit_of :: "inflights \<Rightarrow> nat" where
  "limit_of f = (case if_incoming_cap f of None \<Rightarrow> if_cap f | Some c \<Rightarrow> c)"

definition wf_inflights :: "inflights \<Rightarrow> bool" where
  "wf_inflights f \<longleftrightarrow>
     if_count f \<le> if_cap f \<and> length (if_buffer f) \<le> if_cap f \<and>
     (if_start f < if_cap f \<or> if_start f = 0) \<and>
     (length (if_buffer f) = if_cap f \<or> if_start f + if_count f \<le> length (if_buffer f)) \<and>
     (\<forall>c. if_incoming_cap f = Some c \<longrightarrow> c < if_cap f)"

lemma length_queue_of [simp]: "length (queue_of f) = if_count f"
  by (simp add: queue_of_def)

lemma queue_of_empty [simp]: "if_count f = 0 \<Longrightarrow> queue_of f = []"
  by (simp add: queue_of_def)

lemma slot_update [simp]: "slot (f\<lparr>if_buffer := b, if_count := n\<rparr>) i = slot f i"
  by (simp add: slot_def)

lemma queue_of_nth: "i < if_count f \<Longrightarrow> queue_of f ! i = if_buffer f ! slot f i"
  by (simp add: queue_of_def)

lemma wf_new [simp]: "wf_inflights (inflights_new cap)" "queue_of (inflights_new cap) = []"
  "limit_of (inflights_new cap) = cap"
  by (simp_all add: wf_inflights_def inflights_new_def queue_of_def limit_of_def)

lemma wf_reset: "wf_inflights (inflights_reset f)" "queue_of (inflights_reset f) = []"
  "limit_of (inflights_reset f) = limit_of f"
  by (simp_all add: wf_inflights_def inflights_reset_def queue_of_def limit_of_def split: option.split)

lemma full_iff: "wf_inflights f \<Longrightarrow> inflights_full f \<longleftrightarrow> limit_of f \<le> length (queue_of f)"
  by (auto simp: inflights_full_def limit_of_def wf_inflights_def split: option.split)

lemma slot_less: "wf_inflights f \<Longrightarrow> i < if_count f \<Longrightarrow> slot f i < length (if_buffer f)"
  by (auto simp: slot_def wf_inflights_def)

lemma add_queue:
  assumes "wf_inflights f" "\<not> inflights_full f"
  shows "\<exists>f'. inflights_add f x = Inr f' \<and> wf_inflights f' \<and> queue_of f' = queue_of f @ [x] \<and>
    limit_of f' = limit_of f"
proof -
  let ?n = "slot f (if_count f)"
  let ?b = "if ?n = length (if_buffer f) then if_buffer f @ [x] else (if_buffer f)[?n := x]"
  let ?f = "f\<lparr>if_buffer := ?b, if_count := if_count f + 1\<rparr>"
  have room: "if_count f < if_cap f"
    using assms by (auto simp: inflights_full_def wf_inflights_def)
  then have n: "?n \<le> length (if_buffer f)" "?n < if_cap f"
    using assms(1) by (auto simp: slot_def wf_inflights_def)
  then have "inflights_add f x = Inr ?f"
    using assms(2) by (simp add: inflights_add_def Let_def slot_def)
  moreover have "wf_inflights ?f"
    using assms(1) room n by (auto simp: wf_inflights_def slot_def split: if_splits)
  moreover have "queue_of ?f = queue_of f @ [x]"
  proof (rule nth_equalityI)
    fix i assume i: "i < length (queue_of ?f)"
    show "queue_of ?f ! i = (queue_of f @ [x]) ! i"
    proof (cases "i < if_count f")
      case True
      then have "slot f i \<noteq> ?n" using room by (auto simp: slot_def)
      then show ?thesis
        using True slot_less [OF assms(1) True]
        by (simp add: queue_of_nth nth_append)
    next
      case False
      with i have "i = if_count f" by simp
      then show ?thesis using n by (auto simp: queue_of_nth nth_append)
    qed
  qed simp
  moreover have "limit_of ?f = limit_of f" by (cases "if_incoming_cap f") (simp_all add: limit_of_def)
  ultimately show ?thesis by blast
qed

text \<open>The loop frees the longest prefix of messages that are not larger than \<open>to\<close>.\<close>

lemma slot_Suc:
  "wf_inflights f \<Longrightarrow> i < if_count f \<Longrightarrow>
    slot f (Suc i) = (if if_cap f \<le> slot f i + 1 then slot f i + 1 - if_cap f else slot f i + 1)"
  by (auto simp: slot_def wf_inflights_def)

lemma free_loop:
  assumes "wf_inflights f" "i + left = if_count f"
  shows "free_loop f to i (slot f i) left =
    Inr (i + length (takeWhile (\<lambda>x. x \<le> to) (drop i (queue_of f))),
         slot f (i + length (takeWhile (\<lambda>x. x \<le> to) (drop i (queue_of f)))))"
  using assms(2)
proof (induction left arbitrary: i)
  case (Suc left)
  then have i: "i < if_count f" by simp
  have drop: "drop i (queue_of f) = if_buffer f ! slot f i # drop (Suc i) (queue_of f)"
    using i by (subst Cons_nth_drop_Suc [symmetric]) (simp_all add: queue_of_nth)
  show ?case
  proof (cases "to < if_buffer f ! slot f i")
    case True
    then have "\<not> if_buffer f ! slot f i \<le> to" by simp
    with True slot_less [OF assms(1) i] drop show ?thesis by simp
  next
    case False
    with slot_less [OF assms(1) i] drop Suc.IH [of "Suc i"] Suc.prems slot_Suc [OF assms(1) i]
    show ?thesis by simp
  qed
qed simp

lemma wf_advance:
  assumes "wf_inflights f" "k \<le> if_count f"
  shows "wf_inflights (f\<lparr>if_count := if_count f - k, if_start := slot f k\<rparr>)"
proof (cases "length (if_buffer f) = if_cap f")
  case True
  then show ?thesis
    using assms by (simp add: wf_inflights_def slot_def) linarith
next
  case False
  then have "if_start f + if_count f < if_cap f"
    using assms(1) by (simp add: wf_inflights_def)
  then show ?thesis
    using assms False by (auto simp: wf_inflights_def slot_def)
qed

lemma slot_advance:
  assumes "wf_inflights f" "k \<le> if_count f" "i < if_count f - k"
  shows "slot (f\<lparr>if_count := if_count f - k, if_start := slot f k\<rparr>) i = slot f (k + i)"
proof -
  have "if_start f < if_cap f \<or> if_start f = 0" "if_count f \<le> if_cap f"
    using assms(1) by (simp_all add: wf_inflights_def)
  then show ?thesis
    using assms(2,3) by (auto simp: slot_def)
qed

lemma free_to_queue:
  assumes "wf_inflights f"
  shows "\<exists>f'. free_to f to = Inr f' \<and> wf_inflights f' \<and>
    queue_of f' = dropWhile (\<lambda>x. x \<le> to) (queue_of f) \<and> limit_of f' = limit_of f"
proof (cases "if_count f = 0")
  case True
  then show ?thesis using assms by (simp add: free_to_def queue_of_def)
next
  case False
  then have zero: "slot f 0 = if_start f" "if_start f < length (if_buffer f)" "0 < if_cap f"
    using assms by (auto simp: slot_def wf_inflights_def)
  obtain xs where hd: "queue_of f = if_buffer f ! if_start f # xs"
  proof (cases "queue_of f")
    case Nil
    with False length_queue_of [of f] show ?thesis by simp
  next
    case (Cons x xs)
    with False zero queue_of_nth [of 0 f] that show ?thesis by simp
  qed
  show ?thesis
  proof (cases "to < if_buffer f ! if_start f")
    case True
    have "dropWhile (\<lambda>x. x \<le> to) (queue_of f) = queue_of f"
      using True by (simp add: hd not_le)
    with False zero True assms show ?thesis by (simp add: free_to_def)
  next
    case keep: False
    let ?k = "length (takeWhile (\<lambda>x. x \<le> to) (queue_of f))"
    let ?f = "f\<lparr>if_count := if_count f - ?k, if_start := slot f ?k\<rparr>"
    have k: "?k \<le> if_count f"
      using length_takeWhile_le [of _ "queue_of f"] by simp
    have loop: "free_loop f to 0 (if_start f) (if_count f) = Inr (?k, slot f ?k)"
      using free_loop [OF assms, of 0 "if_count f" to] zero by simp
    have wf: "wf_inflights ?f"
      using assms k by (rule wf_advance)
    have slot: "slot ?f i = slot f (?k + i)" if "i < if_count f - ?k" for i
      using assms k that by (rule slot_advance)
    have queue: "queue_of ?f = dropWhile (\<lambda>x. x \<le> to) (queue_of f)"
      unfolding dropWhile_eq_drop
      by (rule nth_equalityI) (use slot k in \<open>auto simp: queue_of_nth\<close>)
    show ?thesis
    proof (cases "if_incoming_cap f")
      case None
      with False keep zero loop wf queue show ?thesis
        by (simp add: free_to_def Let_def limit_of_def)
    next
      case (Some c)
      show ?thesis
      proof (cases "?k = if_count f")
        case True
        then have "length (queue_of ?f) = 0" by simp
        then have "dropWhile (\<lambda>x. x \<le> to) (queue_of f) = []" by (simp only: queue) simp
        moreover have "free_to f to = Inr (f\<lparr>if_count := 0, if_incoming_cap := None, if_start := 0,
            if_cap := c, if_buffer := []\<rparr>)"
          using True Some False keep zero(2) loop by (simp add: free_to_def)
        ultimately show ?thesis
          using Some by (simp add: limit_of_def wf_inflights_def del: dropWhile_eq_Nil_conv)
      next
        case False
        with Some k keep zero loop wf queue \<open>if_count f \<noteq> 0\<close> show ?thesis
          by (simp add: free_to_def Let_def limit_of_def)
      qed
    qed
  qed
qed

lemma set_cap_queue:
  assumes "wf_inflights f"
  shows "wf_inflights (set_cap f cap)" "queue_of (set_cap f cap) = queue_of f" "limit_of (set_cap f cap) = cap"
proof -
  consider (same) "if_cap f = cap" | (straight) "if_cap f < cap" "if_start f + if_count f \<le> if_cap f"
    | (wrapped) "if_cap f < cap" "if_cap f < if_start f + if_count f"
    | (empty) "cap < if_cap f" "if_count f = 0" | (later) "cap < if_cap f" "if_count f \<noteq> 0"
    by linarith
  then have "wf_inflights (set_cap f cap) \<and> queue_of (set_cap f cap) = queue_of f \<and> limit_of (set_cap f cap) = cap"
  proof cases
    case same
    then show ?thesis
      using assms by (simp add: set_cap_def limit_of_def wf_inflights_def queue_of_def slot_def)
  next
    case straight
    have "slot (set_cap f cap) i = slot f i" if "i < if_count f" for i
      using straight that by (simp add: set_cap_def slot_def)
    then have "queue_of (set_cap f cap) = queue_of f"
      using straight by (auto simp: queue_of_def set_cap_def)
    moreover have "if_start f + if_count f \<le> length (if_buffer f)"
      using assms straight by (auto simp: wf_inflights_def)
    ultimately show ?thesis
      using straight assms by (auto simp: set_cap_def limit_of_def wf_inflights_def)
  next
    case wrapped
    then have len: "length (if_buffer f) = if_cap f" "if_start f < if_cap f" "if_count f \<le> if_cap f"
      using assms by (auto simp: wf_inflights_def)
    let ?b = "drop (if_start f) (if_buffer f) @ take (if_count f - (if_cap f - if_start f)) (if_buffer f)"
    have set: "set_cap f cap = f\<lparr>if_buffer := ?b, if_start := 0, if_cap := cap, if_incoming_cap := None\<rparr>"
      using wrapped by (simp add: set_cap_def)
    have length: "length ?b = if_count f" using len wrapped by simp
    have "?b ! i = if_buffer f ! slot f i" if "i < if_count f" for i
      using that len wrapped by (auto simp: nth_append slot_def intro!: arg_cong [of _ _ "nth (if_buffer f)"])
    then have "queue_of (set_cap f cap) = queue_of f"
      using wrapped len by (auto simp: queue_of_def set slot_def)
    then show ?thesis
      using wrapped len length by (simp add: set wf_inflights_def limit_of_def)
  next
    case empty
    then show ?thesis
      by (simp add: set_cap_def limit_of_def wf_inflights_def queue_of_def)
  next
    case later
    then show ?thesis
      using assms by (simp add: set_cap_def limit_of_def wf_inflights_def queue_of_def slot_def)
  qed
  then show "wf_inflights (set_cap f cap)" "queue_of (set_cap f cap) = queue_of f" "limit_of (set_cap f cap) = cap"
    by simp_all
qed

text \<open>
  C22. The ring buffer is a bounded queue of the messages in flight. It is full when it holds as many
  messages as its limit; adding to a buffer that is not full appends the message and does not panic;
  freeing removes the messages at the front up to the acknowledged index; changing the capacity keeps
  the messages and sets the limit, and a reset empties it. Every operation keeps the buffer well-formed.
\<close>

theorem inflights_bounded_queue:
  assumes "wf_inflights f"
  shows "(inflights_full f \<longleftrightarrow> limit_of f \<le> length (queue_of f)) \<and>
    (\<not> inflights_full f \<longrightarrow> (\<exists>f'. inflights_add f x = Inr f' \<and> wf_inflights f' \<and>
       queue_of f' = queue_of f @ [x] \<and> limit_of f' = limit_of f)) \<and>
    (\<exists>f'. free_to f to = Inr f' \<and> wf_inflights f' \<and>
       queue_of f' = dropWhile (\<lambda>x. x \<le> to) (queue_of f) \<and> limit_of f' = limit_of f) \<and>
    wf_inflights (set_cap f cap) \<and> queue_of (set_cap f cap) = queue_of f \<and> limit_of (set_cap f cap) = cap \<and>
    wf_inflights (inflights_reset f) \<and> queue_of (inflights_reset f) = [] \<and>
    limit_of (inflights_reset f) = limit_of f"
  using full_iff [OF assms] add_queue [OF assms, of x] free_to_queue [OF assms, of to]
    set_cap_queue [OF assms, of cap] wf_reset [of f] by blast

theorem inflights_bounded_queue_witness:
  "\<exists>f. f = \<lparr>if_start = 2, if_count = 2, if_buffer = [7, 5, 6], if_cap = 3, if_incoming_cap = None\<rparr> \<and>
    queue_of f = [6, 7] \<and> \<not> inflights_full f \<and>
    (\<exists>f'. inflights_add f 8 = Inr f' \<and> queue_of f' = [6, 7, 8]) \<and>
    (\<exists>f'. free_to f 6 = Inr f' \<and> queue_of f' = [7]) \<and>
    queue_of (set_cap f 5) = [6, 7] \<and> limit_of (set_cap f 5) = 5"
proof -
  let ?f = "\<lparr>if_start = 2, if_count = 2, if_buffer = [7, 5, 6], if_cap = 3, if_incoming_cap = None\<rparr> :: inflights"
  have "wf_inflights ?f" by (simp add: wf_inflights_def)
  moreover have "queue_of ?f = [6, 7]" "\<not> inflights_full ?f"
    by (simp_all add: queue_of_def slot_def inflights_full_def upt_rec)
  ultimately show ?thesis
    using inflights_bounded_queue [of ?f 8 6 5] by auto
qed

section \<open>The progress of a follower\<close>

datatype progress_state = PsProbe | PsReplicate | PsSnapshot

record progress =
  pr_matched :: u64
  pr_next_idx :: u64
  pr_state :: progress_state
  pr_paused :: bool
  pr_pending_snapshot :: u64
  pr_pending_request_snapshot :: u64
  pr_recent_active :: bool
  pr_might_lost :: bool
  pr_ins :: inflights
  pr_commit_group_id :: u64
  pr_committed_index :: u64

abbreviation (input) INVALID_INDEX :: u64 where
  "INVALID_INDEX \<equiv> 0"

definition progress_new :: "u64 \<Rightarrow> nat \<Rightarrow> progress" where
  "progress_new next_idx ins_size =
     \<lparr>pr_matched = 0, pr_next_idx = next_idx, pr_state = PsProbe, pr_paused = False,
      pr_pending_snapshot = 0, pr_pending_request_snapshot = 0, pr_recent_active = False,
      pr_might_lost = False, pr_ins = inflights_new ins_size, pr_commit_group_id = 0,
      pr_committed_index = 0\<rparr>"

definition reset_state :: "progress \<Rightarrow> progress_state \<Rightarrow> progress" where
  "reset_state p state =
     p\<lparr>pr_paused := False, pr_pending_snapshot := 0, pr_state := state, pr_ins := inflights_reset (pr_ins p)\<rparr>"

definition progress_reset :: "progress \<Rightarrow> u64 \<Rightarrow> progress" where
  "progress_reset p next_idx =
     p\<lparr>pr_matched := 0, pr_next_idx := next_idx, pr_state := PsProbe, pr_paused := False,
       pr_pending_snapshot := 0, pr_pending_request_snapshot := INVALID_INDEX, pr_recent_active := False,
       pr_might_lost := False, pr_ins := inflights_reset (pr_ins p)\<rparr>"

definition become_probe :: "progress \<Rightarrow> progress" where
  "become_probe p =
     (if pr_state p = PsSnapshot
      then (reset_state p PsProbe)\<lparr>pr_next_idx := max (pr_matched p + 1) (pr_pending_snapshot p + 1)\<rparr>
      else (reset_state p PsProbe)\<lparr>pr_next_idx := pr_matched p + 1\<rparr>)"

definition become_replicate :: "progress \<Rightarrow> progress" where
  "become_replicate p = (reset_state p PsReplicate)\<lparr>pr_next_idx := pr_matched p + 1\<rparr>"

definition become_snapshot :: "progress \<Rightarrow> u64 \<Rightarrow> progress" where
  "become_snapshot p snapshot_idx = (reset_state p PsSnapshot)\<lparr>pr_pending_snapshot := snapshot_idx\<rparr>"

definition snapshot_failure :: "progress \<Rightarrow> progress" where
  "snapshot_failure p = p\<lparr>pr_pending_snapshot := 0\<rparr>"

definition is_snapshot_caught_up :: "progress \<Rightarrow> bool" where
  "is_snapshot_caught_up p \<longleftrightarrow> pr_state p = PsSnapshot \<and> pr_pending_snapshot p \<le> pr_matched p"

definition progress_resume :: "progress \<Rightarrow> progress" where
  "progress_resume p = p\<lparr>pr_paused := False\<rparr>"

definition progress_pause :: "progress \<Rightarrow> progress" where
  "progress_pause p = p\<lparr>pr_paused := True\<rparr>"

definition maybe_update :: "progress \<Rightarrow> u64 \<Rightarrow> progress \<times> bool" where
  "maybe_update p n =
     (let need_update = pr_matched p < n;
          p = (if need_update then progress_resume (p\<lparr>pr_matched := n\<rparr>) else p);
          p = (if pr_next_idx p < n + 1 then p\<lparr>pr_next_idx := n + 1\<rparr> else p)
      in (p, need_update))"

definition update_committed :: "progress \<Rightarrow> u64 \<Rightarrow> progress" where
  "update_committed p committed_index =
     (if pr_committed_index p < committed_index then p\<lparr>pr_committed_index := committed_index\<rparr> else p)"

definition optimistic_update :: "progress \<Rightarrow> u64 \<Rightarrow> progress" where
  "optimistic_update p n = p\<lparr>pr_next_idx := n + 1\<rparr>"

definition maybe_decr_to :: "progress \<Rightarrow> u64 \<Rightarrow> u64 \<Rightarrow> u64 \<Rightarrow> progress \<times> bool" where
  "maybe_decr_to p rejected match_hint request_snapshot =
     (if pr_state p = PsReplicate
      then if rejected < pr_matched p \<or> rejected = pr_matched p \<and> request_snapshot = INVALID_INDEX
           then (p, False)
           else if request_snapshot = INVALID_INDEX
           then (p\<lparr>pr_next_idx := pr_matched p + 1\<rparr>, True)
           else (p\<lparr>pr_pending_request_snapshot := request_snapshot\<rparr>, True)
      else if (pr_next_idx p = 0 \<or> pr_next_idx p - 1 \<noteq> rejected) \<and> request_snapshot = INVALID_INDEX
      then (p, False)
      else let p = (if request_snapshot = INVALID_INDEX
                    then let next_idx = min rejected (match_hint + 1)
                         in p\<lparr>pr_next_idx := (if next_idx < 1 then 1 else next_idx)\<rparr>
                    else if pr_pending_request_snapshot p = INVALID_INDEX
                    then p\<lparr>pr_pending_request_snapshot := request_snapshot\<rparr>
                    else p)
           in (progress_resume p, True))"

definition is_paused :: "progress \<Rightarrow> bool" where
  "is_paused p =
     (case pr_state p of
        PsProbe \<Rightarrow> pr_paused p
      | PsReplicate \<Rightarrow> inflights_full (pr_ins p)
      | PsSnapshot \<Rightarrow> True)"

definition update_state :: "progress \<Rightarrow> u64 \<Rightarrow> progress raft_result" where
  "update_state p l =
     (case pr_state p of
        PsReplicate \<Rightarrow>
          rbind (inflights_add (pr_ins p) l) (\<lambda>ins. Inr ((optimistic_update p l)\<lparr>pr_ins := ins\<rparr>))
      | PsProbe \<Rightarrow> Inr (progress_pause p)
      | PsSnapshot \<Rightarrow> Inl (RaftPanic ''updating progress state in unhandled state''))"

end
