(* ===== verification/Raft_Conf.thy ===== *)
theory Raft_Conf
  imports Quorum Inflights
begin

text \<open>
  Configurations of the raft library and their changes (\<open>third/raft-rs/src/tracker.rs\<close> and
  \<open>confchange\<close>): the tracker with its voters and learners, the changer that enters and leaves joint
  configurations or makes simple changes, the invariant it checks, and the restoration of a
  configuration from a \<open>ConfState\<close>. The progress map is a partial function; iterations over it are
  written as the effect on every entry.
\<close>

section \<open>Configurations\<close>

record configuration =
  cf_voters :: joint_config
  cf_learners :: hash_set
  cf_learners_next :: hash_set
  cf_auto_leave :: bool

record conf_state =
  cs_voters :: "u64 list"
  cs_learners :: "u64 list"
  cs_voters_outgoing :: "u64 list"
  cs_learners_next :: "u64 list"
  cs_auto_leave :: bool

definition conf_new :: "u64 list \<Rightarrow> u64 list \<Rightarrow> configuration" where
  "conf_new voters learners =
     \<lparr>cf_voters = joint_config_new (remdups voters), cf_learners = remdups learners,
      cf_learners_next = [], cf_auto_leave = False\<rparr>"

definition to_conf_state :: "configuration \<Rightarrow> conf_state" where
  "to_conf_state cfg =
     \<lparr>cs_voters = jc_incoming (cf_voters cfg), cs_learners = cf_learners cfg,
      cs_voters_outgoing = jc_outgoing (cf_voters cfg), cs_learners_next = cf_learners_next cfg,
      cs_auto_leave = cf_auto_leave cfg\<rparr>"

definition conf_clear :: "configuration \<Rightarrow> configuration" where
  "conf_clear cfg =
     cfg\<lparr>cf_voters := joint_clear (cf_voters cfg), cf_learners := [], cf_learners_next := [],
         cf_auto_leave := False\<rparr>"

abbreviation cf_incoming :: "configuration \<Rightarrow> hash_set" where
  "cf_incoming cfg \<equiv> jc_incoming (cf_voters cfg)"

abbreviation cf_outgoing :: "configuration \<Rightarrow> hash_set" where
  "cf_outgoing cfg \<equiv> jc_outgoing (cf_voters cfg)"

definition set_incoming :: "hash_set \<Rightarrow> configuration \<Rightarrow> configuration" where
  "set_incoming s cfg = cfg\<lparr>cf_voters := (cf_voters cfg)\<lparr>jc_incoming := s\<rparr>\<rparr>"

definition set_outgoing :: "hash_set \<Rightarrow> configuration \<Rightarrow> configuration" where
  "set_outgoing s cfg = cfg\<lparr>cf_voters := (cf_voters cfg)\<lparr>jc_outgoing := s\<rparr>\<rparr>"

definition joint :: "configuration \<Rightarrow> bool" where
  "joint cfg \<longleftrightarrow> cf_outgoing cfg \<noteq> []"

section \<open>The tracker\<close>

datatype map_change_type = MapAdd | MapRemove

type_synonym map_change = "(u64 \<times> map_change_type) list"

record progress_tracker =
  pt_progress :: "u64 \<rightharpoonup> progress"
  pt_conf :: configuration
  pt_votes :: "(u64 \<times> bool) list"
  pt_max_inflight :: nat
  pt_group_commit :: bool

definition tracker_new :: "nat \<Rightarrow> progress_tracker" where
  "tracker_new max_inflight =
     \<lparr>pt_progress = Map.empty, pt_conf = conf_new [] [], pt_votes = [], pt_max_inflight = max_inflight,
      pt_group_commit = False\<rparr>"

definition enable_group_commit :: "progress_tracker \<Rightarrow> bool \<Rightarrow> progress_tracker" where
  "enable_group_commit t enable = t\<lparr>pt_group_commit := enable\<rparr>"

definition tracker_clear :: "progress_tracker \<Rightarrow> progress_tracker" where
  "tracker_clear t = t\<lparr>pt_progress := Map.empty, pt_conf := conf_clear (pt_conf t), pt_votes := []\<rparr>"

definition acked_index :: "(u64 \<rightharpoonup> progress) \<Rightarrow> acked_indexer" where
  "acked_index m voter_id =
     map_option (\<lambda>p. \<lparr>ix_index = pr_matched p, ix_group_id = pr_commit_group_id p\<rparr>) (m voter_id)"

definition maximal_committed_index :: "progress_tracker \<Rightarrow> u64 \<times> bool" where
  "maximal_committed_index t =
     joint_committed_index (cf_voters (pt_conf t)) (pt_group_commit t) (acked_index (pt_progress t))"

definition reset_votes :: "progress_tracker \<Rightarrow> progress_tracker" where
  "reset_votes t = t\<lparr>pt_votes := []\<rparr>"

definition record_vote :: "progress_tracker \<Rightarrow> u64 \<Rightarrow> bool \<Rightarrow> progress_tracker" where
  "record_vote t i vote =
     (if map_of (pt_votes t) i = None then t\<lparr>pt_votes := (i, vote) # pt_votes t\<rparr> else t)"

definition tracker_vote_result :: "progress_tracker \<Rightarrow> (u64 \<times> bool) list \<Rightarrow> vote_result" where
  "tracker_vote_result t votes = joint_vote_result (cf_voters (pt_conf t)) (map_of votes)"

fun tally_loop :: "joint_config \<Rightarrow> (u64 \<times> bool) list \<Rightarrow> nat \<Rightarrow> nat \<Rightarrow> nat \<times> nat" where
  "tally_loop c [] granted rejected = (granted, rejected)"
| "tally_loop c ((i, vote) # vs) granted rejected =
     (if \<not> joint_contains c i then tally_loop c vs granted rejected
      else if vote then tally_loop c vs (granted + 1) rejected
      else tally_loop c vs granted (rejected + 1))"

definition tally_votes :: "progress_tracker \<Rightarrow> nat \<times> nat \<times> vote_result" where
  "tally_votes t =
     (let (granted, rejected) = tally_loop (cf_voters (pt_conf t)) (pt_votes t) 0 0
      in (granted, rejected, tracker_vote_result t (pt_votes t)))"

definition has_quorum :: "progress_tracker \<Rightarrow> (u64 \<Rightarrow> bool) \<Rightarrow> bool" where
  "has_quorum t potential_quorum \<longleftrightarrow>
     joint_vote_result (cf_voters (pt_conf t)) (\<lambda>i. if potential_quorum i then Some True else None) = VoteWon"

definition sweep_active :: "u64 \<Rightarrow> u64 \<Rightarrow> progress \<Rightarrow> progress" where
  "sweep_active perspective_of i pr =
     (if i = perspective_of then pr\<lparr>pr_recent_active := True\<rparr>
      else if pr_recent_active pr then pr\<lparr>pr_recent_active := False\<rparr>
      else if \<not> pr_might_lost pr then pr\<lparr>pr_might_lost := True\<rparr>
      else pr)"

definition quorum_recently_active :: "progress_tracker \<Rightarrow> u64 \<Rightarrow> progress_tracker \<times> bool" where
  "quorum_recently_active t perspective_of =
     (t\<lparr>pt_progress := (\<lambda>i. map_option (sweep_active perspective_of i) (pt_progress t i))\<rparr>,
      has_quorum t (\<lambda>i. case pt_progress t i of
                          None \<Rightarrow> False
                        | Some pr \<Rightarrow> i = perspective_of \<or> pr_recent_active pr))"

fun apply_changes :: "nat \<Rightarrow> u64 \<Rightarrow> map_change \<Rightarrow> (u64 \<rightharpoonup> progress) \<Rightarrow> (u64 \<rightharpoonup> progress)" where
  "apply_changes max_inflight next_idx [] m = m"
| "apply_changes max_inflight next_idx ((i, ty) # cs) m =
     apply_changes max_inflight next_idx cs
       (case ty of
          MapAdd \<Rightarrow> m(i \<mapsto> (progress_new next_idx max_inflight)\<lparr>pr_recent_active := True\<rparr>)
        | MapRemove \<Rightarrow> m(i := None))"

definition apply_conf :: "progress_tracker \<Rightarrow> configuration \<Rightarrow> map_change \<Rightarrow> u64 \<Rightarrow> progress_tracker" where
  "apply_conf t conf changes next_idx =
     t\<lparr>pt_conf := conf, pt_progress := apply_changes (pt_max_inflight t) next_idx changes (pt_progress t)\<rparr>"

section \<open>The changer\<close>

datatype conf_change_type = AddNode | RemoveNode | AddLearnerNode

record conf_change_single =
  cc_change_type :: conf_change_type
  cc_node_id :: u64

text \<open>The changes made so far over the ids that have a progress, the latest change of an id first.\<close>

record incr_change_map =
  ic_changes :: map_change
  ic_base :: "u64 \<Rightarrow> bool"

definition incr_contains :: "incr_change_map \<Rightarrow> u64 \<Rightarrow> bool" where
  "incr_contains prs i =
     (case map_of (rev (ic_changes prs)) i of
        Some MapRemove \<Rightarrow> False
      | Some MapAdd \<Rightarrow> True
      | None \<Rightarrow> ic_base prs i)"

definition push_change :: "incr_change_map \<Rightarrow> u64 \<Rightarrow> map_change_type \<Rightarrow> incr_change_map" where
  "push_change prs i ty = prs\<lparr>ic_changes := ic_changes prs @ [(i, ty)]\<rparr>"

fun check_learners :: "configuration \<Rightarrow> incr_change_map \<Rightarrow> u64 list \<Rightarrow> unit raft_result" where
  "check_learners cfg prs [] = Inr ()"
| "check_learners cfg prs (i # is) =
     (if \<not> incr_contains prs i then Inl (ConfChangeError ''no progress for learner'')
      else if i \<in> set (cf_outgoing cfg) then Inl (ConfChangeError ''is in learners and outgoing voters'')
      else if i \<in> set (cf_incoming cfg) then Inl (ConfChangeError ''is in learners and incoming voters'')
      else check_learners cfg prs is)"

fun check_learners_next :: "configuration \<Rightarrow> incr_change_map \<Rightarrow> u64 list \<Rightarrow> unit raft_result" where
  "check_learners_next cfg prs [] = Inr ()"
| "check_learners_next cfg prs (i # is) =
     (if \<not> incr_contains prs i then Inl (ConfChangeError ''no progress for learner(next)'')
      else if i \<notin> set (cf_outgoing cfg) then Inl (ConfChangeError ''is in learners_next and outgoing voters'')
      else check_learners_next cfg prs is)"

definition check_invariants :: "configuration \<Rightarrow> incr_change_map \<Rightarrow> unit raft_result" where
  "check_invariants cfg prs =
     rbind (if \<exists>i\<in>set (joint_ids (cf_voters cfg)). \<not> incr_contains prs i
            then Inl (ConfChangeError ''no progress for voter'') else Inr ()) (\<lambda>_.
     rbind (check_learners cfg prs (cf_learners cfg)) (\<lambda>_.
     rbind (check_learners_next cfg prs (cf_learners_next cfg)) (\<lambda>_.
     if \<not> joint cfg
     then if cf_learners_next cfg \<noteq> []
          then Inl (ConfChangeError ''learners_next must be empty when not joint'')
          else if cf_auto_leave cfg
          then Inl (ConfChangeError ''auto_leave must be false when not joint'')
          else Inr ()
     else Inr ())))"

definition check_and_copy :: "progress_tracker \<Rightarrow> (configuration \<times> incr_change_map) raft_result" where
  "check_and_copy t =
     (let prs = \<lparr>ic_changes = [], ic_base = (\<lambda>i. pt_progress t i \<noteq> None)\<rparr>
      in rbind (check_invariants (pt_conf t) prs) (\<lambda>_. Inr (pt_conf t, prs)))"

type_synonym change_state = "configuration \<times> incr_change_map"

definition init_progress :: "change_state \<Rightarrow> u64 \<Rightarrow> bool \<Rightarrow> change_state" where
  "init_progress s i is_learner =
     (case s of (cfg, prs) \<Rightarrow>
        (if \<not> is_learner then set_incoming (List.insert i (cf_incoming cfg)) cfg
         else cfg\<lparr>cf_learners := List.insert i (cf_learners cfg)\<rparr>,
         push_change prs i MapAdd))"

definition make_voter :: "change_state \<Rightarrow> u64 \<Rightarrow> change_state" where
  "make_voter s i =
     (case s of (cfg, prs) \<Rightarrow>
        if \<not> incr_contains prs i then init_progress s i False
        else (set_incoming (List.insert i (cf_incoming cfg)) cfg
                \<lparr>cf_learners := removeAll i (cf_learners cfg),
                 cf_learners_next := removeAll i (cf_learners_next cfg)\<rparr>, prs))"

definition make_learner :: "change_state \<Rightarrow> u64 \<Rightarrow> change_state" where
  "make_learner s i =
     (case s of (cfg, prs) \<Rightarrow>
        if \<not> incr_contains prs i then init_progress s i True
        else if i \<in> set (cf_learners cfg) then s
        else let cfg = set_incoming (removeAll i (cf_incoming cfg)) cfg
                         \<lparr>cf_learners := removeAll i (cf_learners cfg),
                          cf_learners_next := removeAll i (cf_learners_next cfg)\<rparr>
             in (if i \<in> set (cf_outgoing cfg)
                 then cfg\<lparr>cf_learners_next := List.insert i (cf_learners_next cfg)\<rparr>
                 else cfg\<lparr>cf_learners := List.insert i (cf_learners cfg)\<rparr>, prs))"

definition changer_remove :: "change_state \<Rightarrow> u64 \<Rightarrow> change_state" where
  "changer_remove s i =
     (case s of (cfg, prs) \<Rightarrow>
        if \<not> incr_contains prs i then s
        else let cfg = set_incoming (removeAll i (cf_incoming cfg)) cfg
                         \<lparr>cf_learners := removeAll i (cf_learners cfg),
                          cf_learners_next := removeAll i (cf_learners_next cfg)\<rparr>
             in (cfg, if i \<notin> set (cf_outgoing cfg) then push_change prs i MapRemove else prs))"

definition change_one :: "change_state \<Rightarrow> conf_change_single \<Rightarrow> change_state" where
  "change_one s cc =
     (if cc_node_id cc = 0 then s
      else case cc_change_type cc of
             AddNode \<Rightarrow> make_voter s (cc_node_id cc)
           | AddLearnerNode \<Rightarrow> make_learner s (cc_node_id cc)
           | RemoveNode \<Rightarrow> changer_remove s (cc_node_id cc))"

definition changer_apply :: "change_state \<Rightarrow> conf_change_single list \<Rightarrow> change_state raft_result" where
  "changer_apply s ccs =
     (let (cfg, prs) = foldl change_one s ccs
      in if cf_incoming cfg = [] then Inl (ConfChangeError ''removed all voters'') else Inr (cfg, prs))"

definition enter_joint ::
  "progress_tracker \<Rightarrow> bool \<Rightarrow> conf_change_single list \<Rightarrow> (configuration \<times> map_change) raft_result" where
  "enter_joint t auto_leave ccs =
     (if joint (pt_conf t) then Inl (ConfChangeError ''config is already joint'')
      else rbind (check_and_copy t) (\<lambda>(cfg, prs).
      if cf_incoming cfg = [] then Inl (ConfChangeError ''can't make a zero-voter config joint'')
      else rbind (changer_apply (set_outgoing (List.union (cf_incoming cfg) (cf_outgoing cfg)) cfg, prs) ccs) (\<lambda>(cfg, prs).
      let cfg = cfg\<lparr>cf_auto_leave := auto_leave\<rparr>
      in rbind (check_invariants cfg prs) (\<lambda>_. Inr (cfg, ic_changes prs)))))"

definition leave_joint :: "progress_tracker \<Rightarrow> (configuration \<times> map_change) raft_result" where
  "leave_joint t =
     (if \<not> joint (pt_conf t) then Inl (ConfChangeError ''can't leave a non-joint config'')
      else rbind (check_and_copy t) (\<lambda>(cfg, prs).
      if cf_outgoing cfg = [] then Inl (ConfChangeError ''configuration is not joint'')
      else let cfg = cfg\<lparr>cf_learners := List.union (cf_learners_next cfg) (cf_learners cfg), cf_learners_next := []\<rparr>;
               prs = prs\<lparr>ic_changes := ic_changes prs @
                       map (\<lambda>i. (i, MapRemove))
                         (filter (\<lambda>i. i \<notin> set (cf_incoming cfg) \<and> i \<notin> set (cf_learners cfg)) (cf_outgoing cfg))\<rparr>;
               cfg = (set_outgoing [] cfg)\<lparr>cf_auto_leave := False\<rparr>
           in rbind (check_invariants cfg prs) (\<lambda>_. Inr (cfg, ic_changes prs))))"

definition symmetric_difference :: "hash_set \<Rightarrow> hash_set \<Rightarrow> hash_set" where
  "symmetric_difference a b = filter (\<lambda>i. i \<notin> set b) a @ filter (\<lambda>i. i \<notin> set a) b"

definition simple_change ::
  "progress_tracker \<Rightarrow> conf_change_single list \<Rightarrow> (configuration \<times> map_change) raft_result" where
  "simple_change t ccs =
     (if joint (pt_conf t) then Inl (ConfChangeError ''can't apply simple config change in joint config'')
      else rbind (check_and_copy t) (\<lambda>s.
      rbind (changer_apply s ccs) (\<lambda>(cfg, prs).
      if 1 < length (symmetric_difference (cf_incoming cfg) (cf_incoming (pt_conf t)))
      then Inl (ConfChangeError ''more than one voter changed without entering joint config'')
      else rbind (check_invariants cfg prs) (\<lambda>_. Inr (cfg, ic_changes prs)))))"

section \<open>Restoring a configuration\<close>

definition new_conf_change_single :: "u64 \<Rightarrow> conf_change_type \<Rightarrow> conf_change_single" where
  "new_conf_change_single node_id ty = \<lparr>cc_change_type = ty, cc_node_id = node_id\<rparr>"

definition to_conf_change_single :: "conf_state \<Rightarrow> conf_change_single list \<times> conf_change_single list" where
  "to_conf_change_single cs =
     (map (\<lambda>i. new_conf_change_single i AddNode) (cs_voters_outgoing cs),
      map (\<lambda>i. new_conf_change_single i RemoveNode) (cs_voters_outgoing cs) @
      map (\<lambda>i. new_conf_change_single i AddNode) (cs_voters cs) @
      map (\<lambda>i. new_conf_change_single i AddLearnerNode) (cs_learners cs) @
      map (\<lambda>i. new_conf_change_single i AddLearnerNode) (cs_learners_next cs))"

fun simple_changes :: "progress_tracker \<Rightarrow> u64 \<Rightarrow> conf_change_single list \<Rightarrow> progress_tracker raft_result" where
  "simple_changes t next_idx [] = Inr t"
| "simple_changes t next_idx (cc # ccs) =
     rbind (simple_change t [cc]) (\<lambda>(cfg, changes).
     simple_changes (apply_conf t cfg changes next_idx) next_idx ccs)"

definition restore :: "progress_tracker \<Rightarrow> u64 \<Rightarrow> conf_state \<Rightarrow> progress_tracker raft_result" where
  "restore t next_idx cs =
     (let (outgoing, incoming) = to_conf_change_single cs
      in if outgoing = [] then simple_changes t next_idx incoming
         else rbind (simple_changes t next_idx outgoing) (\<lambda>t.
              rbind (enter_joint t (cs_auto_leave cs) incoming) (\<lambda>(cfg, changes).
              Inr (apply_conf t cfg changes next_idx))))"

end
