(* ===== verification/Conf_Change.thy ===== *)
theory Conf_Change
  imports Raft_Conf
begin

text \<open>
  Correctness of configuration changes. A configuration is abstracted to its four sets, on which the
  changes of the code are plain set operations. The changer keeps the sets disjoint and
  tracks the progress of exactly the replicas of the configuration, so its final check never fails; any quorum
  of a configuration meets any quorum of the next one; and a configuration is restored from the
  \<open>ConfState\<close> it was saved to.
\<close>

section \<open>The sets of a configuration\<close>

type_synonym conf_sets = "u64 set \<times> u64 set \<times> u64 set \<times> u64 set"

definition sets_of :: "configuration \<Rightarrow> conf_sets" where
  "sets_of cfg = (set (cf_incoming cfg), set (cf_outgoing cfg), set (cf_learners cfg), set (cf_learners_next cfg))"

definition abs_change :: "conf_sets \<Rightarrow> conf_change_single \<Rightarrow> conf_sets" where
  "abs_change s cc =
     (case s of (I, Out, L, N) \<Rightarrow>
        let i = cc_node_id cc
        in if i = 0 then s
           else case cc_change_type cc of
                  AddNode \<Rightarrow> (insert i I, Out, L - {i}, N - {i})
                | RemoveNode \<Rightarrow> (I - {i}, Out, L - {i}, N - {i})
                | AddLearnerNode \<Rightarrow> if i \<in> Out then (I - {i}, Out, L, insert i N) else (I - {i}, Out, insert i L, N))"

definition wf_sets :: "conf_sets \<Rightarrow> bool" where
  "wf_sets s = (case s of (I, Out, L, N) \<Rightarrow> L \<inter> (I \<union> Out) = {} \<and> N \<subseteq> Out \<and> N \<inter> I = {})"

definition tracked :: "conf_sets \<Rightarrow> u64 set" where
  "tracked s = (case s of (I, Out, L, N) \<Rightarrow> I \<union> Out \<union> L)"

definition distinct_conf :: "configuration \<Rightarrow> bool" where
  "distinct_conf cfg \<longleftrightarrow> wf_joint (cf_voters cfg) \<and> distinct (cf_learners cfg) \<and> distinct (cf_learners_next cfg)"

definition change_ok :: "change_state \<Rightarrow> bool" where
  "change_ok s \<longleftrightarrow> distinct_conf (fst s) \<and> wf_sets (sets_of (fst s)) \<and>
     (\<forall>i. incr_contains (snd s) i \<longleftrightarrow> i \<in> tracked (sets_of (fst s)))"

definition tracker_ok :: "progress_tracker \<Rightarrow> bool" where
  "tracker_ok t \<longleftrightarrow> distinct_conf (pt_conf t) \<and> wf_sets (sets_of (pt_conf t)) \<and>
     dom (pt_progress t) = tracked (sets_of (pt_conf t)) \<and> (cf_auto_leave (pt_conf t) \<longrightarrow> joint (pt_conf t))"

lemma set_incoming_simps [simp]:
  "jc_incoming (cf_voters (set_incoming s cfg)) = s"
  "jc_outgoing (cf_voters (set_incoming s cfg)) = jc_outgoing (cf_voters cfg)"
  "cf_learners (set_incoming s cfg) = cf_learners cfg"
  "cf_learners_next (set_incoming s cfg) = cf_learners_next cfg"
  "cf_auto_leave (set_incoming s cfg) = cf_auto_leave cfg"
  by (simp_all add: set_incoming_def)

lemma set_outgoing_simps [simp]:
  "jc_incoming (cf_voters (set_outgoing s cfg)) = jc_incoming (cf_voters cfg)"
  "jc_outgoing (cf_voters (set_outgoing s cfg)) = s"
  "cf_learners (set_outgoing s cfg) = cf_learners cfg"
  "cf_learners_next (set_outgoing s cfg) = cf_learners_next cfg"
  "cf_auto_leave (set_outgoing s cfg) = cf_auto_leave cfg"
  by (simp_all add: set_outgoing_def)

lemma incr_contains_push [simp]:
  "incr_contains (push_change prs i ty) j = (if j = i then ty = MapAdd else incr_contains prs j)"
  by (cases ty; cases "map_of (rev (ic_changes prs)) j") (simp_all add: incr_contains_def push_change_def)

lemma distinct_removeAll' [simp]: "distinct xs \<Longrightarrow> distinct (removeAll x xs)"
  by (simp add: distinct_removeAll)

lemmas change_defs = change_one_def make_voter_def make_learner_def changer_remove_def init_progress_def Let_def

lemma change_one_sets:
  assumes "change_ok s"
  shows "sets_of (fst (change_one s cc)) = abs_change (sets_of (fst s)) cc"
proof -
  obtain cfg prs where s: "s = (cfg, prs)" by (cases s)
  have "\<not> incr_contains prs i \<Longrightarrow>
    i \<notin> set (cf_incoming cfg) \<and> i \<notin> set (cf_outgoing cfg) \<and> i \<notin> set (cf_learners cfg) \<and> i \<notin> set (cf_learners_next cfg)" for i
    using assms by (auto simp: s change_ok_def tracked_def sets_of_def wf_sets_def)
  moreover have "i \<in> set (cf_learners cfg) \<Longrightarrow>
    i \<notin> set (cf_incoming cfg) \<and> i \<notin> set (cf_outgoing cfg) \<and> i \<notin> set (cf_learners_next cfg)" for i
    using assms by (auto simp: s change_ok_def sets_of_def wf_sets_def)
  moreover have "i \<in> set (cf_learners_next cfg) \<Longrightarrow> i \<in> set (cf_outgoing cfg)" for i
    using assms by (auto simp: s change_ok_def sets_of_def wf_sets_def)
  ultimately show ?thesis
    by (cases "cc_change_type cc") (auto simp: s change_defs sets_of_def abs_change_def)
qed

lemma change_one_ok:
  assumes "change_ok s"
  shows "change_ok (change_one s cc)"
proof -
  obtain cfg prs where s: "s = (cfg, prs)" by (cases s)
  have sets: "sets_of (fst (change_one s cc)) = abs_change (sets_of cfg) cc"
    using change_one_sets [OF assms] by (simp add: s)
  have "distinct_conf (fst (change_one s cc))"
    using assms
    by (cases "cc_change_type cc") (auto simp: s change_defs change_ok_def distinct_conf_def wf_joint_def)
  moreover have "wf_sets (abs_change (sets_of cfg) cc)"
    using assms by (cases "cc_change_type cc")
      (auto simp: s change_ok_def wf_sets_def abs_change_def sets_of_def Let_def)
  moreover have "incr_contains (snd (change_one s cc)) i \<longleftrightarrow> i \<in> tracked (abs_change (sets_of cfg) cc)" for i
  proof -
    have c: "incr_contains prs j \<longleftrightarrow> j \<in> tracked (sets_of cfg)" for j
      using assms by (simp add: s change_ok_def)
    have w: "wf_sets (sets_of cfg)" using assms by (simp add: s change_ok_def)
    show ?thesis
      using w by (cases "cc_change_type cc")
        (auto simp: s change_defs c tracked_def abs_change_def sets_of_def wf_sets_def)
  qed
  ultimately show ?thesis
    by (simp add: change_ok_def sets)
qed

lemma change_one_outgoing: "cf_outgoing (fst (change_one s cc)) = cf_outgoing (fst s)"
  by (cases s; cases "cc_change_type cc") (auto simp: change_defs)

lemma change_one_auto_leave: "cf_auto_leave (fst (change_one s cc)) = cf_auto_leave (fst s)"
  by (cases s; cases "cc_change_type cc") (auto simp: change_defs)

lemma change_one_base: "ic_base (snd (change_one s cc)) = ic_base (snd s)"
  by (cases s; cases "cc_change_type cc") (auto simp: change_defs push_change_def)

lemma foldl_change:
  assumes "change_ok s"
  shows "change_ok (foldl change_one s ccs)"
    and "sets_of (fst (foldl change_one s ccs)) = foldl abs_change (sets_of (fst s)) ccs"
    and "cf_outgoing (fst (foldl change_one s ccs)) = cf_outgoing (fst s)"
    and "cf_auto_leave (fst (foldl change_one s ccs)) = cf_auto_leave (fst s)"
    and "ic_base (snd (foldl change_one s ccs)) = ic_base (snd s)"
  using assms
  by (induction ccs arbitrary: s)
    (simp_all add: change_one_ok change_one_sets change_one_outgoing change_one_auto_leave change_one_base)

section \<open>The invariant\<close>

lemma check_learners_ok:
  "(\<forall>i\<in>set is. incr_contains prs i \<and> i \<notin> set (cf_outgoing cfg) \<and> i \<notin> set (cf_incoming cfg)) \<Longrightarrow>
    check_learners cfg prs is = Inr ()"
  by (induction "is") simp_all

lemma check_learners_next_ok:
  "(\<forall>i\<in>set is. incr_contains prs i \<and> i \<in> set (cf_outgoing cfg)) \<Longrightarrow> check_learners_next cfg prs is = Inr ()"
  by (induction "is") simp_all

lemma check_invariants_ok:
  assumes "change_ok (cfg, prs)" "cf_auto_leave cfg \<longrightarrow> joint cfg"
  shows "check_invariants cfg prs = Inr ()"
proof -
  have "\<forall>i\<in>set (joint_ids (cf_voters cfg)). incr_contains prs i"
    using assms(1) by (auto simp: change_ok_def joint_ids_def tracked_def sets_of_def)
  moreover have "check_learners cfg prs (cf_learners cfg) = Inr ()"
    using assms(1) by (intro check_learners_ok) (auto simp: change_ok_def tracked_def sets_of_def wf_sets_def)
  moreover have "check_learners_next cfg prs (cf_learners_next cfg) = Inr ()"
    using assms(1) by (intro check_learners_next_ok) (auto simp: change_ok_def tracked_def sets_of_def wf_sets_def)
  moreover have "\<not> joint cfg \<Longrightarrow> cf_learners_next cfg = []"
    using assms(1) by (auto simp: change_ok_def sets_of_def wf_sets_def joint_def)
  ultimately show ?thesis
    using assms(2) by (auto simp: check_invariants_def)
qed

abbreviation changes_of :: "progress_tracker \<Rightarrow> incr_change_map" where
  "changes_of t \<equiv> \<lparr>ic_changes = [], ic_base = (\<lambda>i. pt_progress t i \<noteq> None)\<rparr>"

lemma tracker_change_ok: "tracker_ok t \<Longrightarrow> change_ok (pt_conf t, changes_of t)"
  by (auto simp: tracker_ok_def change_ok_def incr_contains_def dom_def)

lemma check_and_copy_ok: "tracker_ok t \<Longrightarrow> check_and_copy t = Inr (pt_conf t, changes_of t)"
  using check_invariants_ok [OF tracker_change_ok]
  by (simp add: check_and_copy_def Let_def tracker_ok_def)

lemma apply_changes_dom:
  "apply_changes k n cs m i \<noteq> None \<longleftrightarrow>
    (case map_of (rev cs) i of Some MapRemove \<Rightarrow> False | Some MapAdd \<Rightarrow> True | None \<Rightarrow> m i \<noteq> None)"
proof (induction cs arbitrary: m)
  case (Cons c cs)
  obtain j ty where c: "c = (j, ty)" by (cases c)
  show ?case
    by (cases ty; cases "map_of (rev cs) i")
      (simp_all add: c Cons.IH map_add_def del: not_None_eq split: map_change_type.split)
qed simp

lemma apply_conf_ok:
  assumes "change_ok (cfg, prs)" "ic_base prs = (\<lambda>i. pt_progress t i \<noteq> None)"
    "cf_auto_leave cfg \<longrightarrow> joint cfg"
  shows "tracker_ok (apply_conf t cfg (ic_changes prs) n)"
proof -
  have "dom (apply_changes (pt_max_inflight t) n (ic_changes prs) (pt_progress t)) = {i. incr_contains prs i}"
    unfolding dom_def by (simp only: apply_changes_dom incr_contains_def assms(2))
  with assms show ?thesis
    by (auto simp: tracker_ok_def apply_conf_def change_ok_def)
qed

lemma set_joint_ids [simp]: "set (joint_ids c) = set (jc_incoming c) \<union> set (jc_outgoing c)"
  by (auto simp: joint_ids_def)

lemma change_ok_outgoing:
  assumes "change_ok (cfg, prs)" "cf_outgoing cfg = []"
  shows "change_ok (set_outgoing (List.union (cf_incoming cfg) (cf_outgoing cfg)) cfg, prs)"
  using assms
  by (auto simp: change_ok_def distinct_conf_def wf_joint_def sets_of_def wf_sets_def tracked_def)

definition joint_start :: "progress_tracker \<Rightarrow> change_state" where
  "joint_start t =
     (set_outgoing (List.union (cf_incoming (pt_conf t)) (cf_outgoing (pt_conf t))) (pt_conf t), changes_of t)"

definition joint_start_sets :: "progress_tracker \<Rightarrow> conf_sets" where
  "joint_start_sets t =
     (set (cf_incoming (pt_conf t)), set (cf_incoming (pt_conf t)), set (cf_learners (pt_conf t)), {})"

lemma not_joint_sets:
  assumes "tracker_ok t" "\<not> joint (pt_conf t)"
  shows "cf_outgoing (pt_conf t) = []" "cf_learners_next (pt_conf t) = []" "\<not> cf_auto_leave (pt_conf t)"
  using assms by (auto simp: joint_def tracker_ok_def sets_of_def wf_sets_def)

lemma joint_start:
  assumes "tracker_ok t" "\<not> joint (pt_conf t)"
  shows "change_ok (joint_start t)" "sets_of (fst (joint_start t)) = joint_start_sets t"
    "set (cf_outgoing (fst (joint_start t))) = set (cf_incoming (pt_conf t))"
    "ic_base (snd (joint_start t)) = (\<lambda>i. pt_progress t i \<noteq> None)"
  using change_ok_outgoing [OF tracker_change_ok [OF assms(1)] not_joint_sets(1) [OF assms]]
    not_joint_sets [OF assms]
  by (simp_all add: joint_start_def joint_start_sets_def sets_of_def)

lemma enter_joint_eq:
  assumes "tracker_ok t" "\<not> joint (pt_conf t)" "cf_incoming (pt_conf t) \<noteq> []"
  shows "enter_joint t auto_leave ccs =
    (let s = foldl change_one (joint_start t) ccs
     in if cf_incoming (fst s) = [] then Inl (ConfChangeError ''removed all voters'')
        else Inr ((fst s)\<lparr>cf_auto_leave := auto_leave\<rparr>, ic_changes (snd s)))"
proof -
  let ?s = "foldl change_one (joint_start t) ccs"
  note start = joint_start [OF assms(1,2)]
  have "joint (fst ?s)"
    using foldl_change(3) [OF start(1), of ccs] start(3) assms(3) by (auto simp: joint_def)
  then have "check_invariants ((fst ?s)\<lparr>cf_auto_leave := auto_leave\<rparr>) (snd ?s) = Inr ()"
    using foldl_change(1) [OF start(1), of ccs]
    by (intro check_invariants_ok) (auto simp: change_ok_def sets_of_def joint_def distinct_conf_def)
  then show ?thesis
    using assms(2,3)
    by (simp add: enter_joint_def check_and_copy_ok [OF assms(1)] changer_apply_def case_prod_unfold
        Let_def joint_start_def)
qed

lemma enter_joint_ok:
  assumes "tracker_ok t" "enter_joint t auto_leave ccs = Inr (cfg, ch)"
  shows "tracker_ok (apply_conf t cfg ch n) \<and> set (cf_outgoing cfg) = set (cf_incoming (pt_conf t)) \<and>
    cf_incoming cfg \<noteq> [] \<and> \<not> joint (pt_conf t) \<and> cf_incoming (pt_conf t) \<noteq> [] \<and>
    cf_auto_leave cfg = auto_leave \<and> sets_of cfg = foldl abs_change (joint_start_sets t) ccs"
proof -
  have nj: "\<not> joint (pt_conf t)" and ne: "cf_incoming (pt_conf t) \<noteq> []"
    using assms(2) by (auto simp: enter_joint_def check_and_copy_ok [OF assms(1)] split: if_splits)
  let ?s = "foldl change_one (joint_start t) ccs"
  note start = joint_start [OF assms(1) nj]
  note fold = foldl_change [OF start(1), of ccs]
  have ne': "cf_incoming (fst ?s) \<noteq> []" and cfg: "cfg = (fst ?s)\<lparr>cf_auto_leave := auto_leave\<rparr>"
    and ch: "ch = ic_changes (snd ?s)"
    using assms(2) by (auto simp: enter_joint_eq [OF assms(1) nj ne] Let_def split: if_splits)
  have out: "set (cf_outgoing cfg) = set (cf_incoming (pt_conf t))"
    using fold(3) start(3) by (simp add: cfg)
  have "change_ok (cfg, snd ?s)"
    using fold(1) by (auto simp: cfg change_ok_def sets_of_def distinct_conf_def)
  then have "tracker_ok (apply_conf t cfg ch n)"
    unfolding ch by (rule apply_conf_ok) (use fold(5) start(4) out ne in \<open>auto simp: joint_def\<close>)
  then show ?thesis
    using out ne ne' nj fold(2) start(2) by (simp add: cfg sets_of_def)
qed

lemma leave_joint_ok:
  assumes "tracker_ok t" "joint (pt_conf t)"
  shows "\<exists>cfg ch. leave_joint t = Inr (cfg, ch) \<and> tracker_ok (apply_conf t cfg ch n) \<and>
    cf_incoming cfg = cf_incoming (pt_conf t) \<and> cf_outgoing cfg = [] \<and>
    set (cf_learners cfg) = set (cf_learners (pt_conf t)) \<union> set (cf_learners_next (pt_conf t)) \<and>
    cf_learners_next cfg = []"
proof -
  let ?c = "pt_conf t"
  let ?l = "List.union (cf_learners_next ?c) (cf_learners ?c)"
  let ?gone = "filter (\<lambda>i. i \<notin> set (cf_incoming ?c) \<and> i \<notin> set ?l) (cf_outgoing ?c)"
  let ?cfg = "(set_outgoing [] (?c\<lparr>cf_learners := ?l, cf_learners_next := []\<rparr>))\<lparr>cf_auto_leave := False\<rparr>"
  let ?prs = "(changes_of t)\<lparr>ic_changes := map (\<lambda>i. (i, MapRemove)) ?gone\<rparr>"
  have contains: "incr_contains ?prs i \<longleftrightarrow> i \<in> tracked (sets_of ?c) \<and> i \<notin> set ?gone" for i
  proof -
    have dom: "pt_progress t i \<noteq> None \<longleftrightarrow> i \<in> tracked (sets_of ?c)"
      using assms(1) by (auto simp: tracker_ok_def dom_def)
    have "map_of (rev (map (\<lambda>i. (i, MapRemove)) gone)) i = (if i \<in> set gone then Some MapRemove else None)" for gone
      by (simp add: rev_map map_of_map_restrict restrict_map_def)
    then show ?thesis
      using dom by (simp add: incr_contains_def del: set_filter set_union not_None_eq)
  qed
  have "change_ok (?cfg, ?prs)"
    using assms(1) unfolding change_ok_def fst_conv snd_conv contains
    by (auto simp: tracker_ok_def distinct_conf_def wf_joint_def sets_of_def wf_sets_def tracked_def)
  moreover from this have "check_invariants ?cfg ?prs = Inr ()"
    by (rule check_invariants_ok) simp
  moreover have "leave_joint t = rbind (check_invariants ?cfg ?prs) (\<lambda>_. Inr (?cfg, ic_changes ?prs))"
    using assms by (simp add: leave_joint_def check_and_copy_ok joint_def Let_def)
  ultimately show ?thesis
    using apply_conf_ok [of ?cfg ?prs t n] by (auto simp: Un_commute)
qed

lemma simple_change_ok:
  assumes "tracker_ok t" "\<not> joint (pt_conf t)"
  shows "simple_change t ccs =
    (let s = foldl change_one (pt_conf t, changes_of t) ccs
     in if cf_incoming (fst s) = [] then Inl (ConfChangeError ''removed all voters'')
        else if 1 < length (symmetric_difference (cf_incoming (fst s)) (cf_incoming (pt_conf t)))
        then Inl (ConfChangeError ''more than one voter changed without entering joint config'')
        else Inr (fst s, ic_changes (snd s)))"
    and "tracker_ok (apply_conf t (fst (foldl change_one (pt_conf t, changes_of t) ccs))
      (ic_changes (snd (foldl change_one (pt_conf t, changes_of t) ccs))) n)"
    and "sets_of (fst (foldl change_one (pt_conf t, changes_of t) ccs)) = foldl abs_change (sets_of (pt_conf t)) ccs"
proof -
  let ?s = "foldl change_one (pt_conf t, changes_of t) ccs"
  note fold = foldl_change [OF tracker_change_ok [OF assms(1)], of ccs]
  have auto: "\<not> cf_auto_leave (fst ?s)"
    using fold(4) not_joint_sets(3) [OF assms] by simp
  then have "check_invariants (fst ?s) (snd ?s) = Inr ()"
    using fold(1) by (intro check_invariants_ok) simp_all
  then show "simple_change t ccs =
    (let s = ?s
     in if cf_incoming (fst s) = [] then Inl (ConfChangeError ''removed all voters'')
        else if 1 < length (symmetric_difference (cf_incoming (fst s)) (cf_incoming (pt_conf t)))
        then Inl (ConfChangeError ''more than one voter changed without entering joint config'')
        else Inr (fst s, ic_changes (snd s)))"
    using assms(2)
    by (simp add: simple_change_def check_and_copy_ok [OF assms(1)] changer_apply_def case_prod_unfold Let_def)
  show "tracker_ok (apply_conf t (fst ?s) (ic_changes (snd ?s)) n)"
    by (rule apply_conf_ok) (use fold auto in simp_all)
  show "sets_of (fst ?s) = foldl abs_change (sets_of (pt_conf t)) ccs"
    using fold(2) by simp
qed

lemma simple_change_Inr:
  assumes "tracker_ok t" "simple_change t ccs = Inr (cfg, ch)"
  shows "tracker_ok (apply_conf t cfg ch n) \<and> \<not> joint (pt_conf t) \<and> cf_outgoing cfg = [] \<and>
    cf_incoming cfg \<noteq> [] \<and> length (symmetric_difference (cf_incoming cfg) (cf_incoming (pt_conf t))) \<le> 1 \<and>
    sets_of cfg = foldl abs_change (sets_of (pt_conf t)) ccs"
proof -
  have nj: "\<not> joint (pt_conf t)"
    using assms(2) by (auto simp: simple_change_def split: if_splits)
  let ?s = "foldl change_one (pt_conf t, changes_of t) ccs"
  note simple = simple_change_ok [OF assms(1) nj, of ccs]
  have cfg: "cfg = fst ?s" "ch = ic_changes (snd ?s)" and ne: "cf_incoming (fst ?s) \<noteq> []"
    and sd: "length (symmetric_difference (cf_incoming (fst ?s)) (cf_incoming (pt_conf t))) \<le> 1"
    using assms(2) by (auto simp: simple(1) Let_def not_less split: if_splits)
  have "cf_outgoing (fst ?s) = []"
    using foldl_change(3) [OF tracker_change_ok [OF assms(1)], of ccs] not_joint_sets(1) [OF assms(1) nj] by simp
  with simple(2) [of n] simple(3) ne sd nj show ?thesis
    by (simp add: cfg)
qed

section \<open>Steps of the configuration\<close>

text \<open>One committed configuration change, as the raft node applies it.\<close>

inductive conf_step :: "progress_tracker \<Rightarrow> progress_tracker \<Rightarrow> bool" where
  simple: "simple_change t ccs = Inr (cfg, ch) \<Longrightarrow> conf_step t (apply_conf t cfg ch n)"
| enter: "enter_joint t auto_leave ccs = Inr (cfg, ch) \<Longrightarrow> conf_step t (apply_conf t cfg ch n)"
| leave: "leave_joint t = Inr (cfg, ch) \<Longrightarrow> conf_step t (apply_conf t cfg ch n)"

lemma pt_conf_apply [simp]: "pt_conf (apply_conf t cfg ch n) = cfg"
  by (simp add: apply_conf_def)

lemma leave_joint_Inr:
  assumes "tracker_ok t" "leave_joint t = Inr (cfg, ch)"
  shows "tracker_ok (apply_conf t cfg ch n) \<and> joint (pt_conf t) \<and>
    cf_incoming cfg = cf_incoming (pt_conf t) \<and> cf_outgoing cfg = []"
proof -
  have joint: "joint (pt_conf t)"
    using assms(2) by (auto simp: leave_joint_def split: if_splits)
  with leave_joint_ok [OF assms(1) joint, of n] assms(2) show ?thesis by auto
qed

lemma conf_step_ok: "conf_step t t' \<Longrightarrow> tracker_ok t \<Longrightarrow> tracker_ok t'"
  by (induction rule: conf_step.induct)
    (blast dest: simple_change_Inr enter_joint_ok leave_joint_Inr)+

lemma tracker_new_ok: "tracker_ok (tracker_new max_inflight)"
  by (simp add: tracker_ok_def tracker_new_def conf_new_def joint_config_new_def distinct_conf_def
      wf_joint_def sets_of_def wf_sets_def tracked_def)

lemma conf_reachable_ok: "conf_step\<^sup>*\<^sup>* (tracker_new max_inflight) t \<Longrightarrow> tracker_ok t"
  by (induction rule: rtranclp_induct) (auto intro: conf_step_ok tracker_new_ok)

text \<open>
  C23. However many configuration changes are applied, starting from a tracker without replicas, the
  sets of the configuration stay disjoint as the code documents, a learner is staged only while it is an
  outgoing voter, automatic leaving is set only in a joint configuration, and a progress is tracked for
  exactly the voters and learners of the configuration.
\<close>

theorem conf_changes_keep_invariant:
  assumes "conf_step\<^sup>*\<^sup>* (tracker_new max_inflight) t"
  shows "tracker_ok t"
  using assms by (rule conf_reachable_ok)

section \<open>Quorums of consecutive configurations\<close>

lemma length_symmetric_difference:
  assumes "distinct a" "distinct b"
  shows "length (symmetric_difference a b) = card (set a - set b) + card (set b - set a)"
proof -
  have "length (filter (\<lambda>i. i \<notin> set b) a) = card (set a - set b)"
    using distinct_card [of "filter (\<lambda>i. i \<notin> set b) a"] assms(1) by (simp add: set_diff_eq)
  moreover have "length (filter (\<lambda>i. i \<notin> set a) b) = card (set b - set a)"
    using distinct_card [of "filter (\<lambda>i. i \<notin> set a) b"] assms(2) by (simp add: set_diff_eq)
  ultimately show ?thesis by (simp add: symmetric_difference_def)
qed

lemma near_quorums_meet:
  assumes "distinct a" "distinct b" "a \<noteq> []" "b \<noteq> []" "length (symmetric_difference b a) \<le> 1"
    and "is_quorum a S" "is_quorum b T"
  shows "\<exists>v\<in>S \<inter> T. v \<in> set a \<and> v \<in> set b"
proof (rule ccontr)
  assume "\<not> ?thesis"
  then have "card (set a \<inter> S) + card (set b \<inter> T) = card ((set a \<inter> S) \<union> (set b \<inter> T))"
    by (intro card_Un_disjoint [symmetric]) auto
  also have "\<dots> \<le> card (set a \<union> set b)" by (rule card_mono) auto
  also have "\<dots> = length a + card (set b - set a)"
    using card_Un_disjoint [of "set a" "set b - set a"] distinct_card [OF assms(1)] by simp
  finally have le: "card (set a \<inter> S) + card (set b \<inter> T) \<le> length a + card (set b - set a)" .
  have "length a + card (set b - set a) = length b + card (set a - set b)"
    using card_Un_disjoint [of "set a" "set b - set a"] card_Un_disjoint [of "set b" "set a - set b"]
      distinct_card [OF assms(1)] distinct_card [OF assms(2)] by (simp add: Un_commute)
  moreover have "card (set b - set a) + card (set a - set b) \<le> 1"
    using assms(5) by (simp add: length_symmetric_difference assms(1,2))
  ultimately show False
    using le assms(3,4,6,7) unfolding is_quorum_def by linarith
qed

lemma same_set_quorum:
  assumes "distinct a" "distinct b" "set a = set b"
  shows "is_quorum a S = is_quorum b S"
proof -
  have "length a = length b"
    using distinct_card [OF assms(1)] distinct_card [OF assms(2)] assms(3) by simp
  moreover have "a = [] \<longleftrightarrow> b = []" using assms(3) by auto
  ultimately show ?thesis using assms(3) by (simp add: is_quorum_def)
qed

text \<open>
  C24. Every quorum of a configuration shares a voter with every quorum of the configuration that follows it
  by a simple change, by entering or by leaving a joint configuration, so an index committed or an
  election won before the change is seen by every majority after it. The configuration is any
  that the code can reach with at least one voter.
\<close>

theorem consecutive_quorums_meet:
  assumes "conf_step\<^sup>*\<^sup>* (tracker_new max_inflight) t" "cf_incoming (pt_conf t) \<noteq> []" "conf_step t t'"
    and "joint_quorum (cf_voters (pt_conf t)) S" "joint_quorum (cf_voters (pt_conf t')) T"
  shows "\<exists>v\<in>S \<inter> T. joint_contains (cf_voters (pt_conf t)) v \<and> joint_contains (cf_voters (pt_conf t')) v"
proof -
  have ok: "tracker_ok t"
    using assms(1) by (rule conf_reachable_ok)
  have wf: "distinct (cf_incoming (pt_conf t))"
    using ok by (simp add: tracker_ok_def distinct_conf_def wf_joint_def)
  have wf': "distinct (cf_incoming (pt_conf t'))" "distinct (cf_outgoing (pt_conf t'))"
    using conf_step_ok [OF assms(3) ok] by (simp_all add: tracker_ok_def distinct_conf_def wf_joint_def)
  from assms(3) show ?thesis
  proof cases
    case (simple ccs cfg ch n)
    with simple_change_Inr [OF ok, of ccs cfg ch] wf wf' assms(2,4,5) show ?thesis
      using near_quorums_meet [of "cf_incoming (pt_conf t)" "cf_incoming cfg" S T]
      by (auto simp: joint_quorum_def joint_contains_def)
  next
    case (enter auto_leave ccs cfg ch n)
    with enter_joint_ok [OF ok, of auto_leave ccs cfg ch] have out: "set (cf_outgoing cfg) = set (cf_incoming (pt_conf t))"
      by simp
    then have "is_quorum (cf_incoming (pt_conf t)) T"
      using enter assms(5) wf wf' same_set_quorum [of "cf_outgoing cfg" "cf_incoming (pt_conf t)" T]
      by (simp add: joint_quorum_def)
    with quorums_meet [OF wf assms(2), of S T] assms(4) out enter show ?thesis
      by (auto simp: joint_quorum_def joint_contains_def)
  next
    case (leave cfg ch n)
    with leave_joint_Inr [OF ok, of cfg ch] quorums_meet [OF wf assms(2), of S T] assms(4,5) show ?thesis
      by (auto simp: joint_quorum_def joint_contains_def)
  qed
qed

section \<open>Restoring a configuration\<close>

lemma simple_change_one:
  assumes "tracker_ok t" "sets_of (pt_conf t) = (I, {}, L, {})"
    and "abs_change (I, {}, L, {}) cc = (I', {}, L', {})" "I' \<noteq> {}" "card (I' - I) + card (I - I') \<le> 1"
  shows "\<exists>cfg ch. simple_change t [cc] = Inr (cfg, ch) \<and> tracker_ok (apply_conf t cfg ch n) \<and>
    sets_of cfg = (I', {}, L', {})"
proof -
  have nj: "\<not> joint (pt_conf t)" using assms(2) by (simp add: sets_of_def joint_def)
  let ?s = "foldl change_one (pt_conf t, changes_of t) [cc]"
  note simple = simple_change_ok [OF assms(1) nj, of "[cc]"]
  have sets: "sets_of (fst ?s) = (I', {}, L', {})" using simple(3) assms(2,3) by simp
  have "distinct (cf_incoming (fst ?s))" "distinct (cf_incoming (pt_conf t))"
    using simple(2) [of n] assms(1) by (simp_all add: tracker_ok_def distinct_conf_def wf_joint_def)
  then have "length (symmetric_difference (cf_incoming (fst ?s)) (cf_incoming (pt_conf t))) \<le> 1"
    using sets assms(2,5) by (simp add: length_symmetric_difference sets_of_def)
  moreover have "cf_incoming (fst ?s) \<noteq> []" using sets assms(4) by (auto simp: sets_of_def)
  ultimately have "simple_change t [cc] = Inr (fst ?s, ic_changes (snd ?s))"
    by (simp add: simple(1) Let_def)
  with simple(2) [of n] sets show ?thesis by blast
qed

lemma card_insert_diff: "card (insert i I - I) + card (I - insert i I) \<le> 1"
proof -
  have "insert i I - I \<subseteq> {i}" by auto
  then have "card (insert i I - I) \<le> card {i}" by (intro card_mono) auto
  moreover have e: "I - insert i I = {}" by auto
  ultimately show ?thesis unfolding e by simp
qed

lemma simple_add_voters:
  assumes "tracker_ok t" "sets_of (pt_conf t) = (I, {}, L, {})" "0 \<notin> set vs" "L \<inter> set vs = {}"
  shows "\<exists>t'. simple_changes t n (map (\<lambda>i. new_conf_change_single i AddNode) vs @ ccs) = simple_changes t' n ccs \<and>
    tracker_ok t' \<and> sets_of (pt_conf t') = (I \<union> set vs, {}, L, {})"
  using assms
proof (induction vs arbitrary: t I)
  case (Cons v vs)
  have "\<exists>cfg ch. simple_change t [new_conf_change_single v AddNode] = Inr (cfg, ch) \<and>
    tracker_ok (apply_conf t cfg ch n) \<and> sets_of cfg = (insert v I, {}, L, {})"
    by (rule simple_change_one [OF Cons.prems(1,2)])
      (use Cons.prems card_insert_diff in \<open>auto simp: abs_change_def new_conf_change_single_def Let_def\<close>)
  then obtain cfg ch where step: "simple_change t [new_conf_change_single v AddNode] = Inr (cfg, ch)"
    "tracker_ok (apply_conf t cfg ch n)" "sets_of cfg = (insert v I, {}, L, {})" by blast
  from Cons.IH [OF step(2), of "insert v I"] step(3) Cons.prems(3,4) show ?case
    by (simp add: step(1))
qed (auto intro: exI [of _ t])

lemma simple_add_learners:
  assumes "tracker_ok t" "sets_of (pt_conf t) = (I, {}, L, {})" "0 \<notin> set ls" "I \<inter> set ls = {}" "I \<noteq> {}"
  shows "\<exists>t'. simple_changes t n (map (\<lambda>i. new_conf_change_single i AddLearnerNode) ls) = Inr t' \<and>
    tracker_ok t' \<and> sets_of (pt_conf t') = (I, {}, L \<union> set ls, {})"
  using assms
proof (induction ls arbitrary: t L)
  case (Cons v vs)
  have "\<exists>cfg ch. simple_change t [new_conf_change_single v AddLearnerNode] = Inr (cfg, ch) \<and>
    tracker_ok (apply_conf t cfg ch n) \<and> sets_of cfg = (I, {}, insert v L, {})"
    by (rule simple_change_one [OF Cons.prems(1,2)])
      (use Cons.prems in \<open>auto simp: abs_change_def new_conf_change_single_def Let_def\<close>)
  then obtain cfg ch where step: "simple_change t [new_conf_change_single v AddLearnerNode] = Inr (cfg, ch)"
    "tracker_ok (apply_conf t cfg ch n)" "sets_of cfg = (I, {}, insert v L, {})" by blast
  from Cons.IH [OF step(2), of "insert v L"] step(3) Cons.prems(3,4,5) show ?case
    by (simp add: step(1))
qed (auto intro: exI [of _ t])

lemma foldl_removes:
  "0 \<notin> set vs \<Longrightarrow> foldl abs_change (I, Out, L, N) (map (\<lambda>i. new_conf_change_single i RemoveNode) vs) =
    (I - set vs, Out, L - set vs, N - set vs)"
  by (induction vs arbitrary: I L N) (auto simp: abs_change_def new_conf_change_single_def Let_def)

lemma foldl_adds:
  "0 \<notin> set vs \<Longrightarrow> foldl abs_change (I, Out, L, N) (map (\<lambda>i. new_conf_change_single i AddNode) vs) =
    (I \<union> set vs, Out, L - set vs, N - set vs)"
  by (induction vs arbitrary: I L N) (auto simp: abs_change_def new_conf_change_single_def Let_def)

lemma foldl_learners:
  "0 \<notin> set vs \<Longrightarrow> foldl abs_change (I, Out, L, N) (map (\<lambda>i. new_conf_change_single i AddLearnerNode) vs) =
    (I - set vs, Out, L \<union> (set vs - Out), N \<union> (set vs \<inter> Out))"
  by (induction vs arbitrary: I L N) (auto simp: abs_change_def new_conf_change_single_def Let_def)

lemma restore_simple:
  assumes "0 \<notin> set v" "0 \<notin> set l" "set v \<inter> set l = {}" "v \<noteq> []"
  shows "\<exists>t. restore (tracker_new m) n
      \<lparr>cs_voters = v, cs_learners = l, cs_voters_outgoing = [], cs_learners_next = [], cs_auto_leave = False\<rparr> = Inr t \<and>
    tracker_ok t \<and> sets_of (pt_conf t) = (set v, {}, set l, {}) \<and> \<not> cf_auto_leave (pt_conf t)"
proof -
  let ?ls = "map (\<lambda>i. new_conf_change_single i AddLearnerNode) l"
  have "sets_of (pt_conf (tracker_new m)) = ({}, {}, {}, {})"
    by (simp add: tracker_new_def conf_new_def joint_config_new_def sets_of_def)
  from simple_add_voters [OF tracker_new_ok this assms(1), of n ?ls] obtain t1
    where t1: "simple_changes (tracker_new m) n (map (\<lambda>i. new_conf_change_single i AddNode) v @ ?ls) =
        simple_changes t1 n ?ls" "tracker_ok t1" "sets_of (pt_conf t1) = (set v, {}, {}, {})"
    by auto
  from simple_add_learners [OF t1(2,3) assms(2,3), of n] assms(4) obtain t2
    where t2: "simple_changes t1 n ?ls = Inr t2" "tracker_ok t2" "sets_of (pt_conf t2) = (set v, {}, set l, {})"
    by auto
  have "\<not> cf_auto_leave (pt_conf t2)"
    using t2(2,3) by (auto simp: tracker_ok_def joint_def sets_of_def)
  with t1(1) t2 show ?thesis
    by (simp add: restore_def to_conf_change_single_def)
qed

lemma sets_of_incoming: "sets_of cfg = (I, s) \<Longrightarrow> I \<noteq> {} \<Longrightarrow> cf_incoming cfg \<noteq> []"
  by (auto simp: sets_of_def)

lemma restore_joint:
  assumes "wf_sets (set v, set vo, set l, set ln)" "v \<noteq> []" "vo \<noteq> []"
    and zero: "0 \<notin> set v" "0 \<notin> set vo" "0 \<notin> set l" "0 \<notin> set ln"
  shows "\<exists>t. restore (tracker_new m) n
      \<lparr>cs_voters = v, cs_learners = l, cs_voters_outgoing = vo, cs_learners_next = ln, cs_auto_leave = a\<rparr> = Inr t \<and>
    tracker_ok t \<and> sets_of (pt_conf t) = (set v, set vo, set l, set ln) \<and> cf_auto_leave (pt_conf t) = a"
proof -
  let ?ccs = "map (\<lambda>i. new_conf_change_single i RemoveNode) vo @
      map (\<lambda>i. new_conf_change_single i AddNode) v @
      map (\<lambda>i. new_conf_change_single i AddLearnerNode) l @
      map (\<lambda>i. new_conf_change_single i AddLearnerNode) ln"
  have "sets_of (pt_conf (tracker_new m)) = ({}, {}, {}, {})"
    by (simp add: tracker_new_def conf_new_def joint_config_new_def sets_of_def)
  from simple_add_voters [OF tracker_new_ok this zero(2), of n "[]"] obtain t1
    where t1: "simple_changes (tracker_new m) n (map (\<lambda>i. new_conf_change_single i AddNode) vo) = Inr t1"
      "tracker_ok t1" "sets_of (pt_conf t1) = (set vo, {}, {}, {})"
    by auto
  have nj: "\<not> joint (pt_conf t1)" "cf_incoming (pt_conf t1) \<noteq> []"
    using t1(3) assms(3) by (auto simp: joint_def sets_of_def)
  let ?s = "foldl change_one (joint_start t1) ?ccs"
  have start: "joint_start_sets t1 = (set vo, set vo, {}, {})"
    using t1(3) by (simp add: joint_start_sets_def sets_of_def)
  have "set l \<union> (set ln - set vo) = set l" "set ln \<inter> set vo = set ln" "set l \<inter> set vo = {}" "set l - set vo = set l"
    "set v - set l - set ln = set v"
    using assms(1) by (auto simp: wf_sets_def)
  then have sets: "foldl abs_change (joint_start_sets t1) ?ccs = (set v, set vo, set l, set ln)"
    by (simp add: start foldl_removes foldl_adds foldl_learners zero)
  then have "sets_of (fst ?s) = (set v, set vo, set l, set ln)"
    by (simp only: foldl_change(2) [OF joint_start(1) [OF t1(2) nj(1)]] joint_start(2) [OF t1(2) nj(1)])
  then have "cf_incoming (fst ?s) \<noteq> []"
    by (rule sets_of_incoming) (use assms(2) in simp)
  then obtain cfg ch where enter: "enter_joint t1 a ?ccs = Inr (cfg, ch)"
    by (simp only: enter_joint_eq [OF t1(2) nj] Let_def if_False)
  have "restore (tracker_new m) n
      \<lparr>cs_voters = v, cs_learners = l, cs_voters_outgoing = vo, cs_learners_next = ln, cs_auto_leave = a\<rparr> =
      Inr (apply_conf t1 cfg ch n)"
    using t1(1) enter assms(3) by (simp add: restore_def to_conf_change_single_def)
  with enter_joint_ok [OF t1(2) enter, of n] sets show ?thesis by simp
qed

lemma abs_change_zero:
  "0 \<notin> fst s \<union> fst (snd s) \<union> fst (snd (snd s)) \<union> snd (snd (snd s)) \<Longrightarrow>
    (case foldl abs_change s ccs of (I, Out, L, N) \<Rightarrow> 0 \<notin> I \<union> Out \<union> L \<union> N)"
proof (induction ccs arbitrary: s)
  case (Cons cc ccs)
  have "0 \<notin> fst (abs_change s cc) \<union> fst (snd (abs_change s cc)) \<union> fst (snd (snd (abs_change s cc))) \<union> snd (snd (snd (abs_change s cc)))"
    using Cons.prems by (cases s; cases "cc_change_type cc") (auto simp: abs_change_def Let_def)
  then show ?case using Cons.IH by simp
qed (auto split: prod.split)

lemma conf_reachable_nonzero:
  "conf_step\<^sup>*\<^sup>* (tracker_new max_inflight) t \<Longrightarrow>
    (case sets_of (pt_conf t) of (I, Out, L, N) \<Rightarrow> 0 \<notin> I \<union> Out \<union> L \<union> N)"
proof (induction rule: rtranclp_induct)
  case base
  show ?case by (simp add: tracker_new_def conf_new_def joint_config_new_def sets_of_def)
next
  case (step t t')
  note ok = conf_reachable_ok [OF step.hyps(1)]
  from step.hyps(2) show ?case
  proof cases
    case (simple ccs cfg ch n)
    then have eq: "sets_of (pt_conf t') = foldl abs_change (sets_of (pt_conf t)) ccs"
      using simple_change_Inr [OF ok, of ccs cfg ch n] by simp
    have "0 \<notin> fst (sets_of (pt_conf t)) \<union> fst (snd (sets_of (pt_conf t))) \<union>
      fst (snd (snd (sets_of (pt_conf t)))) \<union> snd (snd (snd (sets_of (pt_conf t))))"
      using step.IH by (auto split: prod.splits)
    then show ?thesis unfolding eq by (rule abs_change_zero)
  next
    case (enter auto_leave ccs cfg ch n)
    then have eq: "sets_of (pt_conf t') = foldl abs_change (joint_start_sets t) ccs"
      using enter_joint_ok [OF ok, of auto_leave ccs cfg ch n] by simp
    have "0 \<notin> fst (joint_start_sets t) \<union> fst (snd (joint_start_sets t)) \<union>
      fst (snd (snd (joint_start_sets t))) \<union> snd (snd (snd (joint_start_sets t)))"
      using step.IH by (auto simp: joint_start_sets_def sets_of_def)
    then show ?thesis unfolding eq by (rule abs_change_zero)
  next
    case (leave cfg ch n)
    then have "joint (pt_conf t)" by (auto simp: leave_joint_def split: if_splits)
    with leave leave_joint_ok [OF ok this] step.IH show ?thesis by (auto simp: sets_of_def)
  qed
qed

text \<open>
  C25. A configuration the code can reach with at least one voter, saved as a \<open>ConfState\<close> and restored into a
  new tracker, gives the same incoming and outgoing voters, learners and staged learners and the same
  automatic leaving, with a progress for exactly those replicas.
\<close>

theorem restore_roundtrip:
  assumes "conf_step\<^sup>*\<^sup>* (tracker_new max_inflight) t" "cf_incoming (pt_conf t) \<noteq> []"
  shows "\<exists>t'. restore (tracker_new m) n (to_conf_state (pt_conf t)) = Inr t' \<and>
    sets_of (pt_conf t') = sets_of (pt_conf t) \<and> cf_auto_leave (pt_conf t') = cf_auto_leave (pt_conf t) \<and>
    dom (pt_progress t') = dom (pt_progress t)"
proof -
  have ok: "tracker_ok t" using assms(1) by (rule conf_reachable_ok)
  have zero: "0 \<notin> set (cf_incoming (pt_conf t))" "0 \<notin> set (cf_outgoing (pt_conf t))"
    "0 \<notin> set (cf_learners (pt_conf t))" "0 \<notin> set (cf_learners_next (pt_conf t))"
    using conf_reachable_nonzero [OF assms(1)] by (auto simp: sets_of_def)
  have "\<exists>t'. restore (tracker_new m) n (to_conf_state (pt_conf t)) = Inr t' \<and> tracker_ok t' \<and>
    sets_of (pt_conf t') = sets_of (pt_conf t) \<and> cf_auto_leave (pt_conf t') = cf_auto_leave (pt_conf t)"
  proof (cases "joint (pt_conf t)")
    case True
    then show ?thesis
      using restore_joint [of _ _ _ _ m n] zero ok assms(2)
      by (auto simp: to_conf_state_def sets_of_def tracker_ok_def joint_def)
  next
    case False
    have "set (cf_incoming (pt_conf t)) \<inter> set (cf_learners (pt_conf t)) = {}"
      using ok by (auto simp: tracker_ok_def wf_sets_def sets_of_def)
    from restore_simple [OF zero(1,3) this assms(2), of m n] not_joint_sets [OF ok False] show ?thesis
      by (simp add: to_conf_state_def sets_of_def)
  qed
  then show ?thesis
    using ok by (auto simp: tracker_ok_def)
qed

section \<open>A concrete run\<close>

abbreviation (input) add_node :: "u64 \<Rightarrow> conf_change_single" where
  "add_node i \<equiv> new_conf_change_single i AddNode"

definition demo_conf :: "u64 list \<Rightarrow> u64 list \<Rightarrow> configuration" where
  "demo_conf inc out =
     \<lparr>cf_voters = \<lparr>jc_incoming = inc, jc_outgoing = out\<rparr>, cf_learners = [], cf_learners_next = [],
      cf_auto_leave = out \<noteq> []\<rparr>"

definition demo_one :: progress_tracker where
  "demo_one = apply_conf (tracker_new 8) (demo_conf [1] []) [(1, MapAdd)] 1"

definition demo_two :: progress_tracker where
  "demo_two = apply_conf demo_one (demo_conf [2, 1] [1]) [(2, MapAdd)] 1"

lemmas demo_defs = simple_change_def enter_joint_def check_and_copy_def check_invariants_def changer_apply_def
  change_one_def make_voter_def init_progress_def new_conf_change_single_def incr_contains_def push_change_def
  joint_ids_def joint_def set_incoming_def set_outgoing_def symmetric_difference_def demo_conf_def
  tracker_new_def conf_new_def joint_config_new_def apply_conf_def

lemma demo_one_step: "conf_step (tracker_new 8) demo_one"
  unfolding demo_one_def
  by (rule conf_step.simple [of _ "[add_node 1]"]) (simp add: demo_defs List.insert_def)

lemma demo_two_step: "conf_step demo_one demo_two"
  unfolding demo_two_def
  by (rule conf_step.enter [of _ True "[add_node 2]"])
    (simp add: demo_one_def demo_defs List.insert_def List.union_def)

theorem conf_changes_keep_invariant_witness: "tracker_ok demo_two"
  by (rule conf_changes_keep_invariant [of 8]) (rule rtranclp.intros demo_one_step demo_two_step)+

theorem consecutive_quorums_meet_witness:
  "\<exists>v\<in>{1} \<inter> {1, 2}. joint_contains (cf_voters (pt_conf demo_one)) v \<and> joint_contains (cf_voters (pt_conf demo_two)) v"
proof (rule consecutive_quorums_meet [OF _ _ demo_two_step])
  show "conf_step\<^sup>*\<^sup>* (tracker_new 8) demo_one" using demo_one_step by (rule r_into_rtranclp)
qed (simp_all add: demo_one_def demo_two_def demo_conf_def joint_quorum_def is_quorum_def)

theorem restore_roundtrip_witness:
  "\<exists>t'. restore (tracker_new 4) 7 (to_conf_state (pt_conf demo_two)) = Inr t' \<and>
    sets_of (pt_conf t') = ({1, 2}, {1}, {}, {}) \<and> cf_auto_leave (pt_conf t') \<and> dom (pt_progress t') = {1, 2}"
proof -
  have "conf_step\<^sup>*\<^sup>* (tracker_new 8) demo_two"
    by (rule rtranclp.intros demo_one_step demo_two_step)+
  moreover have "cf_incoming (pt_conf demo_two) \<noteq> []" by (simp add: demo_two_def demo_conf_def)
  moreover have "sets_of (pt_conf demo_two) = ({1, 2}, {1}, {}, {})" "cf_auto_leave (pt_conf demo_two)"
    by (auto simp: demo_two_def demo_conf_def sets_of_def)
  moreover have "dom (pt_progress demo_two) = {1, 2}"
    by (auto simp: demo_two_def demo_one_def apply_conf_def tracker_new_def split: if_splits)
  ultimately show ?thesis
    using restore_roundtrip [of 8 demo_two 4 7] by simp
qed

end
