(* ===== verification/Raft_Log.thy ===== *)
theory Raft_Log
  imports Raft_Conf
begin

text \<open>
  The log of a raft node (\<open>third/raft-rs/src/raft_log.rs\<close>, \<open>log_unstable.rs\<close>): entries in a storage and, after
  them, entries and a snapshot that are not stored yet. The storage is the trait \<open>Storage\<close>: a record of
  its operations that every operation of the log takes as an argument. An assertion, an index out of bounds and
  \<open>fatal!\<close> are the error \<open>RaftPanic\<close>, which no caller handles; the other errors are values the callers match
  on. The size of an encoded entry (generated code) is the argument \<open>sz\<close>.
\<close>

section \<open>Entries and snapshots\<close>

datatype entry_type = EntryNormal | EntryConfChange | EntryConfChangeV2

record entry =
  en_type :: entry_type
  en_term :: u64
  en_index :: u64
  en_data :: bytes
  en_context :: bytes

record snapshot_metadata =
  md_conf_state :: conf_state
  md_index :: u64
  md_term :: u64

record raft_snapshot =
  sp_data :: bytes
  sp_metadata :: snapshot_metadata

definition entry_approximate_size :: "entry \<Rightarrow> u64" where
  "entry_approximate_size e = of_nat (length (en_data e) + length (en_context e) + 12)"

abbreviation (input) NO_LIMIT :: u64 where
  "NO_LIMIT \<equiv> - 1"

text \<open>How many entries \<open>limit_size\<close> keeps; \<open>so_far\<close> is the so_far of those before.\<close>

fun limit_count :: "(entry \<Rightarrow> u64) \<Rightarrow> u64 \<Rightarrow> u64 \<Rightarrow> entry list \<Rightarrow> nat" where
  "limit_count sz m so_far [] = 0"
| "limit_count sz m so_far (e # es) =
     (if so_far = 0 then Suc (limit_count sz m (so_far + sz e) es)
      else if so_far + sz e \<le> m then Suc (limit_count sz m (so_far + sz e) es)
      else 0)"

definition limit_size :: "(entry \<Rightarrow> u64) \<Rightarrow> entry list \<Rightarrow> u64 option \<Rightarrow> entry list" where
  "limit_size sz entries m =
     (if length entries \<le> 1 then entries
      else case m of
             None \<Rightarrow> entries
           | Some m \<Rightarrow> if m = NO_LIMIT then entries else take (limit_count sz m 0 entries) entries)"

section \<open>Storage\<close>

datatype get_entries_context =
    SendAppend u64 u64 bool
  | GenReady
  | TransferLeader
  | CommitByVote
  | EmptyContext bool

definition can_async :: "get_entries_context \<Rightarrow> bool" where
  "can_async c = (case c of SendAppend to term aggressively \<Rightarrow> True | EmptyContext b \<Rightarrow> b | _ \<Rightarrow> False)"

record 's storage =
  st_entries :: "'s \<Rightarrow> u64 \<Rightarrow> u64 \<Rightarrow> u64 option \<Rightarrow> get_entries_context \<Rightarrow> entry list raft_result"
  st_term :: "'s \<Rightarrow> u64 \<Rightarrow> u64 raft_result"
  st_first_index :: "'s \<Rightarrow> u64 raft_result"
  st_last_index :: "'s \<Rightarrow> u64 raft_result"
  st_snapshot :: "'s \<Rightarrow> u64 \<Rightarrow> u64 \<Rightarrow> 's \<times> raft_snapshot raft_result"

text \<open>\<open>unwrap\<close> and handlers that give a value for an error; a panic stays one.\<close>

definition raft_unwrap :: "'a raft_result \<Rightarrow> 'a raft_result" where
  "raft_unwrap r =
     (case r of Inl (RaftPanic m) \<Rightarrow> Inl (RaftPanic m) | Inl _ \<Rightarrow> Inl (RaftPanic ''unwrap'') | Inr x \<Rightarrow> Inr x)"

definition raft_unwrap_or :: "'a raft_result \<Rightarrow> 'a \<Rightarrow> 'a raft_result" where
  "raft_unwrap_or r d =
     (case r of Inl (RaftPanic m) \<Rightarrow> Inl (RaftPanic m) | Inl _ \<Rightarrow> Inr d | Inr x \<Rightarrow> Inr x)"

section \<open>Unstable entries\<close>

record unstable =
  us_snapshot :: "raft_snapshot option"
  us_entries :: "entry list"
  us_entries_size :: u64
  us_offset :: u64

definition snap_index :: "raft_snapshot \<Rightarrow> u64" where
  "snap_index s = md_index (sp_metadata s)"

definition snap_term :: "raft_snapshot \<Rightarrow> u64" where
  "snap_term s = md_term (sp_metadata s)"

definition unstable_new :: "u64 \<Rightarrow> unstable" where
  "unstable_new offset = \<lparr>us_snapshot = None, us_entries = [], us_entries_size = 0, us_offset = offset\<rparr>"

definition maybe_first_index :: "unstable \<Rightarrow> u64 option" where
  "maybe_first_index u = map_option (\<lambda>s. snap_index s + 1) (us_snapshot u)"

definition maybe_last_index :: "unstable \<Rightarrow> u64 option" where
  "maybe_last_index u =
     (if length (us_entries u) = 0 then map_option snap_index (us_snapshot u)
      else Some (us_offset u + of_nat (length (us_entries u)) - 1))"

definition maybe_term :: "unstable \<Rightarrow> u64 \<Rightarrow> u64 option raft_result" where
  "maybe_term u idx =
     (if idx < us_offset u
      then Inr (case us_snapshot u of
                  None \<Rightarrow> None
                | Some s \<Rightarrow> if idx = snap_index s then Some (snap_term s) else None)
      else case maybe_last_index u of
             None \<Rightarrow> Inr None
           | Some l \<Rightarrow>
               if l < idx then Inr None
               else if unat (idx - us_offset u) < length (us_entries u)
               then Inr (Some (en_term (us_entries u ! unat (idx - us_offset u))))
               else Inl (RaftPanic ''index out of bounds''))"

definition unstable_stable_entries :: "unstable \<Rightarrow> u64 \<Rightarrow> u64 \<Rightarrow> unstable raft_result" where
  "unstable_stable_entries u index term =
     (if us_snapshot u \<noteq> None then Inl (RaftPanic ''assertion failed'')
      else if us_entries u = [] then Inl (RaftPanic ''unstable.slice is empty'')
      else let entry = last (us_entries u)
           in if en_index entry \<noteq> index \<or> en_term entry \<noteq> term
              then Inl (RaftPanic ''the last one of unstable.slice has different index and term'')
              else Inr (u\<lparr>us_offset := en_index entry + 1, us_entries := [], us_entries_size := 0\<rparr>))"

definition unstable_stable_snap :: "unstable \<Rightarrow> u64 \<Rightarrow> unstable raft_result" where
  "unstable_stable_snap u index =
     (case us_snapshot u of
        Some snap \<Rightarrow>
          if snap_index snap \<noteq> index then Inl (RaftPanic ''unstable.snap has different index'')
          else Inr (u\<lparr>us_snapshot := None\<rparr>)
      | None \<Rightarrow> Inl (RaftPanic ''unstable.snap is none''))"

definition unstable_restore :: "unstable \<Rightarrow> raft_snapshot \<Rightarrow> unstable" where
  "unstable_restore u snap =
     u\<lparr>us_entries := [], us_entries_size := 0, us_offset := snap_index snap + 1, us_snapshot := Some snap\<rparr>"

definition unstable_check_outofbounds :: "unstable \<Rightarrow> u64 \<Rightarrow> u64 \<Rightarrow> unit raft_result" where
  "unstable_check_outofbounds u lo hi =
     (if hi < lo then Inl (RaftPanic ''invalid unstable.slice'')
      else let upper = us_offset u + of_nat (length (us_entries u))
           in if lo < us_offset u \<or> upper < hi then Inl (RaftPanic ''unstable.slice out of bound'')
              else Inr ())"

definition truncate_and_append :: "unstable \<Rightarrow> entry list \<Rightarrow> unstable raft_result" where
  "truncate_and_append u ents =
     (if ents = [] then Inl (RaftPanic ''index out of bounds'')
      else let after = en_index (hd ents)
           in rbind
                (if after = us_offset u + of_nat (length (us_entries u)) then Inr u
                 else if after \<le> us_offset u
                 then Inr (u\<lparr>us_offset := after, us_entries := [], us_entries_size := 0\<rparr>)
                 else rbind (unstable_check_outofbounds u (us_offset u) after) (\<lambda>_.
                      let keep = unat (after - us_offset u)
                      in Inr (u\<lparr>us_entries_size := us_entries_size u -
                                  sum_list (map entry_approximate_size (drop keep (us_entries u))),
                                us_entries := take keep (us_entries u)\<rparr>)))
                (\<lambda>u. Inr (u\<lparr>us_entries := us_entries u @ ents,
                            us_entries_size := us_entries_size u + sum_list (map entry_approximate_size ents)\<rparr>)))"

definition unstable_slice :: "unstable \<Rightarrow> u64 \<Rightarrow> u64 \<Rightarrow> entry list raft_result" where
  "unstable_slice u lo hi =
     rbind (unstable_check_outofbounds u lo hi) (\<lambda>_.
     Inr (take (unat (hi - us_offset u) - unat (lo - us_offset u)) (drop (unat (lo - us_offset u)) (us_entries u))))"

section \<open>The log\<close>

record 's raft_log =
  rl_store :: 's
  rl_unstable :: unstable
  rl_committed :: u64
  rl_persisted :: u64
  rl_applied :: u64
  rl_max_apply_unpersisted_log_limit :: u64

definition raft_log_new :: "'s storage \<Rightarrow> 's \<Rightarrow> u64 \<Rightarrow> 's raft_log raft_result" where
  "raft_log_new S store limit =
     rbind (raft_unwrap (st_first_index S store)) (\<lambda>first_index.
     rbind (raft_unwrap (st_last_index S store)) (\<lambda>last_index.
     Inr \<lparr>rl_store = store, rl_unstable = unstable_new (last_index + 1), rl_committed = first_index - 1,
          rl_persisted = last_index, rl_applied = first_index - 1, rl_max_apply_unpersisted_log_limit = limit\<rparr>))"

definition log_first_index :: "'s storage \<Rightarrow> 's raft_log \<Rightarrow> u64 raft_result" where
  "log_first_index S l =
     (case maybe_first_index (rl_unstable l) of
        Some idx \<Rightarrow> Inr idx
      | None \<Rightarrow> raft_unwrap (st_first_index S (rl_store l)))"

definition log_last_index :: "'s storage \<Rightarrow> 's raft_log \<Rightarrow> u64 raft_result" where
  "log_last_index S l =
     (case maybe_last_index (rl_unstable l) of
        Some idx \<Rightarrow> Inr idx
      | None \<Rightarrow> raft_unwrap (st_last_index S (rl_store l)))"

definition log_term :: "'s storage \<Rightarrow> 's raft_log \<Rightarrow> u64 \<Rightarrow> u64 raft_result" where
  "log_term S l idx =
     rbind (log_first_index S l) (\<lambda>first_index.
     rbind (log_last_index S l) (\<lambda>last_index.
     if idx < first_index - 1 \<or> last_index < idx then Inr 0
     else rbind (maybe_term (rl_unstable l) idx) (\<lambda>t.
          case t of
            Some term \<Rightarrow> Inr term
          | None \<Rightarrow>
              (case st_term S (rl_store l) idx of
                 Inr term \<Rightarrow> Inr term
               | Inl StoreCompacted \<Rightarrow> Inl StoreCompacted
               | Inl StoreUnavailable \<Rightarrow> Inl StoreUnavailable
               | Inl _ \<Rightarrow> Inl (RaftPanic ''unexpected error'')))))"

definition last_term :: "'s storage \<Rightarrow> 's raft_log \<Rightarrow> u64 raft_result" where
  "last_term S l = rbind (log_last_index S l) (\<lambda>i. raft_unwrap (log_term S l i))"

definition match_term :: "'s storage \<Rightarrow> 's raft_log \<Rightarrow> u64 \<Rightarrow> u64 \<Rightarrow> bool raft_result" where
  "match_term S l idx term = raft_unwrap_or (rbind (log_term S l idx) (\<lambda>t. Inr (t = term))) False"

fun find_conflict :: "'s storage \<Rightarrow> 's raft_log \<Rightarrow> entry list \<Rightarrow> u64 raft_result" where
  "find_conflict S l [] = Inr 0"
| "find_conflict S l (e # es) =
     rbind (match_term S l (en_index e) (en_term e)) (\<lambda>b.
     if \<not> b then Inr (en_index e) else find_conflict S l es)"

partial_function (option) find_conflict_loop ::
  "'s storage \<Rightarrow> 's raft_log \<Rightarrow> u64 \<Rightarrow> u64 \<Rightarrow> (u64 \<times> u64 option) raft_result option" where
  "find_conflict_loop S l term conflict_index =
     (case log_term S l conflict_index of
        Inr t \<Rightarrow>
          if term < t then find_conflict_loop S l term (conflict_index - 1)
          else Some (Inr (conflict_index, Some t))
      | Inl e \<Rightarrow>
          Some (case e of RaftPanic m \<Rightarrow> Inl (RaftPanic m) | _ \<Rightarrow> Inr (conflict_index, None)))"

definition find_conflict_by_term ::
  "'s storage \<Rightarrow> 's raft_log \<Rightarrow> u64 \<Rightarrow> u64 \<Rightarrow> (u64 \<times> u64 option) raft_result option" where
  "find_conflict_by_term S l index term =
     (case log_last_index S l of
        Inl e \<Rightarrow> Some (Inl e)
      | Inr last_index \<Rightarrow>
          if last_index < index then Some (Inr (index, None)) else find_conflict_loop S l term index)"

definition commit_to :: "'s storage \<Rightarrow> 's raft_log \<Rightarrow> u64 \<Rightarrow> 's raft_log raft_result" where
  "commit_to S l to_commit =
     (if to_commit \<le> rl_committed l then Inr l
      else rbind (log_last_index S l) (\<lambda>last_index.
      if last_index < to_commit then Inl (RaftPanic ''to_commit is out of range'')
      else Inr (l\<lparr>rl_committed := to_commit\<rparr>)))"

definition log_append :: "'s storage \<Rightarrow> 's raft_log \<Rightarrow> entry list \<Rightarrow> ('s raft_log \<times> u64) raft_result" where
  "log_append S l ents =
     (if ents = [] then rbind (log_last_index S l) (\<lambda>i. Inr (l, i))
      else let after = en_index (hd ents) - 1
           in if after < rl_committed l then Inl (RaftPanic ''after is out of range'')
              else rbind (truncate_and_append (rl_unstable l) ents) (\<lambda>u.
                   let l = l\<lparr>rl_unstable := u\<rparr>
                   in rbind (log_last_index S l) (\<lambda>i. Inr (l, i))))"

definition maybe_append ::
  "'s storage \<Rightarrow> 's raft_log \<Rightarrow> u64 \<Rightarrow> u64 \<Rightarrow> u64 \<Rightarrow> entry list \<Rightarrow> ('s raft_log \<times> (u64 \<times> u64) option) raft_result" where
  "maybe_append S l idx term committed ents =
     rbind (match_term S l idx term) (\<lambda>b.
     if b
     then rbind (find_conflict S l ents) (\<lambda>conflict_idx.
          rbind (if conflict_idx = 0 then Inr l
                 else if conflict_idx \<le> rl_committed l
                 then Inl (RaftPanic ''entry conflict with committed entry'')
                 else let start = unat (conflict_idx - (idx + 1))
                      in if length ents < start then Inl (RaftPanic ''range start index out of range'')
                         else rbind (log_append S l (drop start ents)) (\<lambda>(l, _).
                              Inr (if conflict_idx - 1 < rl_persisted l
                                   then l\<lparr>rl_persisted := conflict_idx - 1\<rparr> else l))) (\<lambda>l.
          let last_new_index = idx + of_nat (length ents)
          in rbind (commit_to S l (min committed last_new_index)) (\<lambda>l.
             Inr (l, Some (conflict_idx, last_new_index)))))
     else Inr (l, None))"

definition applied_to_unchecked :: "'s raft_log \<Rightarrow> u64 \<Rightarrow> 's raft_log" where
  "applied_to_unchecked l idx = l\<lparr>rl_applied := idx\<rparr>"

definition applied_to :: "'s raft_log \<Rightarrow> u64 \<Rightarrow> 's raft_log raft_result" where
  "applied_to l idx =
     (if idx = 0 then Inr l
      else if rl_committed l < idx \<or> idx < rl_applied l then Inl (RaftPanic ''applied is out of range'')
      else Inr (applied_to_unchecked l idx))"

definition log_stable_entries :: "'s raft_log \<Rightarrow> u64 \<Rightarrow> u64 \<Rightarrow> 's raft_log raft_result" where
  "log_stable_entries l index term =
     rbind (unstable_stable_entries (rl_unstable l) index term) (\<lambda>u. Inr (l\<lparr>rl_unstable := u\<rparr>))"

definition log_stable_snap :: "'s raft_log \<Rightarrow> u64 \<Rightarrow> 's raft_log raft_result" where
  "log_stable_snap l index =
     rbind (unstable_stable_snap (rl_unstable l) index) (\<lambda>u. Inr (l\<lparr>rl_unstable := u\<rparr>))"

definition is_up_to_date :: "'s storage \<Rightarrow> 's raft_log \<Rightarrow> u64 \<Rightarrow> u64 \<Rightarrow> bool raft_result" where
  "is_up_to_date S l last_index term =
     rbind (last_term S l) (\<lambda>t.
     if t < term then Inr True
     else if term = t then rbind (log_last_index S l) (\<lambda>i. Inr (i \<le> last_index))
     else Inr False)"

definition log_check_outofbounds :: "'s storage \<Rightarrow> 's raft_log \<Rightarrow> u64 \<Rightarrow> u64 \<Rightarrow> raft_error option raft_result" where
  "log_check_outofbounds S l low high =
     (if high < low then Inl (RaftPanic ''invalid slice'')
      else rbind (log_first_index S l) (\<lambda>first_index.
      if low < first_index then Inr (Some StoreCompacted)
      else rbind (log_last_index S l) (\<lambda>last_index.
           let len = last_index + 1 - first_index
           in if low < first_index \<or> first_index + len < high then Inl (RaftPanic ''slice out of bound'')
              else Inr None)))"

definition log_slice ::
  "(entry \<Rightarrow> u64) \<Rightarrow> 's storage \<Rightarrow> 's raft_log \<Rightarrow> u64 \<Rightarrow> u64 \<Rightarrow> u64 option \<Rightarrow> get_entries_context \<Rightarrow> entry list raft_result" where
  "log_slice sz S l low high max_size context =
     rbind (log_check_outofbounds S l low high) (\<lambda>r.
     case r of
       Some err \<Rightarrow> Inl err
     | None \<Rightarrow>
         if low = high then Inr []
         else let offset = us_offset (rl_unstable l);
                  rest = (\<lambda>ents.
                    rbind (if offset < high
                           then rbind (unstable_slice (rl_unstable l) (max low offset) high) (\<lambda>u. Inr (ents @ u))
                           else Inr ents) (\<lambda>ents. Inr (limit_size sz ents max_size)))
              in if low < offset
                 then let unstable_high = min high offset
                      in case st_entries S (rl_store l) low unstable_high max_size context of
                           Inl StoreCompacted \<Rightarrow> Inl StoreCompacted
                         | Inl LogTemporarilyUnavailable \<Rightarrow> Inl LogTemporarilyUnavailable
                         | Inl _ \<Rightarrow> Inl (RaftPanic ''entries are unavailable from storage'')
                         | Inr entries \<Rightarrow>
                             if of_nat (length entries) < unstable_high - low then Inr entries else rest entries
                 else rest [])"

definition log_entries ::
  "(entry \<Rightarrow> u64) \<Rightarrow> 's storage \<Rightarrow> 's raft_log \<Rightarrow> u64 \<Rightarrow> u64 option \<Rightarrow> get_entries_context \<Rightarrow> entry list raft_result" where
  "log_entries sz S l idx max_size context =
     rbind (log_last_index S l) (\<lambda>i.
     if i < idx then Inr [] else log_slice sz S l idx (i + 1) max_size context)"

definition applied_index_upper_bound :: "'s raft_log \<Rightarrow> u64" where
  "applied_index_upper_bound l = min (rl_committed l) (rl_persisted l + rl_max_apply_unpersisted_log_limit l)"

definition next_entries_since ::
  "(entry \<Rightarrow> u64) \<Rightarrow> 's storage \<Rightarrow> 's raft_log \<Rightarrow> u64 \<Rightarrow> u64 option \<Rightarrow> entry list option raft_result" where
  "next_entries_since sz S l since_idx max_size =
     rbind (log_first_index S l) (\<lambda>first_index.
     let offset = max (since_idx + 1) first_index;
         high = applied_index_upper_bound l + 1
     in if offset < high
        then (case log_slice sz S l offset high max_size GenReady of
                Inr vec \<Rightarrow> Inr (Some vec)
              | Inl e \<Rightarrow> Inl (RaftPanic ''next_entries''))
        else Inr None)"

definition next_entries ::
  "(entry \<Rightarrow> u64) \<Rightarrow> 's storage \<Rightarrow> 's raft_log \<Rightarrow> u64 option \<Rightarrow> entry list option raft_result" where
  "next_entries sz S l max_size = next_entries_since sz S l (rl_applied l) max_size"

definition has_next_entries_since :: "'s storage \<Rightarrow> 's raft_log \<Rightarrow> u64 \<Rightarrow> bool raft_result" where
  "has_next_entries_since S l since_idx =
     rbind (log_first_index S l) (\<lambda>first_index.
     Inr (max (since_idx + 1) first_index < applied_index_upper_bound l + 1))"

definition has_next_entries :: "'s storage \<Rightarrow> 's raft_log \<Rightarrow> bool raft_result" where
  "has_next_entries S l = has_next_entries_since S l (rl_applied l)"

definition log_snapshot :: "'s storage \<Rightarrow> 's raft_log \<Rightarrow> u64 \<Rightarrow> u64 \<Rightarrow> 's raft_log \<times> raft_snapshot raft_result" where
  "log_snapshot S l request_index to =
     (case us_snapshot (rl_unstable l) of
        Some snap \<Rightarrow>
          if request_index \<le> snap_index snap then (l, Inr snap)
          else (let (s, r) = st_snapshot S (rl_store l) request_index to in (l\<lparr>rl_store := s\<rparr>, r))
      | None \<Rightarrow> (let (s, r) = st_snapshot S (rl_store l) request_index to in (l\<lparr>rl_store := s\<rparr>, r)))"

definition maybe_commit :: "'s storage \<Rightarrow> 's raft_log \<Rightarrow> u64 \<Rightarrow> u64 \<Rightarrow> ('s raft_log \<times> bool) raft_result" where
  "maybe_commit S l max_index term =
     (if rl_committed l < max_index
      then rbind (raft_unwrap_or (rbind (log_term S l max_index) (\<lambda>t. Inr (t = term))) False) (\<lambda>b.
           if b then rbind (commit_to S l max_index) (\<lambda>l. Inr (l, True)) else Inr (l, False))
      else Inr (l, False))"

definition maybe_persist :: "'s storage \<Rightarrow> 's raft_log \<Rightarrow> u64 \<Rightarrow> u64 \<Rightarrow> ('s raft_log \<times> bool) raft_result" where
  "maybe_persist S l index term =
     (let first_update_index = (case us_snapshot (rl_unstable l) of
                                  Some s \<Rightarrow> snap_index s
                                | None \<Rightarrow> us_offset (rl_unstable l))
      in if rl_persisted l < index \<and> index < first_update_index
         then rbind (raft_unwrap_or (rbind (st_term S (rl_store l) index) (\<lambda>t. Inr (t = term))) False) (\<lambda>b.
              if b then Inr (l\<lparr>rl_persisted := index\<rparr>, True) else Inr (l, False))
         else Inr (l, False))"

definition maybe_persist_snap :: "'s raft_log \<Rightarrow> u64 \<Rightarrow> ('s raft_log \<times> bool) raft_result" where
  "maybe_persist_snap l index =
     (if rl_persisted l < index
      then if rl_committed l < index then Inl (RaftPanic ''snapshot's index > committed'')
           else if us_offset (rl_unstable l) \<le> index then Inl (RaftPanic ''snapshot's index >= offset'')
           else Inr (l\<lparr>rl_persisted := index\<rparr>, True)
      else Inr (l, False))"

definition log_restore :: "'s raft_log \<Rightarrow> raft_snapshot \<Rightarrow> 's raft_log raft_result" where
  "log_restore l snapshot =
     (let index = snap_index snapshot
      in if index < rl_committed l then Inl (RaftPanic ''assertion failed'')
         else let l = (if rl_committed l < rl_persisted l then l\<lparr>rl_persisted := rl_committed l\<rparr> else l)
              in Inr (l\<lparr>rl_committed := index, rl_unstable := unstable_restore (rl_unstable l) snapshot\<rparr>))"

definition commit_info :: "'s storage \<Rightarrow> 's raft_log \<Rightarrow> (u64 \<times> u64) raft_result" where
  "commit_info S l = rbind (raft_unwrap (log_term S l (rl_committed l))) (\<lambda>t. Inr (rl_committed l, t))"

end
