(* ===== verification/Log_View.thy ===== *)
theory Log_View
  imports Raft_Log
begin

text \<open>
  The log of a raft node as one list of entries. The locale \<open>log_store\<close> states what the log relies on of
  the trait \<open>Storage\<close>: after a dummy position, the storage gives the terms and the entries of one
  list, numbered without gaps. The view of a log is the stored entries up to the offset of the unstable ones,
  followed by these, or the unstable ones after the pending snapshot.
\<close>

section \<open>Indexes\<close>

named_theorems index_simps \<open>comparison and difference of 64-bit indexes that are numbers\<close>

lemma index_unat [index_simps]: "a < 2 ^ 64 \<Longrightarrow> unat (word_of_nat a :: u64) = a"
  by (simp add: unat_of_nat take_bit_nat_eq_self)

lemma index_less [index_simps]:
  "a < 2 ^ 64 \<Longrightarrow> b < 2 ^ 64 \<Longrightarrow> (word_of_nat a :: u64) < word_of_nat b \<longleftrightarrow> a < b"
  by (simp add: word_less_nat_alt index_unat)

lemma index_le [index_simps]:
  "a < 2 ^ 64 \<Longrightarrow> b < 2 ^ 64 \<Longrightarrow> (word_of_nat a :: u64) \<le> word_of_nat b \<longleftrightarrow> a \<le> b"
  by (simp add: word_le_nat_alt index_unat)

lemma index_eq [index_simps]:
  "a < 2 ^ 64 \<Longrightarrow> b < 2 ^ 64 \<Longrightarrow> (word_of_nat a :: u64) = word_of_nat b \<longleftrightarrow> a = b"
  using index_unat by metis

lemma index_cases: obtains n where "(w :: u64) = word_of_nat n" "n < 2 ^ 64"
proof
  show "w = word_of_nat (unat w)" by simp
  show "unat w < 2 ^ 64" using unsigned_less [of w, where 'a = nat] by simp
qed

lemma index_diff: "b \<le> a \<Longrightarrow> (word_of_nat a :: u64) - word_of_nat b = word_of_nat (a - b)"
  by (simp add: of_nat_diff)

lemma index_add: "(word_of_nat a :: u64) + word_of_nat b = word_of_nat (a + b)"
  by simp

lemma index_Suc: "(word_of_nat a :: u64) + 1 = word_of_nat (Suc a)"
  by (simp add: add.commute)

lemma index_add_unat: "unat a + unat b < 2 ^ 64 \<Longrightarrow> unat (a + b :: u64) = unat a + unat b"
  using index_unat [of "unat a + unat b"] by simp

section \<open>What the log relies on of the storage\<close>

locale log_store =
  fixes S :: "'s storage"
    and dummy :: "'s \<Rightarrow> nat"
    and dterm :: "'s \<Rightarrow> u64 option"
    and ents :: "'s \<Rightarrow> entry list"
    and wfs :: "'s \<Rightarrow> bool"
  assumes bounded: "wfs s \<Longrightarrow> dummy s + length (ents s) + 1 < 2 ^ 64"
    and numbered: "wfs s \<Longrightarrow> i < length (ents s) \<Longrightarrow> en_index (ents s ! i) = word_of_nat (dummy s + 1 + i)"
    and first: "wfs s \<Longrightarrow> st_first_index S s = Inr (word_of_nat (dummy s + 1))"
    and last: "wfs s \<Longrightarrow> st_last_index S s = Inr (word_of_nat (dummy s + length (ents s)))"
    and term_at: "wfs s \<Longrightarrow> i < length (ents s) \<Longrightarrow>
      st_term S s (word_of_nat (dummy s + 1 + i)) = Inr (en_term (ents s ! i))"
    and term_dummy: "wfs s \<Longrightarrow>
      st_term S s (word_of_nat (dummy s)) = (case dterm s of None \<Rightarrow> Inl StoreCompacted | Some t \<Rightarrow> Inr t)"
    and entries: "wfs s \<Longrightarrow> i < j \<Longrightarrow> j \<le> length (ents s) \<Longrightarrow>
      (can_async ctx \<and> st_entries S s (word_of_nat (dummy s + 1 + i)) (word_of_nat (dummy s + 1 + j)) m ctx =
         Inl LogTemporarilyUnavailable) \<or>
      (\<exists>k>0. k \<le> j - i \<and> (m = None \<longrightarrow> k = j - i) \<and>
         st_entries S s (word_of_nat (dummy s + 1 + i)) (word_of_nat (dummy s + 1 + j)) m ctx =
           Inr (take k (drop i (ents s))))"

section \<open>The view of a log\<close>

definition view_dummy :: "('s \<Rightarrow> nat) \<Rightarrow> 's raft_log \<Rightarrow> nat" where
  "view_dummy dummy l =
     (case us_snapshot (rl_unstable l) of Some s \<Rightarrow> unat (snap_index s) | None \<Rightarrow> dummy (rl_store l))"

definition view_dterm :: "('s \<Rightarrow> u64 option) \<Rightarrow> 's raft_log \<Rightarrow> u64 option" where
  "view_dterm dterm l =
     (case us_snapshot (rl_unstable l) of Some s \<Rightarrow> Some (snap_term s) | None \<Rightarrow> dterm (rl_store l))"

definition stable_part :: "('s \<Rightarrow> nat) \<Rightarrow> ('s \<Rightarrow> entry list) \<Rightarrow> 's raft_log \<Rightarrow> entry list" where
  "stable_part dummy ents l =
     (case us_snapshot (rl_unstable l) of
        Some s \<Rightarrow> []
      | None \<Rightarrow> take (unat (us_offset (rl_unstable l)) - (dummy (rl_store l) + 1)) (ents (rl_store l)))"

definition view_ents :: "('s \<Rightarrow> nat) \<Rightarrow> ('s \<Rightarrow> entry list) \<Rightarrow> 's raft_log \<Rightarrow> entry list" where
  "view_ents dummy ents l = stable_part dummy ents l @ us_entries (rl_unstable l)"

definition consecutive :: "nat \<Rightarrow> entry list \<Rightarrow> bool" where
  "consecutive n es \<longleftrightarrow> (\<forall>i<length es. en_index (es ! i) = word_of_nat (n + i))"

definition log_shape :: "('s \<Rightarrow> nat) \<Rightarrow> ('s \<Rightarrow> entry list) \<Rightarrow> ('s \<Rightarrow> bool) \<Rightarrow> 's raft_log \<Rightarrow> bool" where
  "log_shape dummy ents wfs l \<longleftrightarrow>
     wfs (rl_store l) \<and>
     unat (us_offset (rl_unstable l)) = view_dummy dummy l + 1 + length (stable_part dummy ents l) \<and>
     consecutive (unat (us_offset (rl_unstable l))) (us_entries (rl_unstable l)) \<and>
     unat (us_offset (rl_unstable l)) + length (us_entries (rl_unstable l)) < 2 ^ 64 \<and>
     (us_snapshot (rl_unstable l) = None \<longrightarrow> us_entries (rl_unstable l) = [] \<longrightarrow>
        length (stable_part dummy ents l) = length (ents (rl_store l)))"

definition log_ok :: "('s \<Rightarrow> nat) \<Rightarrow> ('s \<Rightarrow> entry list) \<Rightarrow> ('s \<Rightarrow> bool) \<Rightarrow> 's raft_log \<Rightarrow> bool" where
  "log_ok dummy ents wfs l \<longleftrightarrow> log_shape dummy ents wfs l \<and>
     view_dummy dummy l \<le> unat (rl_committed l) \<and>
     unat (rl_committed l) \<le> view_dummy dummy l + length (view_ents dummy ents l) \<and>
     rl_persisted l < us_offset (rl_unstable l) \<and> rl_applied l \<le> rl_committed l"

lemma view_committed [simp]:
  "view_dummy dummy (l\<lparr>rl_committed := c\<rparr>) = view_dummy dummy l"
  "view_dterm dterm (l\<lparr>rl_committed := c\<rparr>) = view_dterm dterm l"
  "stable_part dummy ents (l\<lparr>rl_committed := c\<rparr>) = stable_part dummy ents l"
  "view_ents dummy ents (l\<lparr>rl_committed := c\<rparr>) = view_ents dummy ents l"
  "log_shape dummy ents wfs (l\<lparr>rl_committed := c\<rparr>) = log_shape dummy ents wfs l"
  by (cases "us_snapshot (rl_unstable l)";
      simp add: view_dummy_def view_dterm_def stable_part_def view_ents_def log_shape_def)+

lemma view_persisted [simp]:
  "view_dummy dummy (l\<lparr>rl_persisted := c\<rparr>) = view_dummy dummy l"
  "view_dterm dterm (l\<lparr>rl_persisted := c\<rparr>) = view_dterm dterm l"
  "stable_part dummy ents (l\<lparr>rl_persisted := c\<rparr>) = stable_part dummy ents l"
  "view_ents dummy ents (l\<lparr>rl_persisted := c\<rparr>) = view_ents dummy ents l"
  "log_shape dummy ents wfs (l\<lparr>rl_persisted := c\<rparr>) = log_shape dummy ents wfs l"
  by (cases "us_snapshot (rl_unstable l)";
      simp add: view_dummy_def view_dterm_def stable_part_def view_ents_def log_shape_def)+

lemma view_applied [simp]:
  "view_dummy dummy (l\<lparr>rl_applied := c\<rparr>) = view_dummy dummy l"
  "view_dterm dterm (l\<lparr>rl_applied := c\<rparr>) = view_dterm dterm l"
  "stable_part dummy ents (l\<lparr>rl_applied := c\<rparr>) = stable_part dummy ents l"
  "view_ents dummy ents (l\<lparr>rl_applied := c\<rparr>) = view_ents dummy ents l"
  "log_shape dummy ents wfs (l\<lparr>rl_applied := c\<rparr>) = log_shape dummy ents wfs l"
  by (cases "us_snapshot (rl_unstable l)";
      simp add: view_dummy_def view_dterm_def stable_part_def view_ents_def log_shape_def)+

lemma consecutive_append:
  "consecutive n (xs @ ys) \<longleftrightarrow> consecutive n xs \<and> consecutive (n + length xs) ys"
proof (intro iffI conjI)
  assume a: "consecutive n (xs @ ys)"
  show "consecutive n xs" unfolding consecutive_def
  proof (intro allI impI)
    fix i assume "i < length xs"
    with a [unfolded consecutive_def, rule_format, of i] show "en_index (xs ! i) = word_of_nat (n + i)"
      by (simp add: nth_append)
  qed
  show "consecutive (n + length xs) ys" unfolding consecutive_def
  proof (intro allI impI)
    fix i assume "i < length ys"
    with a [unfolded consecutive_def, rule_format, of "length xs + i"]
    show "en_index (ys ! i) = word_of_nat (n + length xs + i)" by (simp add: nth_append add.assoc)
  qed
next
  assume "consecutive n xs \<and> consecutive (n + length xs) ys"
  then show "consecutive n (xs @ ys)"
    by (auto simp: consecutive_def nth_append)
qed

lemma consecutive_take: "consecutive n xs \<Longrightarrow> consecutive n (take k xs)"
  by (simp add: consecutive_def)

lemma consecutive_drop: "consecutive n xs \<Longrightarrow> consecutive (n + k) (drop k xs)"
  by (auto simp: consecutive_def add.assoc)

lemma consecutive_Nil: "consecutive n []"
  by (simp add: consecutive_def)

lemma consecutive_Cons:
  "consecutive n (e # es) \<longleftrightarrow> en_index e = word_of_nat n \<and> consecutive (Suc n) es"
  using consecutive_append [of n "[e]" es] by (simp add: consecutive_def)

lemma offset_eq:
  assumes "log_shape dummy ents wfs l"
  shows "us_offset (rl_unstable l) = word_of_nat (view_dummy dummy l + 1 + length (stable_part dummy ents l))"
proof -
  have "us_offset (rl_unstable l) = word_of_nat (unat (us_offset (rl_unstable l)))" by simp
  also have "\<dots> = word_of_nat (view_dummy dummy l + 1 + length (stable_part dummy ents l))"
    using assms by (simp only: log_shape_def)
  finally show ?thesis .
qed

lemma log_shapeI:
  assumes "unat (us_offset (rl_unstable l)) = n" "wfs (rl_store l)"
    "n = view_dummy dummy l + 1 + length (stable_part dummy ents l)"
    "consecutive n (us_entries (rl_unstable l))" "n + length (us_entries (rl_unstable l)) < 2 ^ 64"
    "us_snapshot (rl_unstable l) = None \<Longrightarrow> us_entries (rl_unstable l) = [] \<Longrightarrow>
      length (stable_part dummy ents l) = length (ents (rl_store l))"
  shows "log_shape dummy ents wfs l"
  using assms by (simp add: log_shape_def)

text \<open>Where new entries first differ from the old ones, or go beyond them.\<close>

fun conflict_at :: "entry list \<Rightarrow> entry list \<Rightarrow> nat option" where
  "conflict_at old [] = None"
| "conflict_at [] (e # es) = Some 0"
| "conflict_at (x # xs) (e # es) =
     (if en_term x = en_term e then map_option Suc (conflict_at xs es) else Some 0)"

lemma conflict_at_None:
  "conflict_at old new = None \<Longrightarrow> length new \<le> length old \<and> map en_term (take (length new) old) = map en_term new"
  by (induction old new rule: conflict_at.induct) (auto split: if_splits)

lemma conflict_at_Some:
  "conflict_at old new = Some j \<Longrightarrow> j < length new \<and> j \<le> length old \<and> map en_term (take j old) = map en_term (take j new)"
  by (induction old new arbitrary: j rule: conflict_at.induct) (auto split: if_splits)

context log_store
begin

lemma store_consecutive: "wfs s \<Longrightarrow> consecutive (dummy s + 1) (ents s)"
  by (simp add: consecutive_def numbered)

lemma view_bounded:
  assumes "log_shape dummy ents wfs l"
  shows "view_dummy dummy l + 1 + length (view_ents dummy ents l) < 2 ^ 64"
  using assms by (simp add: log_shape_def view_ents_def)

lemma view_consecutive:
  assumes "log_shape dummy ents wfs l"
  shows "consecutive (view_dummy dummy l + 1) (view_ents dummy ents l)"
proof -
  have "consecutive (view_dummy dummy l + 1) (stable_part dummy ents l)"
    using assms store_consecutive
    by (auto simp: log_shape_def stable_part_def view_dummy_def consecutive_def split: option.split)
  then show ?thesis
    using assms by (auto simp: view_ents_def consecutive_append log_shape_def)
qed

lemma first_index:
  assumes "log_shape dummy ents wfs l"
  shows "log_first_index S l = Inr (word_of_nat (view_dummy dummy l + 1))"
  using assms first
  by (auto simp: log_first_index_def maybe_first_index_def view_dummy_def log_shape_def raft_unwrap_def
      add.commute split: option.split)

lemma last_index:
  assumes "log_shape dummy ents wfs l"
  shows "log_last_index S l = Inr (word_of_nat (view_dummy dummy l + length (view_ents dummy ents l)))"
proof -
  let ?u = "rl_unstable l"
  have off: "us_offset ?u = word_of_nat (view_dummy dummy l + 1 + length (stable_part dummy ents l))"
    using assms by (rule offset_eq)
  show ?thesis
  proof (cases "us_entries ?u = []")
    case False
    then have "us_offset ?u + word_of_nat (length (us_entries ?u)) - 1 =
      word_of_nat (view_dummy dummy l + length (view_ents dummy ents l))"
      by (simp add: off view_ents_def)
    with False show ?thesis by (simp add: log_last_index_def maybe_last_index_def)
  next
    case True
    show ?thesis
    proof (cases "us_snapshot ?u")
      case (Some s)
      with True show ?thesis
        by (simp add: log_last_index_def maybe_last_index_def view_ents_def stable_part_def view_dummy_def)
    next
      case None
      with True assms show ?thesis
        by (simp add: log_last_index_def maybe_last_index_def view_ents_def view_dummy_def log_shape_def
            last raft_unwrap_def)
    qed
  qed
qed

lemma log_term_out:
  assumes "log_shape dummy ents wfs l" "n < 2 ^ 64"
    "n < view_dummy dummy l \<or> view_dummy dummy l + length (view_ents dummy ents l) < n"
  shows "log_term S l (word_of_nat n) = Inr 0"
proof -
  have "word_of_nat n < (word_of_nat (view_dummy dummy l) :: u64) \<or>
    word_of_nat (view_dummy dummy l + length (view_ents dummy ents l)) < (word_of_nat n :: u64)"
    using assms(2,3) view_bounded [OF assms(1)] by (auto simp: index_less simp del: of_nat_add)
  then show ?thesis
    using assms(1) by (simp add: log_term_def first_index last_index)
qed

lemma log_term_in:
  assumes "log_shape dummy ents wfs l"
    "view_dummy dummy l \<le> n" "n \<le> view_dummy dummy l + length (view_ents dummy ents l)"
  shows "log_term S l (word_of_nat n) =
    rbind (maybe_term (rl_unstable l) (word_of_nat n)) (\<lambda>t.
          case t of
            Some term \<Rightarrow> Inr term
          | None \<Rightarrow>
              (case st_term S (rl_store l) (word_of_nat n) of
                 Inr term \<Rightarrow> Inr term
               | Inl StoreCompacted \<Rightarrow> Inl StoreCompacted
               | Inl StoreUnavailable \<Rightarrow> Inl StoreUnavailable
               | Inl _ \<Rightarrow> Inl (RaftPanic ''unexpected error'')))"
proof -
  have "\<not> word_of_nat n < (word_of_nat (view_dummy dummy l) :: u64)"
    "\<not> word_of_nat (view_dummy dummy l + length (view_ents dummy ents l)) < (word_of_nat n :: u64)"
    using assms(2,3) view_bounded [OF assms(1)] by (auto simp: index_less simp del: of_nat_add)
  then show ?thesis
    using assms(1) by (simp add: log_term_def first_index last_index)
qed

lemma log_term_dummy:
  assumes "log_shape dummy ents wfs l"
  shows "log_term S l (word_of_nat (view_dummy dummy l)) =
    (case view_dterm dterm l of None \<Rightarrow> Inl StoreCompacted | Some t \<Rightarrow> Inr t)"
proof -
  have less: "word_of_nat (view_dummy dummy l) < us_offset (rl_unstable l)"
    using view_bounded [OF assms] unfolding offset_eq [OF assms]
    by (subst index_less) (simp_all add: view_ents_def)
  show ?thesis
  proof (cases "us_snapshot (rl_unstable l)")
    case None
    with assms less show ?thesis
      by (simp add: log_term_in maybe_term_def)
        (auto simp: view_dterm_def view_dummy_def log_shape_def term_dummy split: option.split)
  next
    case (Some s)
    then have "word_of_nat (view_dummy dummy l) = snap_index s" by (simp add: view_dummy_def)
    with less Some show ?thesis
      by (subst log_term_in [OF assms]) (simp_all add: maybe_term_def view_dterm_def)
  qed
qed

lemma log_term_at:
  assumes "log_shape dummy ents wfs l" "i < length (view_ents dummy ents l)"
  shows "log_term S l (word_of_nat (view_dummy dummy l + 1 + i)) = Inr (en_term (view_ents dummy ents l ! i))"
proof (cases "i < length (stable_part dummy ents l)")
  case True
  then have none: "us_snapshot (rl_unstable l) = None"
    by (auto simp: stable_part_def split: option.splits)
  then have i: "i < length (ents (rl_store l))" "view_ents dummy ents l ! i = ents (rl_store l) ! i"
    using True by (auto simp: stable_part_def view_ents_def nth_append)
  have less: "word_of_nat (view_dummy dummy l + 1 + i) < us_offset (rl_unstable l)"
    using view_bounded [OF assms(1)] True unfolding offset_eq [OF assms(1)]
    by (subst index_less) (simp_all add: view_ents_def)
  have "st_term S (rl_store l) (word_of_nat (view_dummy dummy l + 1 + i)) = Inr (en_term (ents (rl_store l) ! i))"
    using term_at [of "rl_store l" i] i assms(1) none by (simp add: log_shape_def view_dummy_def)
  with less none i assms(2) show ?thesis
    by (subst log_term_in [OF assms(1)]) (simp_all add: maybe_term_def)
next
  case False
  let ?u = "rl_unstable l"
  let ?n = "view_dummy dummy l + 1 + length (stable_part dummy ents l)"
  let ?j = "i - length (stable_part dummy ents l)"
  have j: "?j < length (us_entries ?u)" "view_ents dummy ents l ! i = us_entries ?u ! ?j"
    "view_dummy dummy l + 1 + i = ?n + ?j"
    using False assms(2) by (auto simp: view_ents_def nth_append)
  have bound: "?n + length (us_entries ?u) < 2 ^ 64"
    using view_bounded [OF assms(1)] by (simp add: view_ents_def)
  have off: "us_offset ?u = word_of_nat ?n" using assms(1) by (rule offset_eq)
  have diff: "word_of_nat (?n + ?j) - us_offset ?u = word_of_nat ?j" by (simp add: off)
  have "\<not> word_of_nat (?n + ?j) < us_offset ?u"
    unfolding off using bound j(1) by (subst index_less) simp_all
  moreover have "maybe_last_index ?u = Some (word_of_nat (?n + length (us_entries ?u) - 1))"
    using j(1) by (auto simp: maybe_last_index_def off of_nat_diff)
  moreover have "\<not> word_of_nat (?n + length (us_entries ?u) - 1) < (word_of_nat (?n + ?j) :: u64)"
    using bound j(1) by (subst index_less) simp_all
  moreover have "unat (word_of_nat ?j :: u64) = ?j"
    using bound j(1) by (intro index_unat) simp
  ultimately have "maybe_term ?u (word_of_nat (?n + ?j)) = Inr (Some (en_term (us_entries ?u ! ?j)))"
    using j(1) by (simp only: maybe_term_def diff) simp
  then show ?thesis
    using assms(2) j(1) unfolding j(2,3)
    by (subst log_term_in [OF assms(1)]) (simp_all del: of_nat_add, simp_all add: view_ents_def)
qed

lemma match_term_at:
  assumes "log_shape dummy ents wfs l" "i < length (view_ents dummy ents l)"
  shows "match_term S l (word_of_nat (view_dummy dummy l + 1 + i)) t = Inr (en_term (view_ents dummy ents l ! i) = t)"
  by (simp only: match_term_def log_term_at [OF assms]) (simp add: raft_unwrap_or_def)

lemma match_term_out:
  assumes "log_shape dummy ents wfs l" "n < 2 ^ 64"
    "n < view_dummy dummy l \<or> view_dummy dummy l + length (view_ents dummy ents l) < n"
  shows "match_term S l (word_of_nat n) t = Inr (t = 0)"
  by (simp only: match_term_def log_term_out [OF assms]) (auto simp: raft_unwrap_or_def)

lemma match_term_dummy:
  assumes "log_shape dummy ents wfs l"
  shows "match_term S l (word_of_nat (view_dummy dummy l)) t = Inr (view_dterm dterm l = Some t)"
  by (auto simp: match_term_def log_term_dummy [OF assms] raft_unwrap_or_def split: option.split)

lemma find_conflict:
  assumes "log_shape dummy ents wfs l" "m \<le> length (view_ents dummy ents l)"
    "consecutive (view_dummy dummy l + 1 + m) new" "view_dummy dummy l + 1 + m + length new < 2 ^ 64"
    "\<forall>e\<in>set new. en_term e \<noteq> 0"
  shows "find_conflict S l new =
    Inr (case conflict_at (drop m (view_ents dummy ents l)) new of
           None \<Rightarrow> 0 | Some j \<Rightarrow> word_of_nat (view_dummy dummy l + 1 + m + j))"
  using assms(2-)
proof (induction new arbitrary: m)
  case (Cons e es)
  let ?v = "view_ents dummy ents l"
  have e: "en_index e = word_of_nat (view_dummy dummy l + 1 + m)" "consecutive (view_dummy dummy l + 1 + Suc m) es"
    using Cons.prems(2) by (simp_all add: consecutive_Cons del: of_nat_add)
  show ?case
  proof (cases "m < length ?v")
    case True
    then have drop: "drop m ?v = ?v ! m # drop (Suc m) ?v" by (simp add: Cons_nth_drop_Suc)
    have "find_conflict S l es = Inr (case conflict_at (drop (Suc m) ?v) es of
           None \<Rightarrow> 0 | Some j \<Rightarrow> word_of_nat (view_dummy dummy l + 1 + Suc m + j))"
      using Cons.IH [of "Suc m"] e(2) Cons.prems True by simp
    then show ?thesis
      unfolding find_conflict.simps e(1) match_term_at [OF assms(1) True] drop
      by (auto simp: add.assoc split: option.split)
  next
    case False
    then have "drop m ?v = []" "m = length ?v" using Cons.prems(1) by simp_all
    then have "match_term S l (en_index e) (en_term e) = Inr False"
      unfolding e(1) using Cons.prems(3,4) by (subst match_term_out [OF assms(1)]) auto
    with \<open>drop m ?v = []\<close> e(1) show ?thesis by simp
  qed
qed simp

lemma view_same_store:
  assumes "us_snapshot u = us_snapshot (rl_unstable l)"
  shows "view_dummy dummy (l\<lparr>rl_unstable := u\<rparr>) = view_dummy dummy l"
    "view_dterm dterm (l\<lparr>rl_unstable := u\<rparr>) = view_dterm dterm l"
  using assms by (cases "us_snapshot (rl_unstable l)"; simp add: view_dummy_def view_dterm_def)+

lemma stable_part_same:
  assumes "us_snapshot u = us_snapshot (rl_unstable l)" "us_offset u = us_offset (rl_unstable l)"
  shows "stable_part dummy ents (l\<lparr>rl_unstable := u\<rparr>) = stable_part dummy ents l"
  using assms by (cases "us_snapshot (rl_unstable l)") (simp_all add: stable_part_def)

lemma truncate_view:
  assumes "log_shape dummy ents wfs l" "new \<noteq> []" "consecutive (view_dummy dummy l + 1 + k) new"
    "k \<le> length (view_ents dummy ents l)" "view_dummy dummy l + 1 + k + length new < 2 ^ 64"
  shows "\<exists>u. truncate_and_append (rl_unstable l) new = Inr u \<and> us_snapshot u = us_snapshot (rl_unstable l) \<and>
    log_shape dummy ents wfs (l\<lparr>rl_unstable := u\<rparr>) \<and>
    view_ents dummy ents (l\<lparr>rl_unstable := u\<rparr>) = take k (view_ents dummy ents l) @ new \<and>
    unat (us_offset u) = min (unat (us_offset (rl_unstable l))) (view_dummy dummy l + 1 + k)"
proof -
  let ?u = "rl_unstable l" and ?D = "view_dummy dummy l" and ?st = "stable_part dummy ents l"
  let ?n = "?D + 1 + length ?st"
  have off: "us_offset ?u = word_of_nat ?n" "unat (us_offset ?u) = ?n"
    using assms(1) by (rule offset_eq) (use assms(1) in \<open>simp add: log_shape_def\<close>)
  have after: "en_index (hd new) = word_of_nat (?D + 1 + k)"
    using assms(2,3) by (cases new) (simp_all add: consecutive_Cons)
  have bound: "?n + length (us_entries ?u) < 2 ^ 64" "?D + 1 + k < 2 ^ 64"
    using assms(1,5) by (simp_all add: log_shape_def off(2))
  have upper: "us_offset ?u + word_of_nat (length (us_entries ?u)) = word_of_nat (?n + length (us_entries ?u))"
    by (simp add: off(1))
  have kle: "k \<le> length ?st + length (us_entries ?u)" using assms(4) by (simp add: view_ents_def)
  have cons: "consecutive ?n (us_entries ?u)" using assms(1) by (simp add: log_shape_def off(2))
  have wfs: "wfs (rl_store l)" using assms(1) by (simp add: log_shape_def)
  consider (tail) "k = length ?st + length (us_entries ?u)" | (early) "k \<le> length ?st" "k < length ?st + length (us_entries ?u)"
    | (middle) "length ?st < k" "k < length ?st + length (us_entries ?u)"
    using kle by linarith
  then show ?thesis
  proof cases
    case tail
    have "en_index (hd new) = us_offset ?u + word_of_nat (length (us_entries ?u))"
      by (simp only: after upper tail) (simp add: add.assoc)
    then have res: "truncate_and_append ?u new = Inr (?u\<lparr>us_entries := us_entries ?u @ new,
        us_entries_size := us_entries_size ?u + sum_list (map entry_approximate_size new)\<rparr>)" (is "_ = Inr ?v")
      using assms(2) by (simp add: truncate_and_append_def)
    have st: "stable_part dummy ents (l\<lparr>rl_unstable := ?v\<rparr>) = ?st" by (rule stable_part_same) simp_all
    have "consecutive ?n (us_entries ?u @ new)"
      using cons assms(3) tail by (simp add: consecutive_append add.assoc)
    then have "log_shape dummy ents wfs (l\<lparr>rl_unstable := ?v\<rparr>)"
      using assms(5) wfs tail assms(2) view_same_store(1) [of ?v l] by (simp add: log_shape_def st off(2))
    moreover have "view_ents dummy ents (l\<lparr>rl_unstable := ?v\<rparr>) = take k (view_ents dummy ents l) @ new"
      using tail by (simp add: view_ents_def st)
    ultimately show ?thesis using res tail by (simp add: off(2))
  next
    case early
    have "en_index (hd new) \<noteq> us_offset ?u + word_of_nat (length (us_entries ?u))"
      unfolding after upper using bound early by (subst index_eq) auto
    moreover have "en_index (hd new) \<le> us_offset ?u"
      unfolding after off(1) using bound early by (subst index_le) auto
    ultimately have res: "truncate_and_append ?u new = Inr (?u\<lparr>us_offset := word_of_nat (?D + 1 + k), us_entries := new,
        us_entries_size := sum_list (map entry_approximate_size new)\<rparr>)" (is "_ = Inr ?v")
      using assms(2) by (simp add: truncate_and_append_def Let_def after del: of_nat_add)
    have offv: "unat (us_offset ?v) = ?D + 1 + k" using index_unat [OF bound(2)] by simp
    have st: "stable_part dummy ents (l\<lparr>rl_unstable := ?v\<rparr>) = take k ?st"
    proof (cases "us_snapshot ?u")
      case None
      then show ?thesis
        using early offv by (simp add: stable_part_def view_dummy_def min_absorb1)
    next
      case (Some s)
      then show ?thesis using early by (simp add: stable_part_def)
    qed
    have dv: "view_dummy dummy (l\<lparr>rl_unstable := ?v\<rparr>) = ?D" by (rule view_same_store(1)) simp
    have "log_shape dummy ents wfs (l\<lparr>rl_unstable := ?v\<rparr>)"
    proof (rule log_shapeI)
      show "unat (us_offset (rl_unstable (l\<lparr>rl_unstable := ?v\<rparr>))) = ?D + 1 + k" using offv by simp
    qed (use assms(2,3,5) wfs early in \<open>simp_all only: st dv\<close>, use early assms(2,3,5) in simp_all)
    moreover have "view_ents dummy ents (l\<lparr>rl_unstable := ?v\<rparr>) = take k (view_ents dummy ents l) @ new"
      unfolding view_ents_def st using early by simp
    ultimately show ?thesis using res early offv by (simp add: off(2) del: of_nat_add)
  next
    case middle
    let ?keep = "k - length ?st"
    have keep: "?keep < length (us_entries ?u)" "?D + 1 + k = ?n + ?keep" using middle by auto
    have "en_index (hd new) \<noteq> us_offset ?u + word_of_nat (length (us_entries ?u))"
      unfolding after upper using bound middle by (subst index_eq) auto
    moreover have "\<not> en_index (hd new) \<le> us_offset ?u"
      unfolding after off(1) using bound middle by (subst index_le) auto
    moreover have "unstable_check_outofbounds ?u (us_offset ?u) (en_index (hd new)) = Inr ()"
    proof -
      have "\<not> en_index (hd new) < us_offset ?u"
        unfolding after off(1) using bound middle by (subst index_less) auto
      moreover have "\<not> word_of_nat (?n + length (us_entries ?u)) < en_index (hd new)"
        unfolding after using bound middle by (subst index_less) auto
      ultimately show ?thesis by (simp add: unstable_check_outofbounds_def upper del: of_nat_add)
    qed
    moreover have "unat (en_index (hd new) - us_offset ?u) = ?keep"
    proof -
      have "en_index (hd new) - us_offset ?u = word_of_nat ?keep"
        unfolding after off(1) keep(2) by simp
      then show ?thesis using bound keep(1) by (simp add: index_unat)
    qed
    ultimately have res: "truncate_and_append ?u new = Inr (?u\<lparr>us_entries := take ?keep (us_entries ?u) @ new,
        us_entries_size := us_entries_size ?u - sum_list (map entry_approximate_size (drop ?keep (us_entries ?u))) +
          sum_list (map entry_approximate_size new)\<rparr>)" (is "_ = Inr ?v")
      using assms(2) by (simp add: truncate_and_append_def Let_def)
    have st: "stable_part dummy ents (l\<lparr>rl_unstable := ?v\<rparr>) = ?st" by (rule stable_part_same) simp_all
    have "consecutive ?n (take ?keep (us_entries ?u) @ new)"
      using cons assms(3) keep by (simp add: consecutive_append consecutive_take min_absorb2)
    then have "log_shape dummy ents wfs (l\<lparr>rl_unstable := ?v\<rparr>)"
      using assms(2,5) wfs keep view_same_store(1) [of ?v l] by (simp add: log_shape_def st off(2) min_absorb2)
    moreover have "view_ents dummy ents (l\<lparr>rl_unstable := ?v\<rparr>) = take k (view_ents dummy ents l) @ new"
      using middle by (simp add: view_ents_def st)
    ultimately show ?thesis using res middle by (simp add: off(2))
  qed
qed

end

section \<open>Entries cut at a size\<close>

lemma limit_count_pos: "es \<noteq> [] \<Longrightarrow> 0 < limit_count sz m 0 es"
  by (cases es) simp_all

lemma limit_size_take:
  "\<exists>k\<le>length es. limit_size sz es m = take k es \<and> (es \<noteq> [] \<longrightarrow> 0 < k) \<and> (m = None \<longrightarrow> k = length es)"
proof (cases "length es \<le> 1 \<or> m = None \<or> m = Some (- 1)")
  case True
  then have "limit_size sz es m = es" by (auto simp: limit_size_def)
  then show ?thesis by (intro exI [of _ "length es"]) simp
next
  case False
  then obtain n where m: "m = Some n" "n \<noteq> - 1" by auto
  have "limit_size sz es m = take (min (limit_count sz n 0 es) (length es)) es"
    using False m by (simp add: limit_size_def min_def)
  with m limit_count_pos [of es sz n] show ?thesis
    by (intro exI [of _ "min (limit_count sz n 0 es) (length es)"]) auto
qed

lemma take_take_drop: "k \<le> n \<Longrightarrow> take k (take n (drop i xs)) = take k (drop i xs)"
  by (simp add: min_absorb1)

lemma limit_size_prefix:
  assumes "i < j" "j \<le> length xs"
  shows "\<exists>k>0. k \<le> j - i \<and> (m = None \<longrightarrow> k = j - i) \<and>
    limit_size sz (take (j - i) (drop i xs)) m = take k (drop i xs)"
proof -
  obtain k where k: "k \<le> length (take (j - i) (drop i xs))"
    "limit_size sz (take (j - i) (drop i xs)) m = take k (take (j - i) (drop i xs))"
    "take (j - i) (drop i xs) \<noteq> [] \<longrightarrow> 0 < k" "m = None \<longrightarrow> k = length (take (j - i) (drop i xs))"
    using limit_size_take [of "take (j - i) (drop i xs)" sz m] by blast
  have len: "length (take (j - i) (drop i xs)) = j - i" using assms by simp
  then have "take (j - i) (drop i xs) \<noteq> []" using assms by (metis list.size(3) zero_less_diff less_numeral_extra(3))
  with k len show ?thesis
    by (intro exI [of _ k]) (simp add: take_take_drop)
qed

end
