(* ===== verification/Mem_Storage.thy ===== *)
theory Mem_Storage
  imports Log_View
begin

text \<open>
  The storage of raft-rs that keeps the log in memory (\<open>third/raft-rs/src/storage.rs\<close>), and that it is a
  storage the log can rely on: the interpretation \<open>memlog\<close> of \<open>log_store\<close>. The lock around the state is
  not part of the model: every operation takes it once, for all of its work.
\<close>

section \<open>State\<close>

record hard_state =
  hs_term :: u64
  hs_vote :: u64
  hs_commit :: u64

definition default_conf_state :: conf_state where
  "default_conf_state =
     \<lparr>cs_voters = [], cs_learners = [], cs_voters_outgoing = [], cs_learners_next = [], cs_auto_leave = False\<rparr>"

record raft_state =
  rs_hard_state :: hard_state
  rs_conf_state :: conf_state

definition raft_state_initialized :: "raft_state \<Rightarrow> bool" where
  "raft_state_initialized s \<longleftrightarrow> rs_conf_state s \<noteq> default_conf_state"

record mem_storage =
  ms_raft_state :: raft_state
  ms_entries :: "entry list"
  ms_snapshot_metadata :: snapshot_metadata
  ms_trigger_snap_unavailable :: bool
  ms_trigger_log_unavailable :: bool
  ms_get_entries_context :: "get_entries_context option"

definition mem_new :: mem_storage where
  "mem_new = \<lparr>ms_raft_state = \<lparr>rs_hard_state = \<lparr>hs_term = 0, hs_vote = 0, hs_commit = 0\<rparr>,
                              rs_conf_state = default_conf_state\<rparr>,
     ms_entries = [], ms_snapshot_metadata = \<lparr>md_conf_state = default_conf_state, md_index = 0, md_term = 0\<rparr>,
     ms_trigger_snap_unavailable = False, ms_trigger_log_unavailable = False, ms_get_entries_context = None\<rparr>"

section \<open>Operations\<close>

definition set_hardstate :: "mem_storage \<Rightarrow> hard_state \<Rightarrow> mem_storage" where
  "set_hardstate m hs = m\<lparr>ms_raft_state := (ms_raft_state m)\<lparr>rs_hard_state := hs\<rparr>\<rparr>"

definition set_conf_state :: "mem_storage \<Rightarrow> conf_state \<Rightarrow> mem_storage" where
  "set_conf_state m cs = m\<lparr>ms_raft_state := (ms_raft_state m)\<lparr>rs_conf_state := cs\<rparr>\<rparr>"

definition initialize_with_conf_state :: "mem_storage \<Rightarrow> conf_state \<Rightarrow> mem_storage raft_result" where
  "initialize_with_conf_state m cs =
     (if raft_state_initialized (ms_raft_state m) then Inl (RaftPanic ''assertion failed'')
      else Inr (set_conf_state m cs))"

definition mem_first_index :: "mem_storage \<Rightarrow> u64" where
  "mem_first_index m =
     (case ms_entries m of e # es \<Rightarrow> en_index e | [] \<Rightarrow> md_index (ms_snapshot_metadata m) + 1)"

definition mem_last_index :: "mem_storage \<Rightarrow> u64" where
  "mem_last_index m =
     (if ms_entries m = [] then md_index (ms_snapshot_metadata m) else en_index (last (ms_entries m)))"

definition has_entry_at :: "mem_storage \<Rightarrow> u64 \<Rightarrow> bool" where
  "has_entry_at m index \<longleftrightarrow> ms_entries m \<noteq> [] \<and> mem_first_index m \<le> index \<and> index \<le> mem_last_index m"

text \<open>Indexing a vector: out of bounds it panics.\<close>

definition vec_index :: "'a list \<Rightarrow> u64 \<Rightarrow> 'a raft_result" where
  "vec_index xs i = (if unat i < length xs then Inr (xs ! unat i) else Inl (RaftPanic ''index out of bounds''))"

definition mem_commit_to :: "mem_storage \<Rightarrow> u64 \<Rightarrow> mem_storage raft_result" where
  "mem_commit_to m index =
     (if \<not> has_entry_at m index then Inl (RaftPanic ''commit_to but the entry does not exist'')
      else rbind (vec_index (ms_entries m) 0) (\<lambda>e0.
           rbind (vec_index (ms_entries m) (index - en_index e0)) (\<lambda>e.
           Inr (set_hardstate m ((rs_hard_state (ms_raft_state m))\<lparr>hs_commit := index, hs_term := en_term e\<rparr>)))))"

definition commit_to_and_set_conf_states :: "mem_storage \<Rightarrow> u64 \<Rightarrow> conf_state option \<Rightarrow> mem_storage raft_result" where
  "commit_to_and_set_conf_states m idx cs =
     rbind (mem_commit_to m idx) (\<lambda>m. Inr (case cs of Some cs \<Rightarrow> set_conf_state m cs | None \<Rightarrow> m))"

definition mem_apply_snapshot :: "mem_storage \<Rightarrow> raft_snapshot \<Rightarrow> mem_storage raft_result" where
  "mem_apply_snapshot m snapshot =
     (let meta = sp_metadata snapshot; index = md_index meta
      in if index < mem_first_index m then Inl SnapshotOutOfDate
         else let hs = rs_hard_state (ms_raft_state m)
              in Inr (m\<lparr>ms_snapshot_metadata := meta,
                        ms_raft_state := \<lparr>rs_hard_state = hs\<lparr>hs_term := max (hs_term hs) (md_term meta), hs_commit := index\<rparr>,
                                          rs_conf_state = md_conf_state meta\<rparr>,
                        ms_entries := []\<rparr>))"

definition mem_core_snapshot :: "mem_storage \<Rightarrow> raft_snapshot raft_result" where
  "mem_core_snapshot m =
     (let index = hs_commit (rs_hard_state (ms_raft_state m)); meta = ms_snapshot_metadata m
      in rbind (if index = md_index meta then Inr (md_term meta)
                else if md_index meta < index
                then rbind (vec_index (ms_entries m) 0) (\<lambda>e0.
                     rbind (vec_index (ms_entries m) (index - en_index e0)) (\<lambda>e. Inr (en_term e)))
                else Inl (RaftPanic ''commit < snapshot_metadata.index'')) (\<lambda>t.
         Inr \<lparr>sp_data = [], sp_metadata = \<lparr>md_conf_state = rs_conf_state (ms_raft_state m), md_index = index, md_term = t\<rparr>\<rparr>))"

definition mem_compact :: "mem_storage \<Rightarrow> u64 \<Rightarrow> mem_storage raft_result" where
  "mem_compact m compact_index =
     (if compact_index \<le> mem_first_index m then Inr m
      else if mem_last_index m + 1 < compact_index then Inl (RaftPanic ''compact not received raft logs'')
      else case ms_entries m of
             [] \<Rightarrow> Inr m
           | e # es \<Rightarrow>
               let offset = unat (compact_index - en_index e)
               in if length (ms_entries m) < offset then Inl (RaftPanic ''range end index out of range'')
                  else Inr (m\<lparr>ms_entries := drop offset (ms_entries m)\<rparr>))"

definition mem_append :: "mem_storage \<Rightarrow> entry list \<Rightarrow> mem_storage raft_result" where
  "mem_append m ents =
     (case ents of
        [] \<Rightarrow> Inr m
      | e # es \<Rightarrow>
          if en_index e < mem_first_index m then Inl (RaftPanic ''overwrite compacted raft logs'')
          else if mem_last_index m + 1 < en_index e then Inl (RaftPanic ''raft logs should be continuous'')
          else let diff = unat (en_index e - mem_first_index m)
               in if length (ms_entries m) < diff then Inl (RaftPanic ''range start index out of range'')
                  else Inr (m\<lparr>ms_entries := take diff (ms_entries m) @ ents\<rparr>))"

definition trigger_snap_unavailable :: "mem_storage \<Rightarrow> mem_storage" where
  "trigger_snap_unavailable m = m\<lparr>ms_trigger_snap_unavailable := True\<rparr>"

definition trigger_log_unavailable :: "mem_storage \<Rightarrow> bool \<Rightarrow> mem_storage" where
  "trigger_log_unavailable m v = m\<lparr>ms_trigger_log_unavailable := v\<rparr>"

definition take_get_entries_context :: "mem_storage \<Rightarrow> mem_storage \<times> get_entries_context option" where
  "take_get_entries_context m = (m\<lparr>ms_get_entries_context := None\<rparr>, ms_get_entries_context m)"

section \<open>The trait\<close>

text \<open>
  A read that is put off records its context for the application; no operation of the log sees that field, so
  the record of the trait's operations has the result alone.
\<close>

definition mem_entries ::
  "(entry \<Rightarrow> u64) \<Rightarrow> mem_storage \<Rightarrow> u64 \<Rightarrow> u64 \<Rightarrow> u64 option \<Rightarrow> get_entries_context \<Rightarrow>
    mem_storage \<times> entry list raft_result" where
  "mem_entries sz m low high max_size context =
     (if low < mem_first_index m then (m, Inl StoreCompacted)
      else if mem_last_index m + 1 < high then (m, Inl (RaftPanic ''index out of bound''))
      else if ms_trigger_log_unavailable m \<and> can_async context
      then (m\<lparr>ms_get_entries_context := Some context\<rparr>, Inl LogTemporarilyUnavailable)
      else (m, rbind (vec_index (ms_entries m) 0) (\<lambda>e0.
               let lo = unat (low - en_index e0); hi = unat (high - en_index e0)
               in if hi < lo \<or> length (ms_entries m) < hi then Inl (RaftPanic ''slice out of range'')
                  else Inr (limit_size sz (take (hi - lo) (drop lo (ms_entries m))) max_size))))"

definition mem_term :: "mem_storage \<Rightarrow> u64 \<Rightarrow> u64 raft_result" where
  "mem_term m idx =
     (if idx = md_index (ms_snapshot_metadata m) then Inr (md_term (ms_snapshot_metadata m))
      else let offset = mem_first_index m
           in if idx < offset then Inl StoreCompacted
              else if mem_last_index m < idx then Inl StoreUnavailable
              else rbind (vec_index (ms_entries m) (idx - offset)) (\<lambda>e. Inr (en_term e)))"

definition mem_snapshot :: "mem_storage \<Rightarrow> u64 \<Rightarrow> u64 \<Rightarrow> mem_storage \<times> raft_snapshot raft_result" where
  "mem_snapshot m request_index to =
     (if ms_trigger_snap_unavailable m
      then (m\<lparr>ms_trigger_snap_unavailable := False\<rparr>, Inl SnapshotTemporarilyUnavailable)
      else (m, rbind (mem_core_snapshot m) (\<lambda>snap.
               Inr (if snap_index snap < request_index
                    then snap\<lparr>sp_metadata := (sp_metadata snap)\<lparr>md_index := request_index\<rparr>\<rparr> else snap))))"

definition mem_storage_ops :: "(entry \<Rightarrow> u64) \<Rightarrow> mem_storage storage" where
  "mem_storage_ops sz =
     \<lparr>st_entries = (\<lambda>m low high max_size context. snd (mem_entries sz m low high max_size context)),
      st_term = mem_term, st_first_index = (\<lambda>m. Inr (mem_first_index m)),
      st_last_index = (\<lambda>m. Inr (mem_last_index m)), st_snapshot = mem_snapshot\<rparr>"

section \<open>A storage for the log\<close>

definition mem_dummy :: "mem_storage \<Rightarrow> nat" where
  "mem_dummy m = unat (mem_first_index m) - 1"

definition mem_dterm :: "mem_storage \<Rightarrow> u64 option" where
  "mem_dterm m =
     (if mem_dummy m = unat (md_index (ms_snapshot_metadata m)) then Some (md_term (ms_snapshot_metadata m)) else None)"

definition mem_wf :: "mem_storage \<Rightarrow> bool" where
  "mem_wf m \<longleftrightarrow> 0 < mem_first_index m \<and> unat (md_index (ms_snapshot_metadata m)) \<le> mem_dummy m \<and>
     consecutive (mem_dummy m + 1) (ms_entries m) \<and> mem_dummy m + length (ms_entries m) + 1 < 2 ^ 64"

lemma index_offset: "b \<le> a \<Longrightarrow> a < 2 ^ 64 \<Longrightarrow> unat ((word_of_nat a :: u64) - word_of_nat b) = a - b"
  by (simp only: index_diff index_unat less_imp_diff_less)

lemma mem_first:
  assumes "mem_wf m"
  shows "mem_first_index m = word_of_nat (mem_dummy m + 1)"
proof -
  have "0 < unat (mem_first_index m)" using assms by (simp add: mem_wf_def word_less_nat_alt)
  then have "mem_dummy m + 1 = unat (mem_first_index m)" by (simp add: mem_dummy_def)
  then show ?thesis by simp
qed

lemma mem_dummy_Nil:
  assumes "mem_wf m" "ms_entries m = []"
  shows "md_index (ms_snapshot_metadata m) = word_of_nat (mem_dummy m)"
proof -
  have "md_index (ms_snapshot_metadata m) + 1 = word_of_nat (mem_dummy m + 1)"
    using mem_first [OF assms(1)] assms(2) by (simp only: mem_first_index_def list.case)
  then show ?thesis by simp
qed

lemma mem_last:
  assumes "mem_wf m"
  shows "mem_last_index m = word_of_nat (mem_dummy m + length (ms_entries m))"
proof (cases "ms_entries m = []")
  case True
  with mem_dummy_Nil [OF assms True] show ?thesis by (simp add: mem_last_index_def)
next
  case False
  let ?n = "length (ms_entries m) - 1"
  have "?n < length (ms_entries m)" using False by simp
  moreover have "consecutive (mem_dummy m + 1) (ms_entries m)" using assms by (simp add: mem_wf_def)
  ultimately have "en_index (ms_entries m ! ?n) = word_of_nat (mem_dummy m + 1 + ?n)" unfolding consecutive_def by blast
  moreover have "mem_dummy m + 1 + ?n = mem_dummy m + length (ms_entries m)" using False by (cases "ms_entries m") simp_all
  ultimately show ?thesis using last_conv_nth [OF False] False by (simp only: mem_last_index_def if_False)
qed

lemma mem_bounds:
  "mem_wf m \<Longrightarrow> mem_dummy m + length (ms_entries m) + 1 < 2 ^ 64"
  "mem_wf m \<Longrightarrow> i < length (ms_entries m) \<Longrightarrow> en_index (ms_entries m ! i) = word_of_nat (mem_dummy m + 1 + i)"
  by (simp_all add: mem_wf_def consecutive_def)

lemma mem_term_at:
  assumes "mem_wf m" "i < length (ms_entries m)"
  shows "mem_term m (word_of_nat (mem_dummy m + 1 + i)) = Inr (en_term (ms_entries m ! i))"
proof -
  let ?n = "mem_dummy m + 1 + i"
  note b = mem_bounds(1) [OF assms(1)]
  have u: "unat (word_of_nat ?n :: u64) = ?n" using b assms(2) by (intro index_unat) simp
  have "unat (md_index (ms_snapshot_metadata m)) \<le> mem_dummy m" using assms(1) by (simp add: mem_wf_def)
  then have "unat (word_of_nat ?n :: u64) \<noteq> unat (md_index (ms_snapshot_metadata m))" unfolding u by simp
  then have snap: "word_of_nat ?n \<noteq> md_index (ms_snapshot_metadata m)" by metis
  have lt: "\<not> (word_of_nat ?n :: u64) < word_of_nat (mem_dummy m + 1)"
    "\<not> (word_of_nat (mem_dummy m + length (ms_entries m)) :: u64) < word_of_nat ?n"
    using b assms(2) by (simp_all add: index_less del: of_nat_add of_nat_Suc)
  have "(word_of_nat ?n :: u64) - word_of_nat (mem_dummy m + 1) = word_of_nat i"
    using index_diff [of "mem_dummy m + 1" ?n] by simp
  moreover have "unat (word_of_nat i :: u64) = i" using b assms(2) by (intro index_unat) simp
  ultimately show ?thesis
    using snap lt assms(2)
    by (simp only: mem_term_def mem_first [OF assms(1)] mem_last [OF assms(1)] Let_def if_False vec_index_def
        if_True rbind_Inr)
qed

lemma mem_term_dummy:
  assumes "mem_wf m"
  shows "mem_term m (word_of_nat (mem_dummy m)) =
    (case mem_dterm m of None \<Rightarrow> Inl StoreCompacted | Some t \<Rightarrow> Inr t)"
proof -
  note b = mem_bounds(1) [OF assms]
  have u: "unat (word_of_nat (mem_dummy m) :: u64) = mem_dummy m" using b by (intro index_unat) simp
  have "word_of_nat (mem_dummy m) = md_index (ms_snapshot_metadata m) \<longleftrightarrow>
      mem_dummy m = unat (md_index (ms_snapshot_metadata m))"
    using u by (metis unsigned_word_eqI)
  moreover have "(word_of_nat (mem_dummy m) :: u64) < word_of_nat (mem_dummy m + 1)"
    using b by (simp add: index_less del: of_nat_add of_nat_Suc)
  ultimately show ?thesis
    by (simp only: mem_term_def mem_dterm_def mem_first [OF assms] Let_def) simp
qed

lemma mem_entries_at:
  assumes "mem_wf m" "i < j" "j \<le> length (ms_entries m)"
  shows "(can_async ctx \<and> snd (mem_entries sz m (word_of_nat (mem_dummy m + 1 + i)) (word_of_nat (mem_dummy m + 1 + j)) mx ctx) =
         Inl LogTemporarilyUnavailable) \<or>
      (\<exists>k>0. k \<le> j - i \<and> (mx = None \<longrightarrow> k = j - i) \<and>
         snd (mem_entries sz m (word_of_nat (mem_dummy m + 1 + i)) (word_of_nat (mem_dummy m + 1 + j)) mx ctx) =
           Inr (take k (drop i (ms_entries m))))"
proof -
  let ?lo = "mem_dummy m + 1 + i" and ?hi = "mem_dummy m + 1 + j"
  note b = mem_bounds(1) [OF assms(1)]
  have ne: "0 < length (ms_entries m)" using assms(2,3) by linarith
  have e0: "vec_index (ms_entries m) 0 = Inr (ms_entries m ! 0)" using ne by (simp add: vec_index_def)
  have off: "en_index (ms_entries m ! 0) = word_of_nat (mem_dummy m + 1)"
    using mem_bounds(2) [OF assms(1) ne] by simp
  have last1: "mem_last_index m + 1 = word_of_nat (mem_dummy m + length (ms_entries m) + 1)"
    unfolding mem_last [OF assms(1)] by simp
  have lt: "\<not> (word_of_nat ?lo :: u64) < word_of_nat (mem_dummy m + 1)"
    "\<not> (word_of_nat (mem_dummy m + length (ms_entries m) + 1) :: u64) < word_of_nat ?hi"
    using b assms(2,3) by (simp_all add: index_less del: of_nat_add of_nat_Suc)
  have d: "unat ((word_of_nat ?lo :: u64) - word_of_nat (mem_dummy m + 1)) = i"
    "unat ((word_of_nat ?hi :: u64) - word_of_nat (mem_dummy m + 1)) = j"
    using b assms(2,3) by (simp_all add: index_diff index_unat del: of_nat_add of_nat_Suc)
  have rng: "\<not> (j < i \<or> length (ms_entries m) < j)" using assms(2,3) by simp
  show ?thesis
  proof (cases "ms_trigger_log_unavailable m \<and> can_async ctx")
    case True
    then have "snd (mem_entries sz m (word_of_nat ?lo) (word_of_nat ?hi) mx ctx) = Inl LogTemporarilyUnavailable"
      by (simp only: mem_entries_def mem_first [OF assms(1)] last1 lt if_False if_True snd_conv simp_thms)
    then show ?thesis using True by blast
  next
    case False
    have "snd (mem_entries sz m (word_of_nat ?lo) (word_of_nat ?hi) mx ctx) =
        Inr (limit_size sz (take (j - i) (drop i (ms_entries m))) mx)"
      using rng by (simp only: mem_entries_def mem_first [OF assms(1)] last1 lt if_False if_not_P [OF False] snd_conv
          e0 rbind_Inr Let_def off d)
    then show ?thesis using limit_size_prefix [OF assms(2,3), of mx sz] by auto
  qed
qed

interpretation memlog: log_store "mem_storage_ops sz" mem_dummy mem_dterm ms_entries mem_wf
proof (unfold_locales, goal_cases)
  case (1 s) then show ?case by (rule mem_bounds(1))
next
  case (2 s i) then show ?case by (rule mem_bounds(2))
next
  case (3 s) then show ?case by (simp add: mem_storage_ops_def mem_first)
next
  case (4 s) then show ?case by (simp add: mem_storage_ops_def mem_last)
next
  case (5 s i) then show ?case by (simp only: mem_storage_ops_def storage.simps mem_term_at)
next
  case (6 s) then show ?case by (simp only: mem_storage_ops_def storage.simps mem_term_dummy)
next
  case (7 s i j ctx m) then show ?case unfolding mem_storage_ops_def storage.simps by (rule mem_entries_at)
qed

section \<open>Writing to the storage\<close>

lemma mem_append_ok:
  assumes "mem_wf m" "es \<noteq> []" "consecutive n es" "mem_dummy m < n" "n \<le> mem_dummy m + 1 + length (ms_entries m)"
    "n + length es < 2 ^ 64"
  shows "\<exists>m'. mem_append m es = Inr m' \<and> mem_wf m' \<and> mem_dummy m' = mem_dummy m \<and> mem_dterm m' = mem_dterm m \<and>
    ms_entries m' = take (n - (mem_dummy m + 1)) (ms_entries m) @ es"
proof -
  let ?d = "n - (mem_dummy m + 1)"
  let ?m = "m\<lparr>ms_entries := take ?d (ms_entries m) @ es\<rparr>"
  obtain e es' where es: "es = e # es'" using assms(2) by (cases es) auto
  have e: "en_index e = word_of_nat n" using assms(3) es by (simp add: consecutive_Cons)
  note b = mem_bounds(1) [OF assms(1)]
  have last1: "mem_last_index m + 1 = word_of_nat (mem_dummy m + length (ms_entries m) + 1)"
    unfolding mem_last [OF assms(1)] by simp
  have lt: "\<not> (word_of_nat n :: u64) < word_of_nat (mem_dummy m + 1)"
    "\<not> (word_of_nat (mem_dummy m + length (ms_entries m) + 1) :: u64) < word_of_nat n"
    using b assms(4,5,6) by (simp_all add: index_less del: of_nat_add of_nat_Suc)
  have d: "unat ((word_of_nat n :: u64) - word_of_nat (mem_dummy m + 1)) = ?d"
    using assms(4,6) by (intro index_offset) linarith+
  have le: "?d \<le> length (ms_entries m)" "mem_dummy m + 1 + ?d = n" using assms(4,5) by simp_all
  have app: "mem_append m es = Inr ?m"
    unfolding mem_append_def es list.case e mem_first [OF assms(1)] last1 if_not_P [OF lt(1)] if_not_P [OF lt(2)] Let_def d
    using le(1) by simp
  have "length (take ?d (ms_entries m)) = ?d" using le(1) by simp
  then have cons: "consecutive (mem_dummy m + 1) (take ?d (ms_entries m) @ es)"
    using assms(1,3) le(2) unfolding consecutive_append mem_wf_def by (simp only: consecutive_take simp_thms)
  obtain x xs where x: "take ?d (ms_entries m) @ es = x # xs" using es by (cases "take ?d (ms_entries m) @ es") auto
  have "en_index x = word_of_nat (mem_dummy m + 1)" using cons unfolding x consecutive_Cons by simp
  moreover have "mem_first_index ?m = en_index x" unfolding x mem_first_index_def by simp
  ultimately have first: "mem_first_index ?m = mem_first_index m" by (simp only: mem_first [OF assms(1)])
  then have dummy: "mem_dummy ?m = mem_dummy m" by (simp add: mem_dummy_def)
  have "mem_wf ?m"
    using assms(1,6) cons le unfolding mem_wf_def first dummy by simp
  moreover have "mem_dterm ?m = mem_dterm m" unfolding mem_dterm_def dummy by simp
  ultimately show ?thesis using app dummy by (intro exI [of _ ?m]) simp
qed

lemma mem_compact_ok:
  assumes "mem_wf m" "mem_dummy m < n" "n \<le> mem_dummy m + length (ms_entries m)"
  shows "\<exists>m'. mem_compact m (word_of_nat n) = Inr m' \<and> mem_wf m' \<and> mem_dummy m' = n - 1 \<and>
    ms_entries m' = drop (n - 1 - mem_dummy m) (ms_entries m)"
proof (cases "n = mem_dummy m + 1")
  case True
  have "mem_compact m (word_of_nat n) = Inr m" by (simp add: mem_compact_def mem_first [OF assms(1)] True)
  with assms(1) True show ?thesis by simp
next
  case False
  let ?d = "n - 1 - mem_dummy m"
  let ?m = "m\<lparr>ms_entries := drop ?d (ms_entries m)\<rparr>"
  note b = mem_bounds(1) [OF assms(1)]
  obtain e es where es: "ms_entries m = e # es" using assms(2,3) by (cases "ms_entries m") auto
  have cons: "consecutive (mem_dummy m + 1) (ms_entries m)" using assms(1) by (simp add: mem_wf_def)
  then have e: "en_index e = word_of_nat (mem_dummy m + 1)" unfolding es by (simp only: consecutive_Cons)
  have last1: "mem_last_index m + 1 = word_of_nat (mem_dummy m + length (ms_entries m) + 1)"
    unfolding mem_last [OF assms(1)] by simp
  have lt: "\<not> (word_of_nat n :: u64) \<le> word_of_nat (mem_dummy m + 1)"
    "\<not> (word_of_nat (mem_dummy m + length (ms_entries m) + 1) :: u64) < word_of_nat n"
    using b assms(2,3) False by (simp_all add: index_less index_le del: of_nat_add of_nat_Suc)
  have d: "unat ((word_of_nat n :: u64) - word_of_nat (mem_dummy m + 1)) = ?d"
    using index_offset [of "mem_dummy m + 1" n] assms(2,3) b by (simp only: diff_diff_left add.commute)
  have len: "?d < length (ms_entries m)" using assms(2,3) by linarith
  have comp: "mem_compact m (word_of_nat n) = Inr ?m"
    unfolding mem_compact_def mem_first [OF assms(1)] last1 if_not_P [OF lt(1)] if_not_P [OF lt(2)]
    using len by (simp only: es list.case e Let_def d) simp
  have n: "mem_dummy m + 1 + ?d = n" using assms(2) by simp
  have cons': "consecutive n (drop ?d (ms_entries m))" using consecutive_drop [OF cons, of ?d] unfolding n .
  have un: "unat (word_of_nat n :: u64) = n" using b assms(3) by (intro index_unat) linarith
  have hd: "drop ?d (ms_entries m) = (ms_entries m ! ?d) # drop (Suc ?d) (ms_entries m)"
    using len by (rule Cons_nth_drop_Suc [symmetric])
  have first: "mem_first_index ?m = word_of_nat n"
    using cons' unfolding mem_first_index_def hd by (simp add: consecutive_Cons)
  have dummy: "mem_dummy ?m = n - 1" by (subst mem_dummy_def) (simp only: first un)
  have "unat (md_index (ms_snapshot_metadata m)) \<le> mem_dummy m" using assms(1) by (simp add: mem_wf_def)
  then have "mem_wf ?m"
    using assms(2) b cons' un len unfolding mem_wf_def first dummy by (simp add: word_less_nat_alt)
  with comp dummy show ?thesis by (intro exI [of _ ?m]) simp
qed


lemma mem_apply_snapshot_ok:
  assumes "mem_wf m" "mem_dummy m < unat (snap_index snap)" "unat (snap_index snap) + 1 < 2 ^ 64"
  shows "\<exists>m'. mem_apply_snapshot m snap = Inr m' \<and> mem_wf m' \<and> mem_dummy m' = unat (snap_index snap) \<and>
    mem_dterm m' = Some (snap_term snap) \<and> ms_entries m' = [] \<and>
    rs_conf_state (ms_raft_state m') = md_conf_state (sp_metadata snap) \<and>
    hs_commit (rs_hard_state (ms_raft_state m')) = snap_index snap"
proof -
  have "0 < unat (mem_first_index m)" using assms(1) by (simp add: mem_wf_def word_less_nat_alt)
  then have "\<not> snap_index snap < mem_first_index m"
    using assms(2) by (simp add: mem_dummy_def word_less_nat_alt)
  then obtain m' where m': "mem_apply_snapshot m snap = Inr m'" "ms_entries m' = []"
    "ms_snapshot_metadata m' = sp_metadata snap"
    "rs_conf_state (ms_raft_state m') = md_conf_state (sp_metadata snap)"
    "hs_commit (rs_hard_state (ms_raft_state m')) = snap_index snap"
    by (simp add: mem_apply_snapshot_def snap_index_def Let_def)
  have first: "unat (mem_first_index m') = unat (snap_index snap) + 1"
    using assms(3) unfolding mem_first_index_def m'(2,3) by (simp add: snap_index_def unat_word_ariths)
  then have dummy: "mem_dummy m' = unat (snap_index snap)" by (simp add: mem_dummy_def)
  have "mem_wf m'"
    using first assms(3) unfolding mem_wf_def dummy m'(2,3)
    by (simp add: word_less_nat_alt snap_index_def consecutive_def)
  with m' dummy show ?thesis
    by (intro exI [of _ m']) (simp add: mem_dterm_def snap_index_def snap_term_def)
qed

section \<open>Making the unstable part stable\<close>

text \<open>
  C30. Writing the unstable entries of a log to the memory storage and then telling the log that they are stable
  succeeds and changes nothing that a reader of the log sees: the log stays well-formed and holds the same entries
  after the same position, now all of them in the storage, even where they overwrite stored ones. The term of that
  position and the committed, persisted and applied indexes stay as they were.
\<close>

theorem stable_entries_keep_log:
  assumes "log_ok mem_dummy ms_entries mem_wf l"
    and "us_snapshot (rl_unstable l) = None" "us_entries (rl_unstable l) \<noteq> []"
  shows "\<exists>m l'. mem_append (rl_store l) (us_entries (rl_unstable l)) = Inr m \<and>
    log_stable_entries (l\<lparr>rl_store := m\<rparr>) (en_index (last (us_entries (rl_unstable l)))) (en_term (last (us_entries (rl_unstable l)))) = Inr l' \<and>
    log_ok mem_dummy ms_entries mem_wf l' \<and> us_entries (rl_unstable l') = [] \<and>
    ms_entries (rl_store l') = view_ents mem_dummy ms_entries l \<and>
    view_dummy mem_dummy l' = view_dummy mem_dummy l \<and> view_ents mem_dummy ms_entries l' = view_ents mem_dummy ms_entries l \<and>
    view_dterm mem_dterm l' = view_dterm mem_dterm l \<and> rl_committed l' = rl_committed l \<and>
    rl_persisted l' = rl_persisted l \<and> rl_applied l' = rl_applied l"
proof -
  let ?u = "rl_unstable l" and ?s = "rl_store l"
  let ?es = "us_entries ?u" and ?n = "unat (us_offset ?u)"
  have shape: "log_shape mem_dummy ms_entries mem_wf l" using assms(1) by (simp add: log_ok_def)
  have D: "view_dummy mem_dummy l = mem_dummy ?s" using assms(2) by (simp add: view_dummy_def)
  have st: "stable_part mem_dummy ms_entries l = take (?n - (mem_dummy ?s + 1)) (ms_entries ?s)"
    using assms(2) by (simp add: stable_part_def)
  have n: "?n = mem_dummy ?s + 1 + length (stable_part mem_dummy ms_entries l)" "mem_wf ?s" "consecutive ?n ?es" "?n + length ?es < 2 ^ 64"
    using shape unfolding log_shape_def D by blast+
  have "length (stable_part mem_dummy ms_entries l) \<le> length (ms_entries ?s)" unfolding st by simp
  with n(1) have r: "mem_dummy ?s < ?n" "?n \<le> mem_dummy ?s + 1 + length (ms_entries ?s)" by linarith+
  from mem_append_ok [OF n(2) assms(3) n(3) r n(4)] obtain m where m: "mem_append ?s ?es = Inr m" "mem_wf m"
    "mem_dummy m = mem_dummy ?s" "ms_entries m = view_ents mem_dummy ms_entries l" "mem_dterm m = mem_dterm ?s"
    by (auto simp: view_ents_def st)
  let ?e = "last ?es"
  have "en_index ?e = word_of_nat (?n + (length ?es - 1))"
    using n(3) assms(3) unfolding consecutive_def by (simp add: last_conv_nth)
  then have e1: "en_index ?e + 1 = word_of_nat (?n + length ?es)"
    using assms(3) by (cases ?es) (simp_all add: index_Suc del: of_nat_add of_nat_Suc)
  let ?l = "l\<lparr>rl_store := m, rl_unstable := ?u\<lparr>us_offset := en_index ?e + 1, us_entries := [], us_entries_size := 0\<rparr>\<rparr>"
  have stab: "log_stable_entries (l\<lparr>rl_store := m\<rparr>) (en_index ?e) (en_term ?e) = Inr ?l"
    using assms(2,3) by (simp add: log_stable_entries_def unstable_stable_entries_def Let_def)
  have len: "mem_dummy m + 1 + length (ms_entries m) = ?n + length ?es"
    using n(1) unfolding m(3,4) view_ents_def by simp
  have un: "unat (en_index ?e + 1) = ?n + length ?es" unfolding e1 using n(4) by (rule index_unat)
  have D': "view_dummy mem_dummy ?l = mem_dummy m" using assms(2) by (simp add: view_dummy_def)
  have st': "stable_part mem_dummy ms_entries ?l = ms_entries m"
    using assms(2) un len by (simp add: stable_part_def)
  then have v: "view_ents mem_dummy ms_entries ?l = ms_entries m" by (simp add: view_ents_def)
  have "log_shape mem_dummy ms_entries mem_wf ?l"
    using un len m(2) n(4) unfolding log_shape_def D' st' by (simp add: consecutive_def)
  moreover have "rl_persisted l < en_index ?e + 1"
    using assms(1) un by (simp add: log_ok_def word_less_nat_alt)
  ultimately have "log_ok mem_dummy ms_entries mem_wf ?l"
    using assms(1) D D' v m(3,4) by (simp add: log_ok_def)
  moreover have "view_dterm mem_dterm ?l = view_dterm mem_dterm l" using assms(2) m(5) by (simp add: view_dterm_def)
  ultimately show ?thesis using m(1) stab v m(3,4) D D' by (intro exI [of _ m] exI [of _ ?l]) simp
qed

text \<open>A log with two stored entries and one that is not stored yet.\<close>

definition demo_entry :: "u64 \<Rightarrow> u64 \<Rightarrow> entry" where
  "demo_entry t i = \<lparr>en_type = EntryNormal, en_term = t, en_index = i, en_data = [], en_context = []\<rparr>"

definition demo_log :: "mem_storage raft_log" where
  "demo_log =
     \<lparr>rl_store = mem_new\<lparr>ms_entries := [demo_entry 1 1, demo_entry 1 2]\<rparr>,
      rl_unstable = \<lparr>us_snapshot = None, us_entries = [demo_entry 2 3], us_entries_size = 12, us_offset = 3\<rparr>,
      rl_committed = 2, rl_persisted = 2, rl_applied = 1, rl_max_apply_unpersisted_log_limit = 0\<rparr>"

lemmas demo_simps = demo_log_def demo_entry_def mem_new_def mem_dummy_def mem_first_index_def mem_dterm_def
  view_dummy_def view_dterm_def view_ents_def stable_part_def

lemma demo_log_shape: "log_shape mem_dummy ms_entries mem_wf demo_log"
  by (simp add: log_shape_def mem_wf_def demo_simps consecutive_Cons consecutive_Nil)

lemma demo_log_ok: "log_ok mem_dummy ms_entries mem_wf demo_log"
  using demo_log_shape by (simp add: log_ok_def demo_simps)

theorem stable_entries_keep_log_witness:
  "\<exists>m l'. mem_append (rl_store demo_log) (us_entries (rl_unstable demo_log)) = Inr m \<and>
    log_stable_entries (demo_log\<lparr>rl_store := m\<rparr>) 3 2 = Inr l' \<and>
    us_entries (rl_unstable l') = [] \<and>
    ms_entries (rl_store l') = [demo_entry 1 1, demo_entry 1 2, demo_entry 2 3]"
proof -
  have d: "us_snapshot (rl_unstable demo_log) = None" "us_entries (rl_unstable demo_log) \<noteq> []"
    "en_index (last (us_entries (rl_unstable demo_log))) = 3" "en_term (last (us_entries (rl_unstable demo_log))) = 2"
    "view_ents mem_dummy ms_entries demo_log = [demo_entry 1 1, demo_entry 1 2, demo_entry 2 3]"
    by (simp_all add: demo_simps)
  show ?thesis using stable_entries_keep_log [OF demo_log_ok d(1,2), unfolded d(3-5)] by blast
qed

end
