(* ===== verification/Log_Append.thy ===== *)
theory Log_Append
  imports Mem_Storage
begin

text \<open>
  Appending to the log. A follower accepts the entries of a leader when it has the entry before them:
  what agrees is kept, the rest is replaced from the first conflict on, and nothing up to the committed
  index changes.
\<close>

context log_store
begin

lemma append_view:
  assumes "log_shape dummy ents wfs l" "new \<noteq> []" "consecutive (view_dummy dummy l + 1 + k) new"
    "k \<le> length (view_ents dummy ents l)" "view_dummy dummy l + 1 + k + length new < 2 ^ 64"
    "unat (rl_committed l) \<le> view_dummy dummy l + k"
  shows "\<exists>u i. log_append S l new = Inr (l\<lparr>rl_unstable := u\<rparr>, i) \<and> us_snapshot u = us_snapshot (rl_unstable l) \<and>
    log_shape dummy ents wfs (l\<lparr>rl_unstable := u\<rparr>) \<and>
    view_ents dummy ents (l\<lparr>rl_unstable := u\<rparr>) = take k (view_ents dummy ents l) @ new \<and>
    unat (us_offset u) = min (unat (us_offset (rl_unstable l))) (view_dummy dummy l + 1 + k)"
proof -
  obtain u where u: "truncate_and_append (rl_unstable l) new = Inr u" "us_snapshot u = us_snapshot (rl_unstable l)"
    "log_shape dummy ents wfs (l\<lparr>rl_unstable := u\<rparr>)"
    "view_ents dummy ents (l\<lparr>rl_unstable := u\<rparr>) = take k (view_ents dummy ents l) @ new"
    "unat (us_offset u) = min (unat (us_offset (rl_unstable l))) (view_dummy dummy l + 1 + k)"
    using truncate_view [OF assms(1-5)] by blast
  have after: "en_index (hd new) - 1 = word_of_nat (view_dummy dummy l + k)"
    using assms(2,3) by (cases new) (simp_all add: consecutive_Cons)
  have "\<not> en_index (hd new) - 1 < rl_committed l"
    using assms(5,6) unfolding after by (simp add: word_less_nat_alt index_unat del: of_nat_add)
  then have "log_append S l new = Inr (l\<lparr>rl_unstable := u\<rparr>,
      word_of_nat (view_dummy dummy (l\<lparr>rl_unstable := u\<rparr>) + length (view_ents dummy ents (l\<lparr>rl_unstable := u\<rparr>))))"
    using assms(2) u(1) last_index [OF u(3)] by (simp add: log_append_def Let_def)
  with u show ?thesis by blast
qed

lemma commit_to_view:
  assumes "log_shape dummy ents wfs l" "unat c \<le> view_dummy dummy l + length (view_ents dummy ents l)"
  shows "commit_to S l c = Inr (l\<lparr>rl_committed := max (rl_committed l) c\<rparr>)"
proof (cases "c \<le> rl_committed l")
  case True
  then show ?thesis by (simp add: commit_to_def max_absorb1)
next
  case False
  have "\<not> word_of_nat (view_dummy dummy l + length (view_ents dummy ents l)) < c"
    using assms(2) view_bounded [OF assms(1)] by (simp add: word_less_nat_alt index_unat del: of_nat_add)
  with False show ?thesis
    by (simp add: commit_to_def last_index [OF assms(1)] max_absorb2 del: of_nat_add)
qed

end

text \<open>What the log holds after it accepted \<open>new\<close> behind its first \<open>m\<close> entries.\<close>

definition accept :: "entry list \<Rightarrow> nat \<Rightarrow> entry list \<Rightarrow> entry list" where
  "accept old m new =
     (case conflict_at (drop m old) new of None \<Rightarrow> old | Some j \<Rightarrow> take (m + j) old @ drop j new)"

lemma accept_keeps:
  assumes "m \<le> length old"
  shows "take m (accept old m new) = take m old"
    and "i < length new \<Longrightarrow> m + i < length (accept old m new) \<and> en_term (accept old m new ! (m + i)) = en_term (new ! i)"
proof -
  show "take m (accept old m new) = take m old"
    using assms by (auto simp: accept_def min_def dest: conflict_at_Some split: option.split)
  assume i: "i < length new"
  show "m + i < length (accept old m new) \<and> en_term (accept old m new ! (m + i)) = en_term (new ! i)"
  proof (cases "conflict_at (drop m old) new")
    case None
    from conflict_at_None [OF None] i assms
    have "length new \<le> length old - m" "map en_term (take (length new) (drop m old)) ! i = map en_term new ! i"
      by simp_all
    with None i assms show ?thesis by (simp add: accept_def)
  next
    case (Some j)
    note c = conflict_at_Some [OF Some]
    show ?thesis
    proof (cases "i < j")
      case True
      from c have j: "j < length new" "j \<le> length old - m" by simp_all
      from c have "map en_term (take j (drop m old)) ! i = map en_term (take j new) ! i" by simp
      with True j have "en_term (old ! (m + i)) = en_term (new ! i)" by simp
      with True j assms Some show ?thesis
        by (auto simp: accept_def nth_append)
    next
      case False
      with c assms i Some show ?thesis
        by (auto simp: accept_def nth_append min_absorb2)
    qed
  qed
qed

context log_store
begin

lemma match_termD:
  assumes "log_shape dummy ents wfs l" "match_term S l idx t = Inr True" "t \<noteq> 0"
  shows "view_dummy dummy l \<le> unat idx" "unat idx \<le> view_dummy dummy l + length (view_ents dummy ents l)"
proof -
  have "unat idx < 2 ^ 64" using unsigned_less [of idx, where 'a = nat] by simp
  then have "\<not> (unat idx < view_dummy dummy l \<or> view_dummy dummy l + length (view_ents dummy ents l) < unat idx)"
    using match_term_out [OF assms(1), of "unat idx" t] assms(2,3) by auto
  then show "view_dummy dummy l \<le> unat idx" "unat idx \<le> view_dummy dummy l + length (view_ents dummy ents l)"
    by simp_all
qed

lemma commit_ok:
  assumes "log_ok dummy ents wfs l" "unat c \<le> view_dummy dummy l + length (view_ents dummy ents l)"
  shows "log_ok dummy ents wfs (l\<lparr>rl_committed := max (rl_committed l) c\<rparr>)"
  using assms by (auto simp: log_ok_def max_def word_le_nat_alt)

lemma maybe_append_view:
  assumes ok: "log_ok dummy ents wfs l" and match: "match_term S l idx t = Inr True" "t \<noteq> 0"
    and new: "consecutive (unat idx + 1) new" "unat idx + 1 + length new < 2 ^ 64" "\<forall>e\<in>set new. en_term e \<noteq> 0"
    and safe: "\<And>j. conflict_at (drop (unat idx - view_dummy dummy l) (view_ents dummy ents l)) new = Some j \<Longrightarrow>
      unat (rl_committed l) \<le> unat idx + j"
  shows "\<exists>l' c. maybe_append S l idx t committed new = Inr (l', Some (c, idx + of_nat (length new))) \<and>
    log_ok dummy ents wfs l' \<and> view_dummy dummy l' = view_dummy dummy l \<and> view_dterm dterm l' = view_dterm dterm l \<and>
    view_ents dummy ents l' = accept (view_ents dummy ents l) (unat idx - view_dummy dummy l) new \<and>
    rl_committed l' = max (rl_committed l) (min committed (idx + of_nat (length new)))"
proof -
  let ?D = "view_dummy dummy l" and ?v = "view_ents dummy ents l" and ?m = "unat idx - view_dummy dummy l"
  let ?last = "idx + of_nat (length new)"
  have shape: "log_shape dummy ents wfs l" using ok by (simp add: log_ok_def)
  note range = match_termD [OF shape match]
  have m: "?m \<le> length ?v" "?D + ?m = unat idx" "?D + 1 + ?m = unat idx + 1" using range by simp_all
  have last: "unat ?last = unat idx + length new"
  proof -
    have "?last = word_of_nat (unat idx + length new)" by simp
    then show ?thesis using new(2) by (simp only: index_unat)
  qed
  have find: "find_conflict S l new = Inr (case conflict_at (drop ?m ?v) new of
      None \<Rightarrow> 0 | Some j \<Rightarrow> word_of_nat (?D + 1 + ?m + j))"
    using find_conflict [OF shape m(1)] new m by simp
  show ?thesis
  proof (cases "conflict_at (drop ?m ?v) new")
    case None
    have "unat idx + length new \<le> ?D + length ?v"
    proof -
      have "length new \<le> length ?v - ?m" using conflict_at_None [OF None] by simp
      with m show ?thesis by linarith
    qed
    then have le: "unat (min committed ?last) \<le> ?D + length ?v"
      using last by (simp add: min_def word_le_nat_alt)
    note commit = commit_to_view [OF shape le]
    let ?l' = "l\<lparr>rl_committed := max (rl_committed l) (min committed ?last)\<rparr>"
    have "maybe_append S l idx t committed new = Inr (?l', Some (0, ?last))"
      using match(1) find None commit by (simp add: maybe_append_def Let_def)
    moreover have "log_ok dummy ents wfs ?l'"
      using ok by (rule commit_ok) (rule le)
    ultimately show ?thesis
      by (auto simp: accept_def None)
  next
    case (Some j)
    note c = conflict_at_Some [OF Some]
    have cj: "unat (rl_committed l) \<le> unat idx + j" by (rule safe [OF Some])
    let ?c = "word_of_nat (unat idx + 1 + j) :: u64"
    have cw: "unat ?c = unat idx + 1 + j" using new(2) c by (intro index_unat) simp
    have cw1: "unat (?c - 1) = unat idx + j"
    proof -
      have "?c - 1 = word_of_nat (unat idx + j)" by simp
      moreover have "unat idx + j < 2 ^ 64" using new(2) c by simp
      ultimately show ?thesis by (simp only: index_unat)
    qed
    have nz: "?c \<noteq> 0" "\<not> ?c \<le> rl_committed l"
      using cw cj by (auto simp: word_le_nat_alt del: of_nat_add)
    have start: "unat (?c - (idx + 1)) = j"
    proof -
      have "?c - (idx + 1) = word_of_nat j" by simp
      then show ?thesis using new(2) c by (simp add: index_unat)
    qed
    have tail: "drop j new \<noteq> []" "consecutive (?D + 1 + (?m + j)) (drop j new)"
      "?m + j \<le> length ?v" "?D + 1 + (?m + j) + length (drop j new) < 2 ^ 64"
      "unat (rl_committed l) \<le> ?D + (?m + j)"
      using c consecutive_drop [OF new(1), of j] m new(2) cj by (auto simp: add.assoc [symmetric])
    obtain u i where u: "log_append S l (drop j new) = Inr (l\<lparr>rl_unstable := u\<rparr>, i)"
      "us_snapshot u = us_snapshot (rl_unstable l)" "log_shape dummy ents wfs (l\<lparr>rl_unstable := u\<rparr>)"
      "view_ents dummy ents (l\<lparr>rl_unstable := u\<rparr>) = take (?m + j) ?v @ drop j new"
      "unat (us_offset u) = min (unat (us_offset (rl_unstable l))) (?D + 1 + (?m + j))"
      using append_view [OF shape tail(1,2,3,4,5)] by blast
    let ?l1 = "l\<lparr>rl_unstable := u\<rparr>"
    let ?l2 = "if ?c - 1 < rl_persisted l then ?l1\<lparr>rl_persisted := ?c - 1\<rparr> else ?l1"
    have D: "view_dummy dummy ?l1 = ?D" "view_dterm dterm ?l1 = view_dterm dterm l"
      using u(2) by (rule view_same_store)+
    have len: "length (take (?m + j) ?v @ drop j new) = ?m + length new" using c tail(3) by simp
    have ok2: "log_ok dummy ents wfs ?l2"
    proof -
      have "unat (rl_committed l) \<le> ?D + length (take (?m + j) ?v @ drop j new)" "?D \<le> unat (rl_committed l)"
        using tail(5) c ok unfolding len by (simp_all add: log_ok_def)
      moreover have "rl_persisted ?l2 < us_offset u"
        using u(5) cw1 ok m(2) by (auto simp: log_ok_def word_less_nat_alt)
      ultimately show ?thesis
        using u(3,4) D ok by (auto simp: log_ok_def)
    qed
    have le: "unat (min committed ?last) \<le> view_dummy dummy ?l2 + length (view_ents dummy ents ?l2)"
      using last m u(4) len D by (auto simp: min_def word_le_nat_alt)
    have shape2: "log_shape dummy ents wfs ?l2" using ok2 by (simp add: log_ok_def)
    let ?l' = "?l2\<lparr>rl_committed := max (rl_committed l) (min committed ?last)\<rparr>"
    have commit: "commit_to S ?l2 (min committed ?last) = Inr ?l'"
      using commit_to_view [OF shape2 le] by auto
    have "maybe_append S l idx t committed new = Inr (?l', Some (?c, ?last))"
    proof -
      have conflict: "find_conflict S l new = Inr ?c" using find Some m(3) by simp
      have step: "(if ?c = 0 then Inr l
          else if ?c \<le> rl_committed l then Inl (RaftPanic ''entry conflict with committed entry'')
          else let start = unat (?c - (idx + 1))
               in if length new < start then Inl (RaftPanic ''range start index out of range'')
                  else rbind (log_append S l (drop start new)) (\<lambda>(l, _).
                       Inr (if ?c - 1 < rl_persisted l then l\<lparr>rl_persisted := ?c - 1\<rparr> else l))) = Inr ?l2"
        unfolding if_not_P [OF nz(1)] if_not_P [OF nz(2)] Let_def start
        using c u(1) by simp
      show ?thesis
        unfolding maybe_append_def match(1) rbind_Inr if_True conflict Let_def step [unfolded Let_def] commit ..
    qed
    moreover have "log_ok dummy ents wfs ?l'"
      using commit_ok [OF ok2 le] by auto
    ultimately show ?thesis
      using D u(4) by (auto simp: accept_def Some)
  qed
qed

lemma log_term_prefix:
  assumes "log_shape dummy ents wfs l" "log_shape dummy ents wfs l'"
    "view_dummy dummy l' = view_dummy dummy l" "view_dterm dterm l' = view_dterm dterm l"
    "take k (view_ents dummy ents l') = take k (view_ents dummy ents l)"
    "k \<le> length (view_ents dummy ents l)" "k \<le> length (view_ents dummy ents l')"
    "unat i \<le> view_dummy dummy l + k"
  shows "log_term S l' i = log_term S l i"
proof -
  let ?D = "view_dummy dummy l"
  have i: "i = word_of_nat (unat i)" "unat i < 2 ^ 64"
    using unsigned_less [of i, where 'a = nat] by simp_all
  consider "unat i < ?D" | "unat i = ?D" | j where "unat i = ?D + 1 + j" "j < k"
    using assms(8) by (metis Suc_eq_plus1 add.commute less_imp_Suc_add less_Suc_eq_le linorder_neqE_nat
        nat_add_left_cancel_less add_Suc_right)
  then show ?thesis
  proof cases
    case 1
    with i assms(1-3) log_term_out [of l "unat i"] log_term_out [of l' "unat i"] show ?thesis by simp
  next
    case 2
    with i(1) assms(1-4) log_term_dummy [of l] log_term_dummy [of l'] show ?thesis by simp
  next
    case (3 j)
    have "take k (view_ents dummy ents l') ! j = take k (view_ents dummy ents l) ! j" using assms(5) by simp
    then have "view_ents dummy ents l' ! j = view_ents dummy ents l ! j" using 3 by simp
    with 3 i(1) assms(1-3,6,7) log_term_at [of l j] log_term_at [of l' j] show ?thesis
      by (metis less_le_trans)
  qed
qed

end

text \<open>
  C26. A follower that has the entry before the ones a leader sends appends them without panicking, unless an
  entry that is already committed conflicts. Afterwards every entry sent is in the log, no index up to the
  preceding one and no committed index has another term than before, the log is well-formed, and the committed
  index has advanced to the leader's, as far as the entries sent reach.
\<close>

theorem maybe_append_log_matching:
  assumes store: "log_store S dummy dterm ents wfs" and ok: "log_ok dummy ents wfs l"
    and match: "match_term S l idx t = Inr True" "t \<noteq> 0"
    and new: "consecutive (unat idx + 1) new" "unat idx + 1 + length new < 2 ^ 64" "\<forall>e\<in>set new. en_term e \<noteq> 0"
    and safe: "\<And>j. conflict_at (drop (unat idx - view_dummy dummy l) (view_ents dummy ents l)) new = Some j \<Longrightarrow>
      unat (rl_committed l) \<le> unat idx + j"
  shows "\<exists>l' c. maybe_append S l idx t committed new = Inr (l', Some (c, idx + of_nat (length new))) \<and>
    log_ok dummy ents wfs l' \<and>
    rl_committed l' = max (rl_committed l) (min committed (idx + of_nat (length new))) \<and>
    (\<forall>e\<in>set new. log_term S l' (en_index e) = Inr (en_term e)) \<and>
    (\<forall>i. i \<le> idx \<or> i \<le> rl_committed l \<longrightarrow> log_term S l' i = log_term S l i)"
proof -
  note view = log_store.maybe_append_view [OF store ok match new safe, of committed]
  then obtain l' c where l': "maybe_append S l idx t committed new = Inr (l', Some (c, idx + of_nat (length new)))"
    "log_ok dummy ents wfs l'" "view_dummy dummy l' = view_dummy dummy l" "view_dterm dterm l' = view_dterm dterm l"
    "view_ents dummy ents l' = accept (view_ents dummy ents l) (unat idx - view_dummy dummy l) new"
    "rl_committed l' = max (rl_committed l) (min committed (idx + of_nat (length new)))" by blast
  let ?D = "view_dummy dummy l" and ?v = "view_ents dummy ents l" and ?m = "unat idx - view_dummy dummy l"
  have shape: "log_shape dummy ents wfs l" "log_shape dummy ents wfs l'"
    using ok l'(2) by (simp_all add: log_ok_def)
  note range = log_store.match_termD [OF store shape(1) match]
  have m: "?m \<le> length ?v" using range by simp
  have "log_term S l' (en_index e) = Inr (en_term e)" if "e \<in> set new" for e
  proof -
    from that obtain i where i: "i < length new" "e = new ! i" by (auto simp: in_set_conv_nth)
    with new(1) have "en_index e = word_of_nat (view_dummy dummy l' + 1 + (?m + i))"
      using range l'(3) by (simp add: consecutive_def)
    with accept_keeps(2) [OF m i(1)] log_store.log_term_at [OF store shape(2), of "?m + i"] i(2) l'(5)
    show ?thesis by simp
  qed
  moreover have "log_term S l' i = log_term S l i" if "i \<le> idx \<or> i \<le> rl_committed l" for i
  proof (cases "conflict_at (drop ?m ?v) new")
    case None
    then have "view_ents dummy ents l' = ?v" using l'(5) by (simp add: accept_def)
    moreover have "unat i \<le> ?D + length ?v"
      using that range ok by (auto simp: word_le_nat_alt log_ok_def)
    ultimately show ?thesis
      using log_store.log_term_prefix [OF store shape l'(3,4), of "length ?v" i] by simp
  next
    case (Some j)
    note c = conflict_at_Some [OF Some]
    have "unat i \<le> ?D + (?m + j)"
      using that range safe [OF Some] by (auto simp: word_le_nat_alt)
    with Some c m l'(5) show ?thesis
      by (intro log_store.log_term_prefix [OF store shape l'(3,4), of "?m + j" i]) (auto simp: accept_def)
  qed
  ultimately show ?thesis using l' by blast
qed

theorem maybe_append_log_matching_witness:
  "\<exists>l' c. maybe_append (mem_storage_ops (\<lambda>e. 12)) demo_log 2 1 3 [demo_entry 3 3, demo_entry 3 4] = Inr (l', Some (c, 4)) \<and>
    rl_committed l' = 3 \<and> log_term (mem_storage_ops (\<lambda>e. 12)) l' 4 = Inr 3"
proof -
  let ?S = "mem_storage_ops (\<lambda>e. 12)" and ?new = "[demo_entry 3 3, demo_entry 3 4]"
  have match: "match_term ?S demo_log 2 1 = Inr True" by code_simp
  have new: "consecutive (unat (2 :: u64) + 1) ?new" "unat (2 :: u64) + 1 + length ?new < 2 ^ 64"
    "\<forall>e\<in>set ?new. en_term e \<noteq> 0"
    by (simp_all add: consecutive_Cons consecutive_Nil demo_entry_def)
  have safe: "unat (rl_committed demo_log) \<le> unat (2 :: u64) + j" for j by (simp add: demo_log_def)
  have e: "en_index (demo_entry 3 4) = 4" "en_term (demo_entry 3 4) = 3" by (simp_all add: demo_entry_def)
  have c: "(2 :: u64) + word_of_nat (length ?new) = 4" "max (rl_committed demo_log) (min 3 4) = 3"
    by (simp_all add: demo_log_def min_def max_def)
  from maybe_append_log_matching [OF memlog.log_store_axioms demo_log_ok match _ new safe, of 3, unfolded c]
  obtain l' d where l': "maybe_append ?S demo_log 2 1 3 ?new = Inr (l', Some (d, 4))" "rl_committed l' = 3"
    "\<forall>e\<in>set ?new. log_term ?S l' (en_index e) = Inr (en_term e)" by auto
  from l'(3) have "log_term ?S l' (en_index (demo_entry 3 4)) = Inr (en_term (demo_entry 3 4))" by simp
  with l'(1,2) show ?thesis unfolding e by blast
qed

end
