(* ===== verification/Log_Read.thy ===== *)
theory Log_Read
  imports Log_Append
begin

text \<open>
  Reading the log: the search for the entry at which the logs of a leader and a follower may agree ends, slices are
  read across the border between stored and unstable entries, and what is handed out for
  application is committed.
\<close>

section \<open>The search by term\<close>

text \<open>
  Where the search from position \<open>i\<close> of the view ends: at the last entry at or before it whose term is small enough,
  at the entry before the view, whose term may be unknown, or one index below it.
\<close>

definition search_end ::
  "('s \<Rightarrow> nat) \<Rightarrow> ('s \<Rightarrow> u64 option) \<Rightarrow> ('s \<Rightarrow> entry list) \<Rightarrow> u64 \<Rightarrow> 's raft_log \<Rightarrow> nat \<Rightarrow> u64 \<Rightarrow> u64 option \<Rightarrow> bool" where
  "search_end dummy dterm ents t l i j r \<longleftrightarrow>
     (\<exists>k\<le>i. j = word_of_nat (view_dummy dummy l + k) \<and>
        r = (if k = 0 then view_dterm dterm l else Some (en_term (view_ents dummy ents l ! (k - 1)))) \<and>
        (\<forall>d. r = Some d \<longrightarrow> d \<le> t) \<and> (\<forall>x. k \<le> x \<longrightarrow> x < i \<longrightarrow> t < en_term (view_ents dummy ents l ! x))) \<or>
     (j = word_of_nat (view_dummy dummy l) - 1 \<and> r = Some 0 \<and> (\<exists>d>t. view_dterm dterm l = Some d) \<and>
        (\<forall>x<i. t < en_term (view_ents dummy ents l ! x)))"

lemma search_end_Suc:
  "search_end dummy dterm ents t l i j r \<Longrightarrow> t < en_term (view_ents dummy ents l ! i) \<Longrightarrow> search_end dummy dterm ents t l (Suc i) j r"
  unfolding search_end_def less_Suc_eq by (elim disjE exE conjE) (blast intro: le_SucI)+

context log_store
begin

lemma find_loop_out:
  assumes "log_shape dummy ents wfs l" "n < 2 ^ 64"
    "n < view_dummy dummy l \<or> view_dummy dummy l + length (view_ents dummy ents l) < n"
  shows "find_conflict_loop S l t (word_of_nat n) = Some (Inr (word_of_nat n, Some 0))"
  by (subst find_conflict_loop.simps) (simp add: log_term_out [OF assms])

lemma find_loop_below:
  assumes "log_shape dummy ents wfs l"
  shows "find_conflict_loop S l t (word_of_nat (view_dummy dummy l) - 1) =
    Some (Inr (word_of_nat (view_dummy dummy l) - 1, Some 0))"
proof -
  have "\<exists>n<2 ^ 64. word_of_nat (view_dummy dummy l) - 1 = (word_of_nat n :: u64) \<and>
    (n < view_dummy dummy l \<or> view_dummy dummy l + length (view_ents dummy ents l) < n)"
  proof (cases "view_dummy dummy l")
    case 0
    have "(word_of_nat (2 ^ 64 - 1) :: u64) = - 1" by simp
    with 0 view_bounded [OF assms] show ?thesis by (intro exI [of _ "2 ^ 64 - 1"]) simp
  next
    case (Suc k)
    with view_bounded [OF assms] show ?thesis by (intro exI [of _ k]) simp
  qed
  then show ?thesis using find_loop_out [OF assms] by metis
qed

lemma find_loop_dummy:
  assumes "log_shape dummy ents wfs l"
  shows "\<exists>j r. find_conflict_loop S l t (word_of_nat (view_dummy dummy l)) = Some (Inr (j, r)) \<and> search_end dummy dterm ents t l 0 j r"
proof (cases "view_dterm dterm l")
  case None
  then show ?thesis
    by (subst find_conflict_loop.simps) (simp add: log_term_dummy [OF assms] search_end_def)
next
  case (Some d)
  show ?thesis
  proof (cases "t < d")
    case True
    with Some have "find_conflict_loop S l t (word_of_nat (view_dummy dummy l)) =
        find_conflict_loop S l t (word_of_nat (view_dummy dummy l) - 1)"
      by (subst find_conflict_loop.simps) (simp add: log_term_dummy [OF assms])
    with True Some find_loop_below [OF assms] show ?thesis by (simp add: search_end_def)
  next
    case False
    with Some show ?thesis
      by (subst find_conflict_loop.simps) (simp add: log_term_dummy [OF assms] search_end_def)
  qed
qed

lemma find_loop:
  assumes "log_shape dummy ents wfs l" "i \<le> length (view_ents dummy ents l)"
  shows "\<exists>j r. find_conflict_loop S l t (word_of_nat (view_dummy dummy l + i)) = Some (Inr (j, r)) \<and> search_end dummy dterm ents t l i j r"
  using assms(2)
proof (induction i)
  case 0
  from find_loop_dummy [OF assms(1), of t] show ?case by simp
next
  case (Suc i)
  let ?v = "view_ents dummy ents l"
  have at: "log_term S l (word_of_nat (view_dummy dummy l + Suc i)) = Inr (en_term (?v ! i))"
    using log_term_at [OF assms(1), of i] Suc.prems by simp
  show ?case
  proof (cases "t < en_term (?v ! i)")
    case True
    then have "find_conflict_loop S l t (word_of_nat (view_dummy dummy l + Suc i)) =
        find_conflict_loop S l t (word_of_nat (view_dummy dummy l + i))"
      using at by (subst find_conflict_loop.simps) simp
    moreover obtain j r where "find_conflict_loop S l t (word_of_nat (view_dummy dummy l + i)) = Some (Inr (j, r))"
      "search_end dummy dterm ents t l i j r"
      using Suc.IH Suc.prems by auto
    ultimately show ?thesis using search_end_Suc [OF _ True] by metis
  next
    case False
    then have "find_conflict_loop S l t (word_of_nat (view_dummy dummy l + Suc i)) =
        Some (Inr (word_of_nat (view_dummy dummy l + Suc i), Some (en_term (?v ! i))))"
      using at by (subst find_conflict_loop.simps) simp
    moreover have "search_end dummy dterm ents t l (Suc i) (word_of_nat (view_dummy dummy l + Suc i)) (Some (en_term (?v ! i)))"
      using False unfolding search_end_def by (intro disjI1 exI [of _ "Suc i"]) simp
    ultimately show ?thesis by blast
  qed
qed

text \<open>The same, told by the terms of the indexes.\<close>

lemma search_end_terms:
  assumes shape: "log_shape dummy ents wfs l" and i: "i \<le> length (view_ents dummy ents l)"
    and ends: "search_end dummy dterm ents t l i j r"
  defines "index \<equiv> word_of_nat (view_dummy dummy l + i)"
  shows "(\<exists>d\<le>t. r = Some d \<and> view_dummy dummy l \<le> unat j \<and> j \<le> index \<and> log_term S l j = Inr d \<and>
        (\<forall>x. j < x \<longrightarrow> x \<le> index \<longrightarrow> (\<exists>d>t. log_term S l x = Inr d))) \<or>
    (r = None \<and> unat j = view_dummy dummy l \<and> log_term S l j = Inl StoreCompacted \<and>
        (\<forall>x. j < x \<longrightarrow> x \<le> index \<longrightarrow> (\<exists>d>t. log_term S l x = Inr d))) \<or>
    (r = Some 0 \<and> j = word_of_nat (view_dummy dummy l) - 1 \<and>
        (\<forall>x. view_dummy dummy l \<le> unat x \<longrightarrow> x \<le> index \<longrightarrow> (\<exists>d>t. log_term S l x = Inr d)))"
proof -
  let ?D = "view_dummy dummy l" and ?v = "view_ents dummy ents l"
  note bound = view_bounded [OF shape]
  have uidx: "unat index = ?D + i" unfolding index_def using i bound by (intro index_unat) simp
  have larger: "\<exists>d>t. log_term S l x = Inr d"
    if k: "\<forall>x. k \<le> x \<longrightarrow> x < i \<longrightarrow> t < en_term (?v ! x)" and x: "?D + k < unat x" "x \<le> index" for k x
  proof -
    define n where "n = unat x - (?D + 1)"
    have n: "unat x = ?D + 1 + n" "k \<le> n" "n < i"
      using x uidx by (auto simp: n_def word_le_nat_alt)
    have "word_of_nat (unat x) = x" by simp
    then have "x = word_of_nat (?D + 1 + n)" unfolding n(1) by (rule sym)
    then have "log_term S l x = Inr (en_term (?v ! n))" using log_term_at [OF shape, of n] n(3) i by simp
    with k n(2,3) show ?thesis by blast
  qed
  from ends [unfolded search_end_def] show ?thesis
  proof (elim disjE exE conjE)
    fix k assume k: "k \<le> i" "j = word_of_nat (?D + k)"
      "r = (if k = 0 then view_dterm dterm l else Some (en_term (?v ! (k - 1))))"
      "\<forall>d. r = Some d \<longrightarrow> d \<le> t" "\<forall>x. k \<le> x \<longrightarrow> x < i \<longrightarrow> t < en_term (?v ! x)"
    have uj: "unat j = ?D + k" unfolding k(2) using k(1) i bound by (intro index_unat) simp
    have up: "\<forall>x. j < x \<longrightarrow> x \<le> index \<longrightarrow> (\<exists>d>t. log_term S l x = Inr d)"
      using larger [OF k(5)] uj by (simp add: word_less_nat_alt)
    have le: "?D \<le> unat j" "j \<le> index" using uj uidx k(1) by (simp_all add: word_le_nat_alt)
    have at: "log_term S l j = (case r of None \<Rightarrow> Inl StoreCompacted | Some d \<Rightarrow> Inr d)"
    proof (cases k)
      case 0
      with k(2,3) log_term_dummy [OF shape] show ?thesis by simp
    next
      case (Suc n)
      with k(1,2,3) i log_term_at [OF shape, of n] show ?thesis by simp
    qed
    show ?thesis
    proof (cases r)
      case None
      with k(3) have "k = 0" by (simp split: if_splits)
      with None at uj up show ?thesis by simp
    next
      case (Some d)
      with at k(4) le up show ?thesis by simp
    qed
  next
    fix d assume d: "j = word_of_nat ?D - 1" "r = Some 0" "t < d" "view_dterm dterm l = Some d"
      "\<forall>x<i. t < en_term (?v ! x)"
    have "\<exists>d>t. log_term S l x = Inr d" if x: "?D \<le> unat x" "x \<le> index" for x
    proof (cases "unat x = ?D")
      case True
      have "word_of_nat (unat x) = x" by simp
      with True d(3,4) log_term_dummy [OF shape] show ?thesis by simp
    next
      case False
      with x d(5) larger [of 0 x] show ?thesis by simp
    qed
    with d(1,2) show ?thesis by blast
  qed
qed

end



section \<open>Slices\<close>

context log_store
begin

lemma unstable_slice_view:
  assumes "log_shape dummy ents wfs l" "length (stable_part dummy ents l) \<le> i" "i \<le> j"
    "j \<le> length (view_ents dummy ents l)"
  shows "unstable_slice (rl_unstable l) (word_of_nat (view_dummy dummy l + 1 + i)) (word_of_nat (view_dummy dummy l + 1 + j)) =
    Inr (take (j - i) (drop i (view_ents dummy ents l)))"
proof -
  let ?u = "rl_unstable l" and ?D = "view_dummy dummy l" and ?st = "stable_part dummy ents l"
  have off: "us_offset ?u = word_of_nat (?D + 1 + length ?st)" using assms(1) by (rule offset_eq)
  have bound: "?D + 1 + length (view_ents dummy ents l) < 2 ^ 64" using assms(1) by (rule view_bounded)
  have len: "length (view_ents dummy ents l) = length ?st + length (us_entries ?u)" by (simp add: view_ents_def)
  have diff: "unat (word_of_nat (?D + 1 + k) - us_offset ?u) = k - length ?st"
    if "length ?st \<le> k" "k \<le> length (view_ents dummy ents l)" for k
  proof -
    have e: "word_of_nat (?D + 1 + k) - us_offset ?u = word_of_nat (k - length ?st)"
      using that by (simp add: off of_nat_diff)
    show ?thesis unfolding e by (rule index_unat) (use that bound in simp)
  qed
  have "unstable_check_outofbounds ?u (word_of_nat (?D + 1 + i)) (word_of_nat (?D + 1 + j)) = Inr ()"
  proof -
    have upper: "us_offset ?u + word_of_nat (length (us_entries ?u)) = word_of_nat (?D + 1 + length (view_ents dummy ents l))"
      by (simp add: off len)
    show ?thesis
      unfolding unstable_check_outofbounds_def upper Let_def
      unfolding off using assms(2-) bound by (simp add: index_less len del: of_nat_add of_nat_Suc)
  qed
  then show ?thesis
    using assms(2-) diff [of i] diff [of j]
    by (simp add: unstable_slice_def view_ents_def del: of_nat_add of_nat_Suc)
qed

lemma check_outofbounds_view:
  assumes "log_shape dummy ents wfs l" "i \<le> j" "j \<le> length (view_ents dummy ents l)"
  shows "log_check_outofbounds S l (word_of_nat (view_dummy dummy l + 1 + i)) (word_of_nat (view_dummy dummy l + 1 + j)) = Inr None"
proof -
  let ?D = "view_dummy dummy l" and ?n = "length (view_ents dummy ents l)"
  have bound: "?D + 1 + ?n < 2 ^ 64" using assms(1) by (rule view_bounded)
  have "word_of_nat (?D + 1) + (word_of_nat (?D + ?n) + 1 - word_of_nat (?D + 1)) = (word_of_nat (?D + 1 + ?n) :: u64)"
    by simp
  with assms bound show ?thesis
    unfolding log_check_outofbounds_def first_index [OF assms(1)] last_index [OF assms(1)] rbind_Inr Let_def
    by (simp add: index_less del: of_nat_add of_nat_Suc)
qed

lemma slice_view:
  assumes "log_shape dummy ents wfs l" "i \<le> j" "j \<le> length (view_ents dummy ents l)"
  shows "(can_async ctx \<and> log_slice sz S l (word_of_nat (view_dummy dummy l + 1 + i)) (word_of_nat (view_dummy dummy l + 1 + j)) m ctx =
      Inl LogTemporarilyUnavailable) \<or>
    (\<exists>k\<le>j - i. (i < j \<longrightarrow> 0 < k) \<and> (m = None \<longrightarrow> k = j - i) \<and>
      log_slice sz S l (word_of_nat (view_dummy dummy l + 1 + i)) (word_of_nat (view_dummy dummy l + 1 + j)) m ctx =
        Inr (take k (drop i (view_ents dummy ents l))))"
proof (cases "i = j")
  case True
  then show ?thesis
    unfolding log_slice_def check_outofbounds_view [OF assms] rbind_Inr option.case by simp
next
  case False
  let ?u = "rl_unstable l" and ?D = "view_dummy dummy l" and ?st = "stable_part dummy ents l" and ?v = "view_ents dummy ents l"
  let ?low = "word_of_nat (?D + 1 + i) :: u64" and ?high = "word_of_nat (?D + 1 + j) :: u64"
  have ij: "i < j" using False assms(2) by simp
  have off: "us_offset ?u = word_of_nat (?D + 1 + length ?st)" using assms(1) by (rule offset_eq)
  have bound: "?D + 1 + length ?v < 2 ^ 64" using assms(1) by (rule view_bounded)
  have st: "length ?st \<le> length ?v" by (simp add: view_ents_def)
  have ne: "?low \<noteq> ?high" using ij assms(3) bound by (simp add: index_eq del: of_nat_add of_nat_Suc)
  have high: "us_offset ?u < ?high \<longleftrightarrow> length ?st < j"
    unfolding off using assms(3) bound st by (simp add: index_less del: of_nat_add of_nat_Suc)
  have low: "?low < us_offset ?u \<longleftrightarrow> i < length ?st"
    unfolding off using ij assms(3) bound st by (simp add: index_less del: of_nat_add of_nat_Suc)
  show ?thesis
  proof (cases "i < length ?st")
    case inside: False
    then have mx: "max ?low (us_offset ?u) = ?low" using low by (simp add: max_def not_less)
    have "log_slice sz S l ?low ?high m ctx = Inr (limit_size sz (take (j - i) (drop i ?v)) m)"
      unfolding log_slice_def check_outofbounds_view [OF assms] rbind_Inr option.case
      using ne low high inside ij unstable_slice_view [OF assms(1) _ assms(2,3)]
      by (simp add: Let_def mx del: of_nat_add of_nat_Suc)
    with limit_size_prefix [OF ij assms(3), of m sz] show ?thesis by auto
  next
    case inside: True
    then have none: "us_snapshot ?u = None" by (auto simp: stable_part_def split: option.splits)
    then have D: "?D = dummy (rl_store l)" by (simp add: view_dummy_def)
    have wfs: "wfs (rl_store l)" using assms(1) by (simp add: log_shape_def)
    have pre: "length ?st \<le> length (ents (rl_store l))" "k \<le> length ?st \<Longrightarrow> take k (ents (rl_store l)) = take k ?v" for k
      using none by (auto simp: stable_part_def view_ents_def min_absorb1)
    let ?h = "min j (length ?st)"
    have mn: "min ?high (us_offset ?u) = word_of_nat (?D + 1 + ?h)"
      using high off by (auto simp: min_def not_less)
    have h: "i < ?h" "?h \<le> length (ents (rl_store l))" using inside ij pre(1) by auto
    have gap: "word_of_nat (?D + 1 + ?h) - ?low = word_of_nat (?h - i)"
      using h by (simp add: of_nat_diff)
    have slice: "log_slice sz S l ?low ?high m ctx =
      (case st_entries S (rl_store l) ?low (word_of_nat (?D + 1 + ?h)) m ctx of
         Inl StoreCompacted \<Rightarrow> Inl StoreCompacted
       | Inl LogTemporarilyUnavailable \<Rightarrow> Inl LogTemporarilyUnavailable
       | Inl _ \<Rightarrow> Inl (RaftPanic ''entries are unavailable from storage'')
       | Inr entries \<Rightarrow>
           if word_of_nat (length entries) < (word_of_nat (?h - i) :: u64) then Inr entries
           else rbind (if us_offset ?u < ?high
                       then rbind (unstable_slice ?u (max ?low (us_offset ?u)) ?high) (\<lambda>u. Inr (entries @ u))
                       else Inr entries) (\<lambda>ents. Inr (limit_size sz ents m)))"
      unfolding log_slice_def check_outofbounds_view [OF assms] rbind_Inr option.case Let_def mn gap
      using ne low inside by (simp del: of_nat_add of_nat_Suc)
    from entries [OF wfs h, of ctx m, folded D] show ?thesis
    proof (elim disjE exE conjE)
      assume "can_async ctx" "st_entries S (rl_store l) ?low (word_of_nat (?D + 1 + ?h)) m ctx = Inl LogTemporarilyUnavailable"
      then show ?thesis unfolding slice by simp
    next
      fix k
      assume k: "0 < k" "k \<le> ?h - i" "m = None \<longrightarrow> k = ?h - i"
        and st_ents: "st_entries S (rl_store l) ?low (word_of_nat (?D + 1 + ?h)) m ctx = Inr (take k (drop i (ents (rl_store l))))"
      have part: "take k (drop i (ents (rl_store l))) = take k (drop i ?v)"
      proof -
        have "take (i + k) (ents (rl_store l)) = take (i + k) ?v" using k h by (intro pre(2)) simp
        then have "drop i (take (i + k) (ents (rl_store l))) = drop i (take (i + k) ?v)" by simp
        then show ?thesis by (simp add: drop_take)
      qed
      have len: "length (take k (drop i ?v)) = k" using k h st by simp
      have less: "word_of_nat k < (word_of_nat (?h - i) :: u64) \<longleftrightarrow> k < ?h - i"
        using k h bound st by (intro index_less) auto
      show ?thesis
      proof (cases "k < ?h - i")
        case True
        with k show ?thesis
          unfolding slice st_ents part sum.case len less by (intro disjI2 exI [of _ k]) auto
      next
        case False
        then have k': "k = ?h - i" using k(2) by simp
        have "(if us_offset ?u < ?high
             then rbind (unstable_slice ?u (max ?low (us_offset ?u)) ?high) (\<lambda>u. Inr (take k (drop i ?v) @ u))
             else Inr (take k (drop i ?v))) = Inr (take (j - i) (drop i ?v))"
        proof (cases "length ?st < j")
          case True
          then have mx: "max ?low (us_offset ?u) = word_of_nat (?D + 1 + length ?st)"
            using low inside max_absorb2 [of ?low "us_offset ?u"] off by simp
          have "take (length ?st - i) (drop i ?v) @ take (j - length ?st) (drop (length ?st) ?v) = take (j - i) (drop i ?v)"
            using True inside take_add [of "length ?st - i" "j - length ?st" "drop i ?v"] by simp
          with True show ?thesis
            unfolding mx using unstable_slice_view [OF assms(1) order_refl, of j] assms(3) high
            by (simp add: k' del: of_nat_add of_nat_Suc)
        next
          case False
          with high show ?thesis by (simp add: k' min_absorb1)
        qed
        then have "log_slice sz S l ?low ?high m ctx = Inr (limit_size sz (take (j - i) (drop i ?v)) m)"
          unfolding slice st_ents part sum.case len less using False by simp
        with limit_size_prefix [OF ij assms(3), of m sz] show ?thesis by auto
      qed
    qed
  qed
qed

end

context log_store
begin

lemma slice_range:
  assumes "log_shape dummy ents wfs l"
    "view_dummy dummy l < unat low" "low \<le> high" "unat high \<le> view_dummy dummy l + 1 + length (view_ents dummy ents l)"
  shows "(can_async ctx \<and> log_slice sz S l low high m ctx = Inl LogTemporarilyUnavailable) \<or>
    (\<exists>es. log_slice sz S l low high m ctx = Inr es \<and> consecutive (unat low) es \<and>
      es = take (length es) (drop (unat low - view_dummy dummy l - 1) (view_ents dummy ents l)) \<and>
      length es \<le> unat high - unat low \<and> (low < high \<longrightarrow> es \<noteq> []) \<and> (m = None \<longrightarrow> length es = unat high - unat low))"
proof -
  let ?D = "view_dummy dummy l" and ?v = "view_ents dummy ents l"
  let ?i = "unat low - ?D - 1" and ?j = "unat high - ?D - 1"
  have le: "unat low \<le> unat high" using assms(3) by (simp add: word_le_nat_alt)
  have i: "?D + 1 + ?i = unat low" "?D + 1 + ?j = unat high" using assms(2) le by simp_all
  have w: "word_of_nat (?D + 1 + ?i) = low" "word_of_nat (?D + 1 + ?j) = high" unfolding i by simp_all
  have ij: "?i \<le> ?j" "?j \<le> length ?v" "?j - ?i = unat high - unat low" "?i < ?j \<longleftrightarrow> low < high"
    using assms(2,4) le by (auto simp: word_less_nat_alt)
  have cons: "consecutive (?D + 1 + ?i) (drop ?i ?v)"
    using consecutive_drop [OF view_consecutive [OF assms(1)]] .
  from slice_view [OF assms(1) ij(1,2), of ctx sz m, unfolded w] show ?thesis
  proof (elim disjE exE conjE)
    fix k assume k: "k \<le> ?j - ?i" "?i < ?j \<longrightarrow> 0 < k" "m = None \<longrightarrow> k = ?j - ?i"
      "log_slice sz S l low high m ctx = Inr (take k (drop ?i ?v))"
    have len: "length (take k (drop ?i ?v)) = k" using k(1) ij(1,2) by simp
    have "consecutive (unat low) (take k (drop ?i ?v))"
      using consecutive_take [OF cons] i(1) by simp
    with k len ij(3,4) show ?thesis
      by (intro disjI2 exI [of _ "take k (drop ?i ?v)"]) auto
  qed simp
qed

end

text \<open>
  C29. Reading a range of the log that it holds gives a prefix of the entries of the range, in order and never an
  empty one for a range that is not empty, whichever part of them is stored and whichever is unstable; the
  whole range when no size limit is given. A reader that allows it may be told to try later.
\<close>

theorem log_slice_reads:
  assumes "log_store S dummy dterm ents wfs" "log_shape dummy ents wfs l"
    "view_dummy dummy l < unat low" "low \<le> high" "unat high \<le> view_dummy dummy l + 1 + length (view_ents dummy ents l)"
  shows "(can_async ctx \<and> log_slice sz S l low high m ctx = Inl LogTemporarilyUnavailable) \<or>
    (\<exists>es. log_slice sz S l low high m ctx = Inr es \<and> consecutive (unat low) es \<and>
      es = take (length es) (drop (unat low - view_dummy dummy l - 1) (view_ents dummy ents l)) \<and>
      length es \<le> unat high - unat low \<and> (low < high \<longrightarrow> es \<noteq> []) \<and> (m = None \<longrightarrow> length es = unat high - unat low))"
  using log_store.slice_range [OF assms] .

theorem log_slice_reads_witness:
  "\<exists>es. log_slice (\<lambda>e. 12) (mem_storage_ops (\<lambda>e. 12)) demo_log 1 4 None GenReady = Inr es \<and> length es = 3"
proof -
  have c: "\<not> can_async GenReady" by (simp add: can_async_def)
  have v: "view_dummy mem_dummy demo_log < unat (1 :: u64)" "(1 :: u64) \<le> 4"
    "unat (4 :: u64) \<le> view_dummy mem_dummy demo_log + 1 + length (view_ents mem_dummy ms_entries demo_log)"
    by (simp_all add: demo_simps)
  show ?thesis
    using log_slice_reads [OF memlog.log_store_axioms demo_log_shape v, of GenReady "\<lambda>e. 12" "\<lambda>e. 12" None] c by auto
qed

section \<open>Entries to apply\<close>

text \<open>
  C27. The entries handed out for application follow the applied index without a gap, or start the log when
  a snapshot is ahead of the applied index, and none of them is beyond the committed index or further beyond
  the persisted index than the limit allows. There are such entries whenever the answer is not \<open>None\<close>.
\<close>

theorem next_entries_committed:
  assumes "log_store S dummy dterm ents wfs" "log_ok dummy ents wfs l"
    and "unat (rl_persisted l) + unat (rl_max_apply_unpersisted_log_limit l) < 2 ^ 64 - 1"
  shows "\<exists>r. next_entries sz S l m = Inr r \<and>
    (case r of
       None \<Rightarrow> min (unat (rl_committed l)) (unat (rl_persisted l) + unat (rl_max_apply_unpersisted_log_limit l)) \<le>
                max (unat (rl_applied l)) (view_dummy dummy l)
     | Some es \<Rightarrow> es \<noteq> [] \<and> consecutive (max (unat (rl_applied l)) (view_dummy dummy l) + 1) es \<and>
         (\<forall>e\<in>set es. en_index e \<le> rl_committed l \<and>
           unat (en_index e) \<le> unat (rl_persisted l) + unat (rl_max_apply_unpersisted_log_limit l) \<and>
           log_term S l (en_index e) = Inr (en_term e)))"
proof -
  let ?D = "view_dummy dummy l" and ?v = "view_ents dummy ents l"
  let ?p = "unat (rl_persisted l) + unat (rl_max_apply_unpersisted_log_limit l)"
  let ?hi = "min (unat (rl_committed l)) ?p" and ?lo = "max (unat (rl_applied l)) ?D"
  have shape: "log_shape dummy ents wfs l" using assms(2) by (simp add: log_ok_def)
  note bound = log_store.view_bounded [OF assms(1) shape]
  have com: "unat (rl_committed l) \<le> ?D + length ?v" "unat (rl_applied l) \<le> unat (rl_committed l)"
    using assms(2) by (simp_all add: log_ok_def word_le_nat_alt)
  have app: "rl_applied l + 1 = word_of_nat (unat (rl_applied l) + 1)" by simp
  have up: "applied_index_upper_bound l + 1 = word_of_nat (?hi + 1)"
  proof -
    have sum: "unat (rl_persisted l + rl_max_apply_unpersisted_log_limit l) = ?p"
      using assms(3) by (intro index_add_unat) simp
    have "unat (applied_index_upper_bound l) = ?hi"
      using sum by (simp add: applied_index_upper_bound_def min_def word_le_nat_alt)
    then have "(word_of_nat (unat (applied_index_upper_bound l)) :: u64) = word_of_nat ?hi" by simp
    then have "applied_index_upper_bound l = word_of_nat ?hi" by simp
    then show ?thesis by simp
  qed
  have hb: "?hi + 1 < 2 ^ 64" "?lo + 1 < 2 ^ 64" using com bound by auto
  have offset: "max (rl_applied l + 1) (word_of_nat (?D + 1)) = (word_of_nat (?lo + 1) :: u64)"
    unfolding app using com bound by (auto simp: max_def index_le simp del: of_nat_add of_nat_Suc)
  have lohi: "(word_of_nat (?lo + 1) :: u64) < word_of_nat (?hi + 1) \<longleftrightarrow> ?lo < ?hi"
    using hb by (subst index_less) simp_all
  have nxt: "next_entries sz S l m =
      (if ?lo < ?hi
       then case log_slice sz S l (word_of_nat (?lo + 1)) (word_of_nat (?hi + 1)) m GenReady of
              Inr vec \<Rightarrow> Inr (Some vec) | Inl e \<Rightarrow> Inl (RaftPanic ''next_entries'')
       else Inr None)"
    unfolding next_entries_def next_entries_since_def log_store.first_index [OF assms(1) shape] rbind_Inr Let_def
      offset up lohi ..
  show ?thesis
  proof (cases "?lo < ?hi")
    case False
    have "next_entries sz S l m = Inr None" unfolding nxt using False by (rule if_not_P)
    moreover have "?hi \<le> ?lo" using False by (simp only: not_less)
    ultimately show ?thesis by (intro exI [of _ None]) simp
  next
    case True
    have u: "unat (word_of_nat (?lo + 1) :: u64) = ?lo + 1" "unat (word_of_nat (?hi + 1) :: u64) = ?hi + 1"
      using hb by (simp_all only: index_unat)
    have le: "word_of_nat (?lo + 1) \<le> (word_of_nat (?hi + 1) :: u64)" "word_of_nat (?lo + 1) < (word_of_nat (?hi + 1) :: u64)"
      using lohi True by simp_all
    have async: "\<not> can_async GenReady" by (simp add: can_async_def)
    have rng: "?D < unat (word_of_nat (?lo + 1) :: u64)" "unat (word_of_nat (?hi + 1) :: u64) \<le> ?D + 1 + length ?v"
      unfolding u using com by linarith+
    from log_store.slice_range [OF assms(1) shape rng(1) le(1) rng(2), of GenReady sz m] async le(2)
    obtain es where es: "log_slice sz S l (word_of_nat (?lo + 1)) (word_of_nat (?hi + 1)) m GenReady = Inr es"
      "consecutive (?lo + 1) es" "es = take (length es) (drop (?lo + 1 - ?D - 1) ?v)" "length es \<le> ?hi + 1 - (?lo + 1)" "es \<noteq> []"
      unfolding u by blast
    have "en_index e \<le> rl_committed l \<and> unat (en_index e) \<le> ?p \<and> log_term S l (en_index e) = Inr (en_term e)"
      if "e \<in> set es" for e
    proof -
      from that obtain n where n: "n < length es" "e = es ! n" by (auto simp: in_set_conv_nth)
      have idx: "en_index e = word_of_nat (?lo + 1 + n)" using es(2) n by (simp add: consecutive_def)
      have "?lo + 1 + n \<le> ?hi" using n(1) es(4) True by linarith
      moreover from this have un: "unat (en_index e) = ?lo + 1 + n" unfolding idx using hb(1) by (intro index_unat) linarith
      moreover have "log_term S l (en_index e) = Inr (en_term e)"
      proof -
        let ?k = "?lo - ?D + n"
        have k: "?k < length ?v" using \<open>?lo + 1 + n \<le> ?hi\<close> com by linarith
        have "es ! n = take (length es) (drop (?lo - ?D) ?v) ! n" using es(3) by simp
        then have "e = ?v ! ?k" using n k by (simp only: nth_take nth_drop less_imp_le add_lessD1)
        moreover have "en_index e = word_of_nat (?D + 1 + ?k)" unfolding idx by (rule arg_cong [of _ _ word_of_nat]) simp
        ultimately show ?thesis using log_store.log_term_at [OF assms(1) shape k] by simp
      qed
      ultimately show ?thesis by (simp add: word_le_nat_alt)
    qed
    moreover have "next_entries sz S l m = Inr (Some es)" unfolding nxt if_P [OF True] es(1) by simp
    ultimately show ?thesis using es(2,5) by (intro exI [of _ "Some es"]) simp
  qed
qed

theorem next_entries_committed_witness:
  "\<exists>es. next_entries (\<lambda>e. 12) (mem_storage_ops (\<lambda>e. 12)) demo_log None = Inr (Some es) \<and>
    consecutive 2 es \<and> es \<noteq> [] \<and> (\<forall>e\<in>set es. en_index e \<le> 2)"
proof -
  have v: "unat (rl_persisted demo_log) + unat (rl_max_apply_unpersisted_log_limit demo_log) < 2 ^ 64 - 1"
    "view_dummy mem_dummy demo_log = 0" "rl_persisted demo_log = 2" "rl_max_apply_unpersisted_log_limit demo_log = 0"
    "rl_applied demo_log = 1" "rl_committed demo_log = 2"
    by (simp_all add: demo_simps)
  from next_entries_committed [OF memlog.log_store_axioms demo_log_ok v(1), of "\<lambda>e. 12" "\<lambda>e. 12" None, unfolded v(2-6)]
  obtain r where r: "next_entries (\<lambda>e. 12) (mem_storage_ops (\<lambda>e. 12)) demo_log None = Inr r"
    "case r of None \<Rightarrow> min (unat (2 :: u64)) (unat (2 :: u64) + unat (0 :: u64)) \<le> max (unat (1 :: u64)) 0
     | Some es \<Rightarrow> es \<noteq> [] \<and> consecutive (max (unat (1 :: u64)) 0 + 1) es \<and> (\<forall>e\<in>set es. en_index e \<le> 2)"
    by (fastforce split: option.splits)
  then obtain es where "r = Some es" by (cases r) auto
  moreover have "max (unat (1 :: u64)) 0 + 1 = 2" by simp
  ultimately show ?thesis using r by (simp only: option.case) blast
qed

end
