(* ===== verification/Spec2Isabelle.thy ===== *)
theory Spec2Isabelle
  imports Scan_Props Write_Props Shard_Props Config_Props Lease Conf_Change Log_Read
begin

text \<open>
  Verification of Sekas, a transactional key-value store whose data is split into shards, kept by groups of replicas
  that agree through raft. This theory collects the development; the theories below it hold the
  models and the properties.

  \<^bold>\<open>The program and how its parts interact.\<close> A client request reaches the leader of the group that serves a
  shard. An evaluator (\<open>src/server/src/replica/eval\<close>) reads the engine of the group
  (\<open>src/server/src/engine/group.rs\<close>) and answers, or answers with a batch of writes to replicate. The raft
  library (\<open>third/raft-rs\<close>) appends the proposal to the log, counts acknowledgements of the configuration's
  quorums, and hands committed entries out. The state machine of the group
  (\<open>src/server/src/replica/fsm\<close>) applies them: batches go to the engine, changes of shards and replicas
  to the descriptor of the group, and the lease state (\<open>src/server/src/replica/state.rs\<close>) is told. Transactions
  write intents under the largest version of a key and turn them into versions when they commit; a reader that meets
  an intent of another transaction resolves that transaction first.

  \<^bold>\<open>Conventions.\<close> A Rust struct is a record, an enum a datatype, \<open>u64\<close> a 64-bit word, a vector of bytes a list of
  8-bit words. A function that may fail returns a sum whose left side is the error; a panic is an error
  that nothing handles (\<open>Panic\<close> in the server, \<open>RaftPanic\<close> in the raft library). Arithmetic wraps as in a release
  build. A function that changes its receiver returns the new value. A \<open>HashSet\<close> is a list without
  duplicates. Awaiting is not modelled: an evaluator runs under the latches of its keys.

  \<^bold>\<open>Code outside the repository.\<close> RocksDB and the generated protobuf codecs are the record \<open>ext\<close> that the
  operations take as an argument. What is relied on of them are the locales \<open>ordered_store\<close> (a store of byte
  keys with sorted iteration and atomic batches) and \<open>intent_codec\<close> (decoding undoes encoding) of \<open>Externals\<close>; both are
  interpreted as \<open>mem\<close> on red-black trees, and the witnesses run there. The clock of the batch
  writes, the resolution of a foreign transaction, the liveness of watchers and the encoded size of an entry are arguments
  as well.

  \<^bold>\<open>Theories of the store.\<close>
  \<^item> \<open>Prelude\<close>: machine types, results and their bind, the shared collections of rewrite rules, lemmas on
    sorted lists.
  \<^item> \<open>Rock\<close> (\<open>src/rock\<close>), \<open>Api\<close> (\<open>src/api\<close>), \<open>Schema\<close> (\<open>src/schema\<close>): key boundaries and counters, the messages
    and descriptors with their epochs, shard ranges and system ids.
  \<^item> \<open>Mvcc_Keys\<close>, \<open>Group_Engine\<close> (\<open>engine/group.rs\<close>): the encoding of keys and versions, write batches, the
    snapshot and its two iterators. \<open>Mvcc_View\<close>, \<open>Point_Reads\<close> and \<open>Row_Writes\<close> relate them to rows, that is to maps
    from versions to contents: what a snapshot shows, what a point read returns and what a batch
    changes.
  \<^item> \<open>Cas\<close>, \<open>Eval_Txn\<close> (\<open>cas.rs\<close>, \<open>cmd_txn.rs\<close>): write conditions, and writing, committing and clearing
    intents. \<open>Txn_Spec\<close> and \<open>Txn_Commit\<close> reduce the commands to rows; \<open>Txn_Props\<close> states what transactions rely
    on: when an intent is granted or refused, that retries are harmless, that nobody touches the intent of another
    transaction, that committing publishes exactly what was written and clearing restores the row.
  \<^item> \<open>Eval_Read\<close> (\<open>cmd_get.rs\<close>, \<open>cmd_scan.rs\<close>): \<open>Get_Props\<close> shows that a get is a snapshot read and stays one
    under later commits; \<open>Scan_View\<close> and \<open>Scan_Props\<close> show that a scan is a fold over the histories of the
    keys of its range, that it is complete up to its limits, and what the merge of two answers keeps.
  \<^item> \<open>Eval_Write\<close> (\<open>cmd_write.rs\<close>, \<open>cmd_ingest.rs\<close>, the shard commands): \<open>Write_Props\<close> shows that the last operation
    of a batch on a key wins, and that ingesting the versions of a key copies its history.
  \<^item> \<open>Fsm\<close> (\<open>replica/fsm\<close>): application of committed entries, watchers and snapshots. \<open>Shard_Props\<close> shows that
    splits and merges keep the shards a partition of the keys they serve, \<open>Config_Props\<close> what roles replicas have in a
    joint configuration and after it.
  \<^item> \<open>Lease\<close> (\<open>replica/state.rs\<close>): the role, the term and the descriptor as observers of the state
    machine keep them; a model without properties of its own.

  \<^bold>\<open>Theories of the raft library.\<close>
  \<^item> \<open>Quorum\<close> (\<open>quorum/majority.rs\<close>, \<open>quorum/joint.rs\<close>): the committed index is the largest one that majorities of
    both halves hold, group commit is safe, and a vote is decided exactly when no missing vote can change it.
  \<^item> \<open>Inflights\<close> (\<open>tracker/inflights.rs\<close>, \<open>tracker/progress.rs\<close>): the ring buffer refines a bounded queue.
  \<^item> \<open>Raft_Conf\<close> (\<open>tracker.rs\<close>, \<open>confchange\<close>): configurations and their changes. \<open>Conf_Change\<close> has the
    inductive relation of the changes a tracker goes through, with the invariant of every reachable tracker, the
    intersection of the quorums of consecutive configurations, and the round trip through \<open>ConfState\<close>.
  \<^item> \<open>Raft_Log\<close> (\<open>raft_log.rs\<close>, \<open>log_unstable.rs\<close>): the log over any implementation of the trait \<open>Storage\<close>, a
    record of operations. \<open>Log_View\<close> states the contract of the trait as the locale \<open>log_store\<close> and views a log
    as one list of entries; \<open>Log_Append\<close> shows that accepting the entries of a leader keeps the committed prefix and
    the log matching property; \<open>Log_Read\<close> shows where the search for a conflict ends, what slices return and
    that only committed entries are handed out.
  \<^item> \<open>Mem_Storage\<close> (\<open>storage.rs\<close>): the storage in memory, the interpretation \<open>memlog\<close> of \<open>log_store\<close>, and that
    moving unstable entries to it changes nothing a reader sees.

  \<^bold>\<open>Termination.\<close> Iterators, scans and merges are functions with termination proofs, by the number of entries left, so no
  fuel is used. Two loops of the code have no bound of their own and are partial functions with value \<open>None\<close> for
  not returning: the retry of \<open>read_first_non_intent_key\<close>, which ends only if resolving transactions makes progress (the
  properties of \<open>write_intent\<close> name the result they start from), and \<open>find_conflict_loop\<close>, which is proved to
  return.

  \<^bold>\<open>Bounds.\<close> Properties of the log assume that indexes stay below \<open>2 ^ 64\<close>, which is part of \<open>log_store\<close> and of
  \<open>log_shape\<close>; the entries handed out for application also assume that the persisted index and the limit beyond
  it do not overflow when added.

  \<^bold>\<open>Not modelled.\<close> The elections, timers and messages of the raft library (\<open>raft.rs\<close>, \<open>raw_node.rs\<close>), which are driven
  by randomised timeouts and queues; the log engine (\<open>third/raft-engine\<close>), a storage library of files
  and memory maps; the ready loop, the applier and the log storage of Sekas
  (\<open>src/server/src/raftgroup\<close>), which drive these two; latches, retries and the front end of a replica, the node, the root
  with its allocator and schedulers, the services, the transport and the client, whose behaviour is that of
  concurrent tasks, timers and remote calls; the paged \<open>scan\<close> of the raft log, which only reads; options, filters and metrics
  of RocksDB; the statement parser, the command line tools and the etcd layer, on which nothing modelled depends.
\<close>

end
